(* ===== verification/Prelude.thy ===== *)
theory Prelude
  imports Complex_Main "HOL-Library.Word" "HOL-Library.Multiset" "HOL-Library.AList"
begin

section \<open>Shared notions: JavaScript strings, insertion-ordered maps, folds with an invariant\<close>

text \<open>
  What every other theory uses. JavaScript strings are lists of 16-bit code units; a literal of
  the source is written \<open>jstr ''...''\<close>. A JavaScript \<open>Map\<close> is an association list in insertion
  order; its contract is the locale \<open>ordered_map\<close>, interpreted on the association lists. The
  locales \<open>fold_invariant\<close> and \<open>fold_account\<close> are the two induction patterns of the event
  loops: an invariant kept by every step, and a multiset of identifiers that every step charges
  at most once.
\<close>

named_theorems js_str \<open>evaluation of string operations on literals\<close>

subsection \<open>Strings\<close>

type_synonym code_unit = "16 word"
type_synonym jsstring = "code_unit list"

definition unit_of_char :: "char \<Rightarrow> code_unit" where
  "unit_of_char c = word_of_nat (of_char c)"

definition jstr :: "string \<Rightarrow> jsstring" where
  "jstr s = map unit_of_char s"

lemma of_char_lt_256: "(of_char c :: nat) < 256"
  by (cases c) (simp add: split: bool.splits)

lemma unat_unit_of_char [simp]: "unat (unit_of_char c) = of_char c"
proof -
  have "(of_char c :: nat) < 65536" using of_char_lt_256 [of c] by linarith
  then show ?thesis by (simp add: unit_of_char_def unat_of_nat)
qed

lemma unit_of_char_inject [simp]: "unit_of_char c = unit_of_char d \<longleftrightarrow> c = d"
  by (metis of_char_eq_iff unat_unit_of_char)

lemma jstr_inject [simp]: "jstr s = jstr t \<longleftrightarrow> s = t"
  by (simp add: jstr_def inj_map_eq_map inj_def)

lemma jstr_Nil_iff [simp]: "jstr s = [] \<longleftrightarrow> s = []" "[] = jstr s \<longleftrightarrow> s = []"
  by (auto simp: jstr_def)

lemma jstr_append: "jstr (s @ t) = jstr s @ jstr t"
  by (simp add: jstr_def)

lemma length_jstr [simp]: "length (jstr s) = length s"
  by (simp add: jstr_def)

text \<open>\<open>xs.join(sep)\<close>.\<close>

fun join :: "jsstring \<Rightarrow> jsstring list \<Rightarrow> jsstring" where
  "join sep [] = []"
| "join sep [x] = x"
| "join sep (x # y # xs) = x @ sep @ join sep (y # xs)"

lemma join_Nil_sep: "join [] xs = concat xs"
  by (induction "[] :: jsstring" xs rule: join.induct) simp_all

lemma join_empty_iff: "join sep xs = [] \<longleftrightarrow> (\<forall>x\<in>set xs. x = []) \<and> (sep = [] \<or> length xs \<le> 1)"
  by (induction sep xs rule: join.induct) auto

text \<open>\<open>s.includes(t)\<close>: the second string is a contiguous part of the first.\<close>

fun js_includes :: "jsstring \<Rightarrow> jsstring \<Rightarrow> bool" where
  "js_includes [] t = (t = [])"
| "js_includes (c # s) t = (take (length t) (c # s) = t \<or> js_includes s t)"

lemma js_includes_iff: "js_includes s t \<longleftrightarrow> (\<exists>p q. s = p @ t @ q)"
proof (induction s)
  case Nil
  show ?case by auto
next
  case (Cons c s)
  have "take (length t) (c # s) = t \<longleftrightarrow> (\<exists>q. c # s = t @ q)"
    by (metis append_eq_conv_conj)
  moreover have "(\<exists>p q. c # s = p @ t @ q) \<longleftrightarrow>
      (\<exists>q. c # s = t @ q) \<or> (\<exists>p q. s = p @ t @ q)"
    by (metis append_Cons append_Nil list.exhaust list.inject)
  ultimately show ?case using Cons by simp
qed

text \<open>White space of \<open>String.prototype.trim\<close>: the WhiteSpace and LineTerminator code points.\<close>

definition js_whitespace :: "code_unit list" where
  "js_whitespace = [0x0009, 0x000A, 0x000B, 0x000C, 0x000D, 0x0020, 0x00A0, 0x1680,
     0x2000, 0x2001, 0x2002, 0x2003, 0x2004, 0x2005, 0x2006, 0x2007, 0x2008, 0x2009, 0x200A,
     0x2028, 0x2029, 0x202F, 0x205F, 0x3000, 0xFEFF]"

definition is_ws :: "code_unit \<Rightarrow> bool" where
  "is_ws c \<longleftrightarrow> List.member js_whitespace c"

definition trim :: "jsstring \<Rightarrow> jsstring" where
  "trim s = rev (dropWhile is_ws (rev (dropWhile is_ws s)))"

lemma trim_empty_iff: "trim s = [] \<longleftrightarrow> (\<forall>c\<in>set s. is_ws c)"
proof -
  have "trim s = [] \<longleftrightarrow> (\<forall>c\<in>set (dropWhile is_ws s). is_ws c)"
    by (simp add: trim_def dropWhile_eq_Nil_conv)
  also have "\<dots> \<longleftrightarrow> (\<forall>c\<in>set s. is_ws c)"
    by (metis dropWhile_eq_Nil_conv hd_dropWhile hd_in_set set_dropWhileD)
  finally show ?thesis .
qed

lemma dropWhile_fix: "dropWhile P (dropWhile P xs) = dropWhile P xs"
  by (induction xs) auto

lemma hd_trim: "trim s \<noteq> [] \<Longrightarrow> \<not> is_ws (hd (trim s))"
proof -
  assume ne: "trim s \<noteq> []"
  let ?d = "dropWhile is_ws s"
  obtain r where r: "?d = trim s @ r"
    unfolding trim_def by (metis rev_append rev_rev_ident takeWhile_dropWhile_id)
  from ne r have "hd (trim s) = hd ?d" by simp
  moreover from ne r have "?d \<noteq> []" by simp
  ultimately show ?thesis using hd_dropWhile [of is_ws s] by simp
qed

lemma last_trim: "trim s \<noteq> [] \<Longrightarrow> \<not> is_ws (last (trim s))"
  unfolding trim_def by (metis hd_dropWhile last_rev rev_is_Nil_conv)

lemma trim_trim [simp]: "trim (trim s) = trim s"
proof (cases "trim s = []")
  case True
  then show ?thesis by (simp only: True) (simp add: trim_def)
next
  case False
  then have "dropWhile is_ws (trim s) = trim s"
    using hd_trim [OF False] by (cases "trim s") auto
  moreover from False have "dropWhile is_ws (rev (trim s)) = rev (trim s)"
    using last_trim [OF False] by (cases "rev (trim s)") (auto simp: hd_rev [symmetric])
  ultimately show ?thesis by (simp add: trim_def [of "trim s"])
qed

text \<open>
  \<open>s.toLowerCase()\<close>, as far as the source can observe it: the results are compared with, or
  searched for, ASCII words, so the model lowers the ASCII capitals and the two code points whose
  lower case holds an ASCII letter (KELVIN SIGN and LATIN CAPITAL LETTER I WITH DOT ABOVE) and
  keeps every other code unit, which maps to no ASCII letter.
\<close>

definition lower_unit :: "code_unit \<Rightarrow> jsstring" where
  "lower_unit c =
     (if 0x41 \<le> c \<and> c \<le> 0x5A then [c + 0x20]
      else if c = 0x212A then [0x6B]
      else if c = 0x0130 then [0x69, 0x0307]
      else [c])"

definition toLowerCase :: "jsstring \<Rightarrow> jsstring" where
  "toLowerCase s = concat (map lower_unit s)"

text \<open>\<open>String(n)\<close> of an integer.\<close>

fun digits :: "nat \<Rightarrow> string" where
  "digits n = (if n < 10 then [char_of (48 + n)] else digits (n div 10) @ [char_of (48 + n mod 10)])"

declare digits.simps [simp del]

definition show_int :: "int \<Rightarrow> jsstring" where
  "show_int i = (if i < 0 then jstr (''-'' @ digits (nat (- i))) else jstr (digits (nat i)))"

subsection \<open>JavaScript \<open>Map\<close>: association lists in insertion order\<close>

type_synonym ('k, 'v) jsmap = "('k \<times> 'v) list"

definition map_get :: "('k, 'v) jsmap \<Rightarrow> 'k \<Rightarrow> 'v option" where
  "map_get m k = map_of m k"

definition map_put :: "('k, 'v) jsmap \<Rightarrow> 'k \<Rightarrow> 'v \<Rightarrow> ('k, 'v) jsmap" where
  "map_put m k v = AList.update k v m"

definition map_del :: "('k, 'v) jsmap \<Rightarrow> 'k \<Rightarrow> ('k, 'v) jsmap" where
  "map_del m k = AList.delete k m"

definition map_keys :: "('k, 'v) jsmap \<Rightarrow> 'k list" where
  "map_keys m = map fst m"

text \<open>
  The contract of \<open>Map\<close> that the source relies on: a lookup returns what the last \<open>set\<close> of the
  key stored, and iteration follows the order of first insertion.
\<close>

locale ordered_map =
  fixes get :: "'m \<Rightarrow> 'k \<Rightarrow> 'v option"
    and put :: "'m \<Rightarrow> 'k \<Rightarrow> 'v \<Rightarrow> 'm"
    and keys :: "'m \<Rightarrow> 'k list"
    and emp :: 'm
  assumes get_emp: "get emp k = None"
    and get_put: "get (put m k v) k' = (if k' = k then Some v else get m k')"
    and keys_emp: "keys emp = []"
    and keys_put: "keys (put m k v) = (if get m k = None then keys m @ [k] else keys m)"
    and keys_iff: "k \<in> set (keys m) \<longleftrightarrow> get m k \<noteq> None"
begin

lemma distinct_put: "distinct (keys m) \<Longrightarrow> distinct (keys (put m k v))"
  by (simp add: keys_put keys_iff)

text \<open>\<open>if (!m.has(f x)) m.set(f x, x)\<close> over a list: the first entry of a key wins.\<close>

lemma first_wins:
  "get (foldl (\<lambda>m x. if get m (f x) = None then put m (f x) x else m) m xs) k =
     (case get m k of Some v \<Rightarrow> Some v | None \<Rightarrow> List.find (\<lambda>x. f x = k) xs)"
proof (induction xs arbitrary: m)
  case Nil
  show ?case by (simp split: option.splits)
next
  case (Cons x xs)
  show ?case
    by (cases "get m (f x)"; cases "f x = k")
      (auto simp: Cons.IH get_put split: option.splits)
qed

lemma distinct_fold:
  "distinct (keys m) \<Longrightarrow>
   distinct (keys (foldl (\<lambda>m x. if get m (f x) = None then put m (f x) x else m) m xs))"
  by (induction xs arbitrary: m) (simp_all add: distinct_put)

lemma keys_fold:
  "set (keys (foldl (\<lambda>m x. if get m (f x) = None then put m (f x) x else m) m xs)) =
     set (keys m) \<union> f ` set xs"
  by (induction xs arbitrary: m) (auto simp: keys_put keys_iff)

end

lemma AList_update_absent: "map_of m k = None \<Longrightarrow> AList.update k v m = m @ [(k, v)]"
  by (induction m) (auto split: if_splits)

lemma AList_update_keys_present: "map_of m k \<noteq> None \<Longrightarrow> map fst (AList.update k v m) = map fst m"
  by (induction m) auto

interpretation jm: ordered_map map_get map_put map_keys "[]"
proof unfold_locales
  show "map_keys (map_put m k v) = (if map_get m k = None then map_keys m @ [k] else map_keys m)"
    for m :: "('k, 'v) jsmap" and k v
    by (auto simp: map_keys_def map_put_def map_get_def AList_update_absent
        AList_update_keys_present)
  show "(k \<in> set (map_keys m)) = (map_get m k \<noteq> None)" for m :: "('k, 'v) jsmap" and k
    by (auto simp: map_keys_def map_get_def map_of_eq_None_iff)
qed (simp_all add: map_get_def map_put_def map_keys_def update_conv')

lemma map_get_Nil [simp]: "map_get [] k = None"
  by (simp add: map_get_def)

lemma map_get_put [simp]: "map_get (map_put m k v) k' = (if k' = k then Some v else map_get m k')"
  by (rule jm.get_put)

lemma map_keys_put_distinct [simp, intro]:
  "distinct (map_keys m) \<Longrightarrow> distinct (map_keys (map_put m k v))"
  by (rule jm.distinct_put)

lemma map_get_mem: "map_get m k = Some v \<Longrightarrow> (k, v) \<in> set m"
  by (simp add: map_get_def map_of_SomeD)

lemma map_get_iff_mem:
  "distinct (map_keys m) \<Longrightarrow> map_get m k = Some v \<longleftrightarrow> (k, v) \<in> set m"
  by (auto simp: map_get_def map_keys_def)

lemma set_map_put:
  "set (map_put m k v) \<subseteq> insert (k, v) (set m)"
  by (induction m) (auto simp: map_put_def)

lemma map_del_keys: "distinct (map_keys m) \<Longrightarrow> distinct (map_keys (map_del m k))"
  by (simp add: map_keys_def map_del_def distinct_delete)

lemma map_get_del [simp]: "map_get (map_del m k) k' = (if k' = k then None else map_get m k')"
  by (simp add: map_get_def map_del_def delete_conv')

text \<open>What a \<open>set\<close> does to a sum taken over the values: it replaces the old value's share.\<close>

definition total :: "('v \<Rightarrow> 'a multiset) \<Rightarrow> ('k, 'v) jsmap \<Rightarrow> 'a multiset" where
  "total f m = (\<Sum>(k, v)\<leftarrow>m. f v)"

lemma total_Nil [simp]: "total f [] = {#}"
  by (simp add: total_def)

lemma total_Cons [simp]: "total f ((k, v) # m) = f v + total f m"
  by (simp add: total_def)

lemma total_map_put:
  "total f (map_put m k v) + (case map_get m k of None \<Rightarrow> {#} | Some w \<Rightarrow> f w) = total f m + f v"
proof (induction m)
  case Nil
  show ?case by (simp add: map_put_def)
next
  case (Cons p m)
  obtain k' v' where p: "p = (k', v')" by force
  show ?case
    using Cons p by (auto simp: map_put_def map_get_def ac_simps)
qed

lemma total_map_put_le:
  assumes "f v \<subseteq># (case map_get m k of None \<Rightarrow> {#} | Some w \<Rightarrow> f w) + d"
  shows "total f (map_put m k v) \<subseteq># total f m + d"
proof -
  let ?o = "case map_get m k of None \<Rightarrow> {#} | Some w \<Rightarrow> f w"
  have "total f (map_put m k v) + ?o \<subseteq># total f m + (?o + d)"
    using assms by (simp add: total_map_put)
  then have "total f (map_put m k v) + ?o \<subseteq># (total f m + d) + ?o"
    by (simp add: ac_simps)
  then show ?thesis by (simp only: mset_subset_eq_mono_add_right_cancel)
qed

subsection \<open>Folds over events\<close>

locale fold_invariant =
  fixes step :: "'s \<Rightarrow> 'e \<Rightarrow> 's"
    and inv :: "'s \<Rightarrow> bool"
  assumes step_inv: "inv s \<Longrightarrow> inv (step s e)"
begin

lemma foldl_inv: "inv s \<Longrightarrow> inv (foldl step s es)"
  by (induction es arbitrary: s) (simp_all add: step_inv)

end

locale fold_account =
  fixes step :: "'s \<Rightarrow> 'e \<Rightarrow> 's"
    and held :: "'s \<Rightarrow> 'a multiset"
    and cost :: "'e \<Rightarrow> 'a multiset"
  assumes step_account: "held (step s e) \<subseteq># held s + cost e"
begin

lemma foldl_account: "held (foldl step s es) \<subseteq># held s + (\<Sum>e\<leftarrow>es. cost e)"
proof (induction es arbitrary: s)
  case Nil
  show ?case by simp
next
  case (Cons e es)
  have "held (foldl step (step s e) es) \<subseteq># held (step s e) + (\<Sum>e\<leftarrow>es. cost e)"
    by (rule Cons.IH)
  also have "\<dots> \<subseteq># held s + cost e + (\<Sum>e\<leftarrow>es. cost e)"
    by (rule subset_mset.add_right_mono) (rule step_account)
  finally show ?case by (simp add: ac_simps)
qed

end

subsection \<open>Lists\<close>

lemma distinct_of_mset_le: "mset xs \<subseteq># mset ys \<Longrightarrow> distinct ys \<Longrightarrow> distinct xs"
proof -
  assume le: "mset xs \<subseteq># mset ys" and d: "distinct ys"
  have "count (mset xs) a \<le> 1" for a
    using mset_subset_eq_count [OF le, of a] d
    by (metis distinct_count_atmost_1 le_trans order_refl zero_le_one)
  then show "distinct xs"
    by (metis One_nat_def count_eq_zero_iff distinct_count_atmost_1 le_0_eq le_Suc_eq
        not_in_iff set_mset_mset)
qed

lemma find_Some_iff_first:
  "List.find P xs = Some x \<longleftrightarrow> (\<exists>i<length xs. xs ! i = x \<and> P x \<and> (\<forall>j<i. \<not> P (xs ! j)))"
  by (auto simp: find_Some_iff)

lemma distinct_hd_concat:
  "distinct (concat (map g xs)) \<Longrightarrow> \<forall>x\<in>set xs. g x \<noteq> [] \<Longrightarrow> distinct (map (\<lambda>x. hd (g x)) xs)"
proof (induction xs)
  case (Cons x xs)
  have "hd (g x) \<noteq> hd (g y)" if "y \<in> set xs" for y
  proof -
    have "hd (g x) \<in> set (g x)" "hd (g y) \<in> set (g y)" using Cons.prems(2) that by simp_all
    with Cons.prems(1) that show ?thesis by fastforce
  qed
  with Cons show ?case by auto
qed simp

lemma distinct_map_via:
  "distinct (map g xs) \<Longrightarrow> \<forall>x\<in>set xs. \<forall>y\<in>set xs. f x = f y \<longrightarrow> g x = g y \<Longrightarrow> distinct (map f xs)"
  unfolding distinct_map inj_on_def by blast

lemma map_filter_in: "y \<in> set (List.map_filter f xs) \<longleftrightarrow> (\<exists>x\<in>set xs. f x = Some y)"
  by (force simp: List.map_filter_def)

lemma map_filter_Cons:
  "List.map_filter f (x # xs) = (case f x of None \<Rightarrow> List.map_filter f xs | Some y \<Rightarrow> y # List.map_filter f xs)"
  by (simp add: List.map_filter_def split: option.split)

text \<open>The last element, if there is one.\<close>

definition last_of :: "'a list \<Rightarrow> 'a option" where
  "last_of xs = (if xs = [] then None else Some (last xs))"

lemma last_of_simps [simp]: "last_of [] = None" "last_of (xs @ [x]) = Some x"
  by (simp_all add: last_of_def)

text \<open>The elements of a list in the order of their first occurrence.\<close>

definition firsts :: "'a list \<Rightarrow> 'a list" where
  "firsts xs = rev (remdups (rev xs))"

lemma firsts_Nil [simp]: "firsts [] = []"
  by (simp add: firsts_def)

lemma firsts_snoc [simp]: "firsts (xs @ [x]) = (if x \<in> set xs then firsts xs else firsts xs @ [x])"
  by (simp add: firsts_def)

lemma set_firsts [simp]: "set (firsts xs) = set xs"
  by (simp add: firsts_def)

lemma distinct_firsts [simp]: "distinct (firsts xs)"
  by (simp add: firsts_def)

end
