(* ===== verification/Js_Value.thy ===== *)
theory Js_Value
  imports Prelude
begin

section \<open>JavaScript values and the accessors of the projection\<close>

text \<open>
  The payload of an event is what \<open>JSON.parse\<close> delivers: the datatype \<open>js\<close>, with \<open>JUndef\<close> for a
  missing property. An object lists its own properties, each once, in the engine's enumeration order; an
  array seen as a record has its indices as keys. Numbers are the rationals a double can hold
  (the source only tests them for equality with zero). \<open>JBuiltin\<close> is a member that a lookup
  finds on \<open>Object.prototype\<close>. The accessors \<open>asRecord\<close>, \<open>str\<close>, \<open>num\<close>, \<open>list\<close> and
  \<open>stripTypeField\<close> are those at the end of \<^verbatim>\<open>web/src/lib/assistant-projection.ts\<close>.
\<close>

datatype js =
    JUndef
  | JNull
  | JBool bool
  | JNum rat
  | JStr jsstring
  | JArr "js list"
  | JObj "(jsstring \<times> js) list"
  | JBuiltin jsstring

fun truthy :: "js \<Rightarrow> bool" where
  "truthy JUndef = False"
| "truthy JNull = False"
| "truthy (JBool b) = b"
| "truthy (JNum n) = (n \<noteq> 0)"
| "truthy (JStr s) = (s \<noteq> [])"
| "truthy (JArr xs) = True"
| "truthy (JObj ps) = True"
| "truthy (JBuiltin f) = True"

text \<open>\<open>value && typeof value === "object"\<close> (\<open>typeof null\<close> is \<open>"object"\<close>, but \<open>null\<close> is falsy).\<close>

fun is_object :: "js \<Rightarrow> bool" where
  "is_object (JArr xs) = True"
| "is_object (JObj ps) = True"
| "is_object _ = False"

fun is_string :: "js \<Rightarrow> bool" where
  "is_string (JStr s) = True"
| "is_string _ = False"

text \<open>\<open>a || b\<close> and \<open>a ?? b\<close> on values.\<close>

definition js_or :: "js \<Rightarrow> js \<Rightarrow> js" where
  "js_or a b = (if truthy a then a else b)"

definition js_nullish :: "js \<Rightarrow> js \<Rightarrow> js" where
  "js_nullish a b = (case a of JUndef \<Rightarrow> b | JNull \<Rightarrow> b | _ \<Rightarrow> a)"

text \<open>\<open>a ?? b\<close> where absence is \<open>None\<close>.\<close>

definition opt_or :: "'a option \<Rightarrow> 'a option \<Rightarrow> 'a option" where
  "opt_or a b = (case a of None \<Rightarrow> b | Some x \<Rightarrow> Some x)"

definition opt_default :: "'a option \<Rightarrow> 'a \<Rightarrow> 'a" where
  "opt_default a d = (case a of None \<Rightarrow> d | Some x \<Rightarrow> x)"

lemma opt_simps [simp]:
  "opt_or None b = b" "opt_or (Some x) b = Some x"
  "opt_default None d = d" "opt_default (Some x) d = x"
  by (simp_all add: opt_or_def opt_default_def)

lemma opt_or_None_iff: "opt_or a b = None \<longleftrightarrow> a = None \<and> b = None"
  by (cases a) simp_all

subsection \<open>Records\<close>

text \<open>
  The own enumerable properties. An array's \<open>length\<close> is not enumerable, and the source never asks
  a record for it.
\<close>

fun own_props :: "js \<Rightarrow> (jsstring \<times> js) list" where
  "own_props (JObj ps) = ps"
| "own_props (JArr xs) = zip (map (\<lambda>i. show_int (int i)) [0..<length xs]) xs"
| "own_props _ = []"

text \<open>\<open>record[key]\<close>, \<open>key in record\<close>, \<open>Object.keys\<close> and \<open>Object.values\<close>.\<close>

definition field :: "js \<Rightarrow> string \<Rightarrow> js" where
  "field r k = opt_default (map_of (own_props r) (jstr k)) JUndef"

definition has_field :: "js \<Rightarrow> string \<Rightarrow> bool" where
  "has_field r k \<longleftrightarrow> map_of (own_props r) (jstr k) \<noteq> None"

definition object_keys :: "js \<Rightarrow> jsstring list" where
  "object_keys r = map fst (own_props r)"

definition object_values :: "js \<Rightarrow> js list" where
  "object_values r = map snd (own_props r)"

definition asRecord :: "js \<Rightarrow> js" where
  "asRecord v = (if is_object v then v else JObj [])"

definition str :: "js \<Rightarrow> string \<Rightarrow> jsstring option" where
  "str r k = (case field r k of JStr s \<Rightarrow> if s \<noteq> [] then Some s else None | _ \<Rightarrow> None)"

definition num :: "js \<Rightarrow> string \<Rightarrow> rat option" where
  "num r k = (case field r k of JNum n \<Rightarrow> Some n | _ \<Rightarrow> None)"

definition list :: "js \<Rightarrow> string \<Rightarrow> js list" where
  "list r k = (case field r k of JArr xs \<Rightarrow> xs | _ \<Rightarrow> [])"

text \<open>\<open>.filter((value): value is string => typeof value === "string")\<close>.\<close>

fun only_strings :: "js list \<Rightarrow> jsstring list" where
  "only_strings [] = []"
| "only_strings (v # vs) = (case v of JStr s \<Rightarrow> s # only_strings vs | _ \<Rightarrow> only_strings vs)"

definition stripTypeField :: "js \<Rightarrow> js" where
  "stripTypeField r = JObj (filter (\<lambda>(k, v). k \<noteq> jstr ''type'') (own_props r))"

subsection \<open>Facts about the accessors\<close>

lemma is_object_asRecord [simp]: "is_object (asRecord v)"
  by (simp add: asRecord_def)

lemma truthy_asRecord [simp]: "truthy (asRecord v)"
proof -
  have "is_object w \<Longrightarrow> truthy w" for w by (cases w) simp_all
  then show ?thesis by simp
qed

lemma asRecord_idem [simp]: "asRecord (asRecord v) = asRecord v"
  by (simp add: asRecord_def)

lemma field_empty [simp]: "field (JObj []) k = JUndef"
  by (simp add: field_def)

lemma str_empty [simp]: "str (JObj []) k = None"
  by (simp add: str_def)

lemma num_empty [simp]: "num (JObj []) k = None"
  by (simp add: num_def)

lemma list_empty [simp]: "list (JObj []) k = []"
  by (simp add: list_def)

lemma has_field_empty [simp]: "\<not> has_field (JObj []) k"
  by (simp add: has_field_def)

lemma asRecord_JUndef [simp]: "asRecord JUndef = JObj []"
  by (simp add: asRecord_def)

lemma str_nonempty: "str r k = Some s \<Longrightarrow> s \<noteq> []"
  by (auto simp: str_def split: js.splits if_splits)

lemma str_Some_iff: "str r k = Some s \<longleftrightarrow> field r k = JStr s \<and> s \<noteq> []"
  by (auto simp: str_def split: js.splits if_splits)

lemma only_strings_append [simp]: "only_strings (xs @ ys) = only_strings xs @ only_strings ys"
  by (induction xs) (auto split: js.splits)

lemma only_strings_map_JStr [simp]: "only_strings (map JStr xs) = xs"
  by (induction xs) auto

lemma set_only_strings: "s \<in> set (only_strings vs) \<longleftrightarrow> JStr s \<in> set vs"
  by (induction vs) (auto split: js.splits)

lemma map_of_filter_key:
  "map_of (filter (\<lambda>(k, v). k \<noteq> a) ps) k = (if k = a then None else map_of ps k)"
  by (induction ps) auto

lemma field_stripTypeField:
  "field (stripTypeField r) k = (if k = ''type'' then JUndef else field r k)"
  by (simp add: field_def stripTypeField_def map_of_filter_key)

lemma stripTypeField_idem [simp]: "stripTypeField (stripTypeField r) = stripTypeField r"
  by (simp add: stripTypeField_def filter_id_conv)

text \<open>Evaluation of the accessors on literal records.\<close>

lemmas js_eval = field_def has_field_def object_keys_def object_values_def asRecord_def
  str_def num_def list_def stripTypeField_def

end
