(* ===== verification/Events.thy ===== *)
theory Events
  imports Js_Value
begin

section \<open>The wire records and the identity of an event\<close>

text \<open>
  The interfaces of \<^verbatim>\<open>web/src/lib/types.ts\<close> as records (optional properties are options; the hub
  omits empty ones), and the functions of \<^verbatim>\<open>assistant-projection.ts\<close> that say which message an
  event carries (\<open>msgOf\<close>) and which bucket it belongs to (\<open>bucketId\<close>, \<open>streamBucketId\<close>).
\<close>

text \<open>\<open>EventDirection\<close> is a union of the literals \<^verbatim>\<open>upstream_to_codex\<close>, \<^verbatim>\<open>codex_to_upstream\<close> and
  \<^verbatim>\<open>local\<close>; the wire value is not checked, so the property is a string.\<close>

type_synonym event_direction = jsstring

record client_source =
  cs_source_key :: jsstring
  client_name :: jsstring
  pid :: int
  protocol_version :: "jsstring option"
  executable :: "jsstring option"
  cs_cwd :: "jsstring option"
  cs_first_seen :: jsstring
  cs_last_seen :: jsstring
  session_count :: int

record session =
  s_thread_id :: jsstring
  s_source_key :: jsstring
  s_title :: "jsstring option"
  model :: "jsstring option"
  s_cwd :: "jsstring option"
  approval_policy :: "jsstring option"
  sandbox :: "jsstring option"
  first_seen :: jsstring
  last_seen :: jsstring
  s_status :: "jsstring option"

record event_record =
  event_id :: jsstring
  timestamp :: jsstring
  proxy_instance_id :: jsstring
  source_key :: jsstring
  thread_id :: "jsstring option"
  turn_id :: "jsstring option"
  request_id :: "jsstring option"
  direction :: event_direction
  category :: jsstring
  event_type :: "jsstring option"
  command_call_id :: "jsstring option"
  tool_call_id :: "jsstring option"
  payload :: js

record paginated_events =
  items :: "event_record list"
  next_cursor :: "jsstring option"

record session_detail =
  session_of :: session
  client_source_of :: client_source
  recent_events :: "event_record list"

subsection \<open>The message inside the payload\<close>

definition msgOf :: "event_record \<Rightarrow> js" where
  "msgOf e = (let p = asRecord (payload e); params = asRecord (field p ''params'') in
     if truthy (field params ''msg'') \<and> is_object (field params ''msg'') then field params ''msg''
     else if object_keys params \<noteq> [] then params
     else p)"

definition bucketId :: "event_record \<Rightarrow> jsstring" where
  "bucketId e = opt_default
     (opt_or (str (msgOf e) ''call_id'') (opt_or (command_call_id e) (tool_call_id e))) (event_id e)"

definition streamBucketId :: "event_record \<Rightarrow> jsstring" where
  "streamBucketId e = opt_default (opt_or (turn_id e) (request_id e)) (event_id e)"

lemma is_object_msgOf: "is_object (msgOf e)"
  by (simp add: msgOf_def Let_def)

lemma msgOf_nested:
  "payload e = JObj ps \<Longrightarrow> map_of ps (jstr ''params'') = Some (JObj qs) \<Longrightarrow>
   map_of qs (jstr ''msg'') = Some m \<Longrightarrow> is_object m \<Longrightarrow> msgOf e = m"
  by (cases m) (simp_all add: msgOf_def asRecord_def field_def)

lemma msgOf_flat:
  "payload e = JObj ps \<Longrightarrow> map_of ps (jstr ''params'') = None \<Longrightarrow> msgOf e = JObj ps"
  by (simp add: msgOf_def asRecord_def field_def object_keys_def)

subsection \<open>Sample records for the witnesses\<close>

text \<open>An event of category \<open>codex_event\<close> with identifier, time, type and message.\<close>

definition sample_event :: "string \<Rightarrow> string \<Rightarrow> string \<Rightarrow> (string \<times> js) list \<Rightarrow> event_record" where
  "sample_event i t ty m = \<lparr>event_id = jstr i, timestamp = jstr t, proxy_instance_id = jstr ''proxy-1'',
     source_key = jstr ''src'', thread_id = Some (jstr ''th''), turn_id = Some (jstr ''turn-1''),
     request_id = None, direction = jstr ''codex_to_upstream'', category = jstr ''codex_event'',
     event_type = Some (jstr ty), command_call_id = None, tool_call_id = None,
     payload = JObj [(jstr ''params'', JObj [(jstr ''msg'', JObj (map (\<lambda>(k, v). (jstr k, v)) m))])]\<rparr>"

definition sample_detail :: session_detail where
  "sample_detail = \<lparr>session_of = \<lparr>s_thread_id = jstr ''th'', s_source_key = jstr ''src'', s_title = None,
       model = Some (jstr ''gpt''), s_cwd = None, approval_policy = None, sandbox = None,
       first_seen = jstr ''t0'', last_seen = jstr ''t9'', s_status = Some []\<rparr>,
     client_source_of = \<lparr>cs_source_key = jstr ''src'', client_name = jstr ''cli'', pid = 7,
       protocol_version = None, executable = None, cs_cwd = None, cs_first_seen = jstr ''t0'',
       cs_last_seen = jstr ''t9'', session_count = 1\<rparr>,
     recent_events = []\<rparr>"

lemma event_id_sample [simp]: "event_id (sample_event i t ty m) = jstr i"
  by (simp add: sample_event_def)

end
