(* ===== verification/Parts.thy ===== *)
theory Parts
  imports Events
begin

section \<open>What the projection produces: parts, messages, threads\<close>

text \<open>
  The exported interfaces of \<^verbatim>\<open>web/src/lib/assistant-projection.ts\<close>: the tagged union of parts is
  a datatype (every constructor carries \<open>eventIds\<close>), the interfaces are records, and the constant
  tables \<open>APPROVAL_EVENT_TYPES\<close> and \<open>LIFECYCLE_TITLES\<close> are lists. A lookup in the title table is
  an object lookup: a name that is not in the table but is a member of \<open>Object.prototype\<close> finds
  that member.
\<close>

datatype tool_kind = ExecCommand | McpToolCall | WebSearch | ImageGeneration | PatchApply
  | DynamicToolCall | CollabAgent | ViewImage

datatype tool_status = Running | Complete | Failed

datatype reasoning_variant = Reasoning | RawContent

datatype role = User | Assistant

record plan_step =
  step_text :: jsstring
  step_status :: jsstring

record interaction =
  processId :: "jsstring option"
  stdin :: "jsstring option"
  interactionInput :: "jsstring option"

record tool_part =
  toolKind :: tool_kind
  tool_title :: jsstring
  status :: tool_status
  command :: "jsstring list option"
  cwd :: "jsstring option"
  tool_output :: "jsstring option"
  exitCode :: "rat option"
  server :: "jsstring option"
  toolName :: "jsstring option"
  args :: js
  result :: js
  duration :: "jsstring option"
  query :: "jsstring option"
  actionType :: "jsstring option"
  changes :: "jsstring list option"
  stdout :: "jsstring option"
  stderr :: "jsstring option"
  error :: "jsstring option"
  imageStatus :: "jsstring option"
  revisedPrompt :: "jsstring option"
  savedPath :: "jsstring option"
  interactions :: "interaction list option"

text \<open>A tool part with every optional property absent.\<close>

definition tool0 :: "tool_kind \<Rightarrow> jsstring \<Rightarrow> tool_status \<Rightarrow> tool_part" where
  "tool0 k t s = \<lparr>toolKind = k, tool_title = t, status = s, command = None, cwd = None,
     tool_output = None, exitCode = None, server = None, toolName = None, args = JUndef,
     result = JUndef, duration = None, query = None, actionType = None, changes = None,
     stdout = None, stderr = None, error = None, imageStatus = None, revisedPrompt = None,
     savedPath = None, interactions = None\<rparr>"

datatype part =
    TextPart (part_text: jsstring) (phase: "jsstring option") (memoryCitation: js)
      (eventIds: "jsstring list")
  | ReasoningPart (reasoning_text: jsstring) (variant: reasoning_variant)
      (eventIds: "jsstring list")
  | LifecyclePart (lc_eventType: jsstring) (lc_title: js) (lc_data: js)
      (eventIds: "jsstring list")
  | PlanPart (plan_title: jsstring) (explanation: "jsstring option") (steps: "plan_step list")
      (plan_delta: "jsstring option") (eventIds: "jsstring list")
  | ApprovalPart (ap_title: jsstring) (requestKind: jsstring) (reason: "jsstring option")
      (ap_command: "jsstring list") (ap_cwd: "jsstring option") (eventIds: "jsstring list")
  | ToolPart (tool: tool_part) (eventIds: "jsstring list")
  | McpMethodPart (mcp_method: jsstring) (mm_title: jsstring) (params: js)
      (eventIds: "jsstring list")
  | UnknownPart (un_eventType: jsstring) (un_title: jsstring) (un_payload: js)
      (eventIds: "jsstring list")

record message =
  msg_id :: jsstring
  msg_role :: role
  createdAt :: jsstring
  parts :: "part list"

record header =
  hd_title :: jsstring
  subtitle :: jsstring
  badges :: "jsstring list"
  hd_threadId :: jsstring
  clientName :: jsstring
  clientPid :: int
  hd_model :: "jsstring option"
  hd_status :: "jsstring option"
  approvalPolicy :: "jsstring option"
  hd_sandbox :: "jsstring option"
  hd_cwd :: "jsstring option"
  firstSeen :: jsstring
  lastSeen :: jsstring

record thread =
  thread_header :: header
  messages :: "message list"

subsection \<open>The items of the projection\<close>

datatype item =
    AssistantItem (item_timestamp: jsstring) (item_order: int) (item_part: part)
      (closeMessageAfter: bool)
  | UserItem (item_timestamp: jsstring) (item_order: int) (item_message: message)

definition message_ids :: "message \<Rightarrow> jsstring list" where
  "message_ids m = concat (map eventIds (parts m))"

fun item_ids :: "item \<Rightarrow> jsstring list" where
  "item_ids (AssistantItem t n p c) = eventIds p"
| "item_ids (UserItem t n m) = message_ids m"

definition MAX_SAFE_INTEGER :: int where
  "MAX_SAFE_INTEGER = 9007199254740991"

subsection \<open>The constant tables\<close>

definition APPROVAL_EVENT_TYPES :: "string list" where
  "APPROVAL_EVENT_TYPES =
     [''exec_approval_request'', ''apply_patch_approval_request'', ''elicitation_request'',
      ''request_permissions'', ''request_user_input'']"

definition LIFECYCLE_TITLES :: "(string \<times> string) list" where
  "LIFECYCLE_TITLES =
     [(''session_configured'', ''Session configured''),
      (''task_started'', ''Turn started''),
      (''turn_started'', ''Turn started''),
      (''task_complete'', ''Turn complete''),
      (''turn_complete'', ''Turn complete''),
      (''turn_aborted'', ''Turn aborted''),
      (''thread_name_updated'', ''Thread name updated''),
      (''background_event'', ''Background event''),
      (''error'', ''Error''),
      (''warning'', ''Warning''),
      (''stream_error'', ''Stream error''),
      (''stream_info'', ''Stream info''),
      (''token_count'', ''Token count''),
      (''turn_diff'', ''Turn diff''),
      (''model_reroute'', ''Model reroute''),
      (''context_compacted'', ''Context compacted''),
      (''thread_rolled_back'', ''Thread rolled back''),
      (''deprecation_notice'', ''Deprecation notice''),
      (''undo_started'', ''Undo started''),
      (''undo_completed'', ''Undo completed''),
      (''guardian_assessment'', ''Guardian assessment''),
      (''mcp_startup_update'', ''MCP startup update''),
      (''mcp_startup_complete'', ''MCP startup complete''),
      (''get_history_entry_response'', ''History entry response''),
      (''mcp_list_tools_response'', ''MCP tools response''),
      (''list_skills_response'', ''Skills response''),
      (''realtime_conversation_started'', ''Realtime conversation started''),
      (''realtime_conversation_realtime'', ''Realtime conversation event''),
      (''realtime_conversation_closed'', ''Realtime conversation closed''),
      (''realtime_conversation_sdp'', ''Realtime conversation SDP''),
      (''realtime_conversation_list_voices_response'', ''Realtime voices response''),
      (''skills_update_available'', ''Skills update available''),
      (''raw_response_item'', ''Raw response item''),
      (''item_started'', ''Item started''),
      (''item_completed'', ''Item completed''),
      (''hook_started'', ''Hook started''),
      (''hook_completed'', ''Hook completed''),
      (''agent_reasoning_section_break'', ''Reasoning section break''),
      (''conversation_path_response'', ''Conversation path response''),
      (''review_output'', ''Review output''),
      (''shutdown_complete'', ''Shutdown complete''),
      (''entered_review_mode'', ''Entered review mode''),
      (''exited_review_mode'', ''Exited review mode'')]"

text \<open>The members every object literal inherits; each of them is a truthy value.\<close>

definition object_prototype_members :: "string list" where
  "object_prototype_members =
     [''constructor'', ''__defineGetter__'', ''__defineSetter__'', ''hasOwnProperty'',
      ''__lookupGetter__'', ''__lookupSetter__'', ''isPrototypeOf'', ''propertyIsEnumerable'',
      ''toString'', ''valueOf'', ''__proto__'', ''toLocaleString'']"

definition approval_type :: "jsstring \<Rightarrow> bool" where
  "approval_type t \<longleftrightarrow> List.member (map jstr APPROVAL_EVENT_TYPES) t"

text \<open>\<open>LIFECYCLE_TITLES[eventType]\<close>.\<close>

definition lifecycle_title :: "jsstring \<Rightarrow> js" where
  "lifecycle_title t =
     (case map_of (map (\<lambda>(k, v). (jstr k, jstr v)) LIFECYCLE_TITLES) t of
        Some v \<Rightarrow> JStr v
      | None \<Rightarrow> if List.member (map jstr object_prototype_members) t then JBuiltin t else JUndef)"

end
