(* ===== verification/Text_Decode.thy ===== *)
theory Text_Decode
  imports Js_Value
begin

section \<open>Decoding command output: \<open>base64DecodeUtf8\<close>\<close>

text \<open>
  The chunks of \<open>exec_command_output_delta\<close> events are base64. \<open>base64DecodeUtf8\<close> of
  \<^verbatim>\<open>web/src/lib/assistant-projection.ts\<close> decodes them with \<open>atob\<close> and \<open>TextDecoder\<close>, tries
  UTF-16LE when the UTF-8 text holds a NUL and the byte count is even, and returns its argument
  when anything throws. \<open>atob\<close> follows the forgiving-base64 decoder, the two decoders the
  well-formed sequences of UTF-8 and UTF-16 with \<open>fatal: true\<close>, and both drop a leading byte
  order mark, as \<open>TextDecoder\<close> does by default. The encoders at the end are the producer's side
  and serve the round-trip theorems.
\<close>

type_synonym byte = "8 word"

subsection \<open>\<open>atob\<close>\<close>

definition is_ascii_ws :: "code_unit \<Rightarrow> bool" where
  "is_ascii_ws c \<longleftrightarrow> List.member [0x09, 0x0A, 0x0C, 0x0D, 0x20] c"

definition b64_value :: "code_unit \<Rightarrow> nat option" where
  "b64_value c = (let n = unat c in
     if 65 \<le> n \<and> n \<le> 90 then Some (n - 65)
     else if 97 \<le> n \<and> n \<le> 122 then Some (n - 71)
     else if 48 \<le> n \<and> n \<le> 57 then Some (n + 4)
     else if n = 43 then Some 62
     else if n = 47 then Some 63
     else None)"

definition strip_pad :: "jsstring \<Rightarrow> jsstring" where
  "strip_pad d = (if length d mod 4 = 0
     then (case rev d of
             c1 # c2 # r \<Rightarrow> if c1 = 0x3D then if c2 = 0x3D then rev r else rev (c2 # r) else d
           | _ \<Rightarrow> d)
     else d)"

fun decode_sextets :: "nat list \<Rightarrow> nat list" where
  "decode_sextets (a # b # c # d # r) =
     (a * 4 + b div 16) # (b mod 16 * 16 + c div 4) # (c mod 4 * 64 + d) # decode_sextets r"
| "decode_sextets [a, b, c] = [a * 4 + b div 16, b mod 16 * 16 + c div 4]"
| "decode_sextets [a, b] = [a * 4 + b div 16]"
| "decode_sextets _ = []"

text \<open>The result is a binary string: code units below 256. \<open>None\<close> is the exception.\<close>

definition atob :: "jsstring \<Rightarrow> jsstring option" where
  "atob raw = (let d = strip_pad (filter (\<lambda>c. \<not> is_ascii_ws c) raw) in
     if length d mod 4 = 1 then None
     else map_option (\<lambda>vs. map word_of_nat (decode_sextets vs)) (those (map b64_value d)))"

subsection \<open>\<open>TextDecoder\<close>\<close>

definition cont :: "nat \<Rightarrow> bool" where
  "cont b \<longleftrightarrow> 0x80 \<le> b \<and> b \<le> 0xBF"

definition second_ok :: "nat \<Rightarrow> nat \<Rightarrow> bool" where
  "second_ok b c \<longleftrightarrow> cont c \<and> (b = 0xE0 \<longrightarrow> 0xA0 \<le> c) \<and> (b = 0xED \<longrightarrow> c \<le> 0x9F) \<and>
     (b = 0xF0 \<longrightarrow> 0x90 \<le> c) \<and> (b = 0xF4 \<longrightarrow> c \<le> 0x8F)"

text \<open>The code points of a well-formed UTF-8 byte sequence, \<open>None\<close> when it is not well formed.\<close>

fun utf8_points :: "nat list \<Rightarrow> nat list option" where
  "utf8_points [] = Some []"
| "utf8_points (b # bs) =
     (if b < 0x80 then map_option (Cons b) (utf8_points bs)
      else if 0xC2 \<le> b \<and> b \<le> 0xDF then
        (case bs of
           c # r \<Rightarrow> if cont c
             then map_option (Cons ((b - 0xC0) * 64 + (c - 0x80))) (utf8_points r) else None
         | _ \<Rightarrow> None)
      else if 0xE0 \<le> b \<and> b \<le> 0xEF then
        (case bs of
           c # d # r \<Rightarrow> if second_ok b c \<and> cont d
             then map_option (Cons ((b - 0xE0) * 4096 + (c - 0x80) * 64 + (d - 0x80)))
                    (utf8_points r) else None
         | _ \<Rightarrow> None)
      else if 0xF0 \<le> b \<and> b \<le> 0xF4 then
        (case bs of
           c # d # e # r \<Rightarrow> if second_ok b c \<and> cont d \<and> cont e
             then map_option (Cons ((b - 0xF0) * 262144 + (c - 0x80) * 4096 + (d - 0x80) * 64
                    + (e - 0x80))) (utf8_points r) else None
         | _ \<Rightarrow> None)
      else None)"

fun utf16_units :: "nat \<Rightarrow> nat list" where
  "utf16_units p = (if p < 0x10000 then [p]
     else [0xD800 + (p - 0x10000) div 1024, 0xDC00 + (p - 0x10000) mod 1024])"

definition drop_bom :: "nat list \<Rightarrow> nat list" where
  "drop_bom us = (case us of u # r \<Rightarrow> if u = 0xFEFF then r else us | [] \<Rightarrow> [])"

text \<open>\<open>new TextDecoder("utf-8", { fatal: true }).decode(bytes)\<close>.\<close>

definition decode_utf8 :: "byte list \<Rightarrow> jsstring option" where
  "decode_utf8 bytes = map_option
     (\<lambda>ps. map word_of_nat (concat (map utf16_units (drop_bom ps)))) (utf8_points (map unat bytes))"

fun le_units :: "nat list \<Rightarrow> nat list option" where
  "le_units [] = Some []"
| "le_units [b] = None"
| "le_units (b # c # bs) = map_option (Cons (b + 256 * c)) (le_units bs)"

fun surrogates_ok :: "nat list \<Rightarrow> bool" where
  "surrogates_ok [] = True"
| "surrogates_ok (u # us) =
     (if 0xD800 \<le> u \<and> u \<le> 0xDBFF
      then (case us of v # r \<Rightarrow> 0xDC00 \<le> v \<and> v \<le> 0xDFFF \<and> surrogates_ok r | [] \<Rightarrow> False)
      else \<not> (0xDC00 \<le> u \<and> u \<le> 0xDFFF) \<and> surrogates_ok us)"

text \<open>\<open>new TextDecoder("utf-16le", { fatal: true }).decode(bytes)\<close>.\<close>

definition decode_utf16le :: "byte list \<Rightarrow> jsstring option" where
  "decode_utf16le bytes = (case le_units (map unat bytes) of
     Some us \<Rightarrow> if surrogates_ok us then Some (map word_of_nat (drop_bom us)) else None
   | None \<Rightarrow> None)"

subsection \<open>The function of the source\<close>

definition base64DecodeUtf8 :: "jsstring \<Rightarrow> jsstring" where
  "base64DecodeUtf8 raw =
     (if raw = [] then []
      else (case atob raw of
              None \<Rightarrow> raw
            | Some bin \<Rightarrow>
                let bytes = map ucast bin in
                (case decode_utf8 bytes of
                   None \<Rightarrow> raw
                 | Some utf8 \<Rightarrow>
                     if js_includes utf8 [0] \<and> length bytes mod 2 = 0
                     then (case decode_utf16le bytes of None \<Rightarrow> raw | Some t \<Rightarrow> t)
                     else utf8)))"

subsection \<open>The producer's side: encoders\<close>

definition b64_char :: "nat \<Rightarrow> code_unit" where
  "b64_char n = word_of_nat
     (if n < 26 then n + 65 else if n < 52 then n + 71 else if n < 62 then n - 4
      else if n = 62 then 43 else 47)"

fun encode_sextets :: "nat list \<Rightarrow> nat list" where
  "encode_sextets (x # y # z # r) =
     (x div 4) # (x mod 4 * 16 + y div 16) # (y mod 16 * 4 + z div 64) # (z mod 64)
       # encode_sextets r"
| "encode_sextets [x, y] = [x div 4, x mod 4 * 16 + y div 16, y mod 16 * 4]"
| "encode_sextets [x] = [x div 4, x mod 4 * 16]"
| "encode_sextets [] = []"

definition btoa :: "byte list \<Rightarrow> jsstring" where
  "btoa bs = map b64_char (encode_sextets (map unat bs)) @
     replicate ((3 - length bs mod 3) mod 3) 0x3D"

definition scalar :: "nat \<Rightarrow> bool" where
  "scalar p \<longleftrightarrow> p < 0xD800 \<or> (0xE000 \<le> p \<and> p < 0x110000)"

fun utf8_bytes :: "nat \<Rightarrow> nat list" where
  "utf8_bytes p =
     (if p < 0x80 then [p]
      else if p < 0x800 then [0xC0 + p div 64, 0x80 + p mod 64]
      else if p < 0x10000 then [0xE0 + p div 4096, 0x80 + p div 64 mod 64, 0x80 + p mod 64]
      else [0xF0 + p div 262144, 0x80 + p div 4096 mod 64, 0x80 + p div 64 mod 64,
            0x80 + p mod 64])"

definition encode_utf8 :: "nat list \<Rightarrow> byte list" where
  "encode_utf8 ps = map word_of_nat (concat (map utf8_bytes ps))"

definition js_of_points :: "nat list \<Rightarrow> jsstring" where
  "js_of_points ps = map word_of_nat (concat (map utf16_units ps))"

definition encode_ascii_utf16le :: "nat list \<Rightarrow> byte list" where
  "encode_ascii_utf16le ps = concat (map (\<lambda>p. [word_of_nat p, 0]) ps)"

declare utf8_points.simps(2) [simp del] utf16_units.simps [simp del] utf8_bytes.simps [simp del]

subsection \<open>\<open>atob\<close> inverts base64\<close>

lemma byte_parts:
  fixes x y z :: nat
  shows "y < 256 \<Longrightarrow> y div 16 < 16" "z < 256 \<Longrightarrow> z div 64 < 4" "x < 256 \<Longrightarrow> x div 4 < 64"
  by (simp_all add: less_mult_imp_div_less)

lemma decode_encode_sextets: "\<forall>x\<in>set xs. x < 256 \<Longrightarrow> decode_sextets (encode_sextets xs) = xs"
proof (induction xs rule: encode_sextets.induct)
  case (1 x y z r)
  then have "y div 16 < 16" "z div 64 < 4" by (simp_all add: byte_parts)
  with 1 show ?case by simp
next
  case (2 x y)
  then have "y div 16 < 16" by (simp add: byte_parts)
  then show ?case by simp
qed simp_all

lemma mod4_le: "(x :: nat) mod 4 \<le> 3" and mod16_le: "(y :: nat) mod 16 \<le> 15"
  using mod_less_divisor [of 4 x] mod_less_divisor [of 16 y] by linarith+

lemma encode_sextets_bound: "\<forall>x\<in>set xs. x < 256 \<Longrightarrow> \<forall>v\<in>set (encode_sextets xs). v < 64"
proof (induction xs rule: encode_sextets.induct)
  case (1 x y z r)
  then have "x div 4 < 64" "y div 16 < 16" "z div 64 < 4" by (simp_all add: byte_parts)
  with 1 show ?case using mod4_le [of x] mod16_le [of y] by simp
next
  case (2 x y)
  then have "x div 4 < 64" "y div 16 < 16" by (simp_all add: byte_parts)
  then show ?case using mod4_le [of x] mod16_le [of y] by simp
next
  case (3 x)
  then have "x div 4 < 64" by (simp add: byte_parts)
  then show ?case using mod4_le [of x] by simp
qed simp

lemma length_encode_sextets: "length (encode_sextets xs) = length xs + (length xs + 2) div 3"
  by (induction xs rule: encode_sextets.induct) simp_all

lemma b64_value_char: "n < 64 \<Longrightarrow> b64_value (b64_char n) = Some n"
proof -
  assume n: "n < 64"
  define m where "m = (if n < 26 then n + 65 else if n < 52 then n + 71
    else if n < 62 then n - 4 else if n = 62 then 43 else 47)"
  have "m < 65536" using n by (auto simp: m_def)
  then have "unat (b64_char n) = m" by (simp add: b64_char_def m_def unat_of_nat)
  then show ?thesis using n by (auto simp: b64_value_def m_def Let_def)
qed

lemma b64_char_neq: "b64_value c = None \<Longrightarrow> n < 64 \<Longrightarrow> b64_char n \<noteq> c"
  using b64_value_char by force

lemma b64_value_special:
  "b64_value 0x3D = None" "is_ascii_ws c \<Longrightarrow> b64_value c = None"
  by (auto simp: b64_value_def is_ascii_ws_def)

lemma b64_char_not_special: "n < 64 \<Longrightarrow> b64_char n \<noteq> 0x3D \<and> \<not> is_ascii_ws (b64_char n)"
  by (metis b64_char_neq b64_value_special)

lemma those_b64: "\<forall>v\<in>set vs. v < 64 \<Longrightarrow> those (map b64_value (map b64_char vs)) = Some vs"
  by (induction vs) (simp_all add: b64_value_char)

lemma strip_pad_pad:
  assumes "\<forall>c\<in>set d. c \<noteq> 0x3D" and "(length d + n) mod 4 = 0" and "n \<le> 2"
    and "n = 0 \<or> 2 \<le> length d"
  shows "strip_pad (d @ replicate n 0x3D) = d"
proof -
  consider "n = 0" | "n = 1" | "n = 2" using assms(3) by linarith
  then show ?thesis
  proof cases
    case 1
    with assms(1) show ?thesis by (auto simp: strip_pad_def split: list.split)
  next
    case 2
    with assms(4) obtain c r where r: "rev d = c # r" by (cases "rev d") auto
    then have "c \<in> set d" by (metis list.set_intros(1) set_rev)
    with assms(1) have "c \<noteq> 0x3D" by blast
    moreover have "rev r @ [c] = d" using r by (metis rev.simps(2) rev_rev_ident)
    ultimately have "(case rev d of [] \<Rightarrow> d @ [0x3D]
        | c2 # r \<Rightarrow> if c2 = 0x3D then rev r else rev (c2 # r)) = d"
      unfolding r by simp
    then show ?thesis using 2 assms(2) by (simp add: strip_pad_def)
  next
    case 3
    with assms(2) show ?thesis by (simp add: strip_pad_def numeral_2_eq_2)
  qed
qed

lemma unat_less_byte: "unat (b :: byte) < 256"
  using unsigned_less [of b] by simp

lemma pad_arith:
  fixes n :: nat
  shows "(n + (n + 2) div 3 + (3 - n mod 3) mod 3) mod 4 = 0"
    and "(3 - n mod 3) mod 3 = 0 \<or> 2 \<le> n + (n + 2) div 3"
    and "(n + (n + 2) div 3) mod 4 \<noteq> 1"
proof -
  obtain q r where n: "n = 3 * q + r" and "r < 3"
    by (metis mult_div_mod_eq mod_less_divisor zero_less_numeral)
  then consider "r = 0" | "r = 1" | "r = 2" by linarith
  then have "(n + (n + 2) div 3 + (3 - n mod 3) mod 3) mod 4 = 0 \<and>
      ((3 - n mod 3) mod 3 = 0 \<or> 2 \<le> n + (n + 2) div 3) \<and> (n + (n + 2) div 3) mod 4 \<noteq> 1"
  proof cases
    case 1
    then have "n + (n + 2) div 3 = 4 * q" "n mod 3 = 0" using n by simp_all
    then show ?thesis by simp
  next
    case 2
    then have "n + (n + 2) div 3 = 4 * q + 2" "n mod 3 = 1" using n by presburger+
    moreover have "(4 * q + 2) mod 4 = 2" by presburger
    ultimately show ?thesis by simp
  next
    case 3
    then have "n + (n + 2) div 3 = 4 * q + 3" "n mod 3 = 2" using n by presburger+
    moreover have "(4 * q + 3) mod 4 = 3" by presburger
    ultimately show ?thesis by simp
  qed
  then show "(n + (n + 2) div 3 + (3 - n mod 3) mod 3) mod 4 = 0"
    and "(3 - n mod 3) mod 3 = 0 \<or> 2 \<le> n + (n + 2) div 3"
    and "(n + (n + 2) div 3) mod 4 \<noteq> 1" by blast+
qed

lemma pad_not_ws: "\<not> is_ascii_ws 0x3D"
  by (simp add: is_ascii_ws_def)

lemma atob_btoa: "atob (btoa bs) = Some (map ucast bs)"
proof -
  let ?xs = "map unat bs"
  let ?vs = "encode_sextets ?xs"
  let ?n = "(3 - length bs mod 3) mod 3"
  have lt: "\<forall>x\<in>set ?xs. x < 256"
    using unat_less_byte by auto
  have v: "\<forall>v\<in>set ?vs. v < 64" by (rule encode_sextets_bound [OF lt])
  have neq: "\<forall>c\<in>set (map b64_char ?vs). c \<noteq> 0x3D \<and> \<not> is_ascii_ws c"
    using v b64_char_not_special by simp
  have len: "length ?vs = length bs + (length bs + 2) div 3"
    by (simp add: length_encode_sextets)
  have pad: "(length ?vs + ?n) mod 4 = 0" "?n = 0 \<or> 2 \<le> length ?vs"
    using pad_arith [of "length bs"] by (simp_all add: len)
  have "?n < 3" by (rule mod_less_divisor) simp
  then have "?n \<le> 2" by linarith
  have "filter (\<lambda>c. \<not> is_ascii_ws c) (btoa bs) = btoa bs"
    unfolding filter_id_conv btoa_def using neq pad_not_ws by (auto simp: set_replicate_conv_if)
  moreover have "strip_pad (btoa bs) = map b64_char ?vs"
    unfolding btoa_def by (rule strip_pad_pad) (use neq pad \<open>?n \<le> 2\<close> in simp_all)
  moreover have "length ?vs mod 4 \<noteq> 1" using pad_arith (3) [of "length bs"] by (simp add: len)
  ultimately show ?thesis
    by (simp add: atob_def those_b64 [OF v, unfolded map_map o_def] decode_encode_sextets [OF lt]
        o_def)
qed

subsection \<open>The decoders invert the encoders\<close>

lemma cont_tail: "x < 64 \<Longrightarrow> cont (0x80 + x)"
  by (simp add: cont_def)

lemma utf8_points_bytes:
  assumes "scalar p"
  shows "utf8_points (utf8_bytes p @ bs) = map_option (Cons p) (utf8_points bs)"
proof -
  consider (one) "p < 0x80" | (two) "0x80 \<le> p" "p < 0x800" | (three) "0x800 \<le> p" "p < 0x10000"
    | (four) "0x10000 \<le> p" by linarith
  then show ?thesis
  proof cases
    case one
    then show ?thesis by (simp add: utf8_bytes.simps utf8_points.simps(2))
  next
    case two
    define a d where "a = p div 64" and "d = p mod 64"
    have p: "p = a * 64 + d" "d < 64" by (simp_all add: a_def d_def)
    with two have "2 \<le> a" "a < 32" by linarith+
    moreover have "utf8_bytes p = [0xC0 + a, 0x80 + d]"
      using two by (simp add: utf8_bytes.simps [of p] a_def d_def)
    ultimately show ?thesis using p by (simp add: utf8_points.simps(2) cont_tail)
  next
    case three
    define a c d where "a = p div 4096" and "c = p div 64 mod 64" and "d = p mod 64"
    have "p = a * 4096 + p mod 4096" by (simp add: a_def)
    moreover have "p mod 4096 = c * 64 + d"
      unfolding c_def d_def using mod_mult2_eq [of p 64 64] by simp
    ultimately have p: "p = a * 4096 + c * 64 + d" by simp
    have b: "c < 64" "d < 64" by (simp_all add: c_def d_def)
    with p three have a: "a < 16" by linarith
    have "second_ok (0xE0 + a) (0x80 + c)"
      using p b a three assms by (auto simp: second_ok_def cont_def scalar_def)
    moreover have "utf8_bytes p = [0xE0 + a, 0x80 + c, 0x80 + d]"
      using three by (simp add: utf8_bytes.simps [of p] a_def c_def d_def)
    ultimately show ?thesis using p b a by (simp add: utf8_points.simps(2) cont_tail)
  next
    case four
    define a c d e where "a = p div 262144" and "c = p div 4096 mod 64"
      and "d = p div 64 mod 64" and "e = p mod 64"
    have "p = a * 262144 + p mod 262144" by (simp add: a_def)
    moreover have "p mod 262144 = c * 4096 + p mod 4096"
      unfolding c_def using mod_mult2_eq [of p 4096 64] by simp
    moreover have "p mod 4096 = d * 64 + e"
      unfolding d_def e_def using mod_mult2_eq [of p 64 64] by simp
    ultimately have p: "p = a * 262144 + c * 4096 + d * 64 + e" by simp
    have b: "c < 64" "d < 64" "e < 64" by (simp_all add: c_def d_def e_def)
    have "p < 0x110000" using assms four by (simp add: scalar_def)
    with p b have a: "a < 5" by linarith
    have "second_ok (0xF0 + a) (0x80 + c)"
      using p b a four \<open>p < 0x110000\<close> by (auto simp: second_ok_def cont_def)
    moreover have "utf8_bytes p = [0xF0 + a, 0x80 + c, 0x80 + d, 0x80 + e]"
      using four by (simp add: utf8_bytes.simps [of p] a_def c_def d_def e_def)
    ultimately show ?thesis using p b a by (simp add: utf8_points.simps(2) cont_tail)
  qed
qed

lemma utf8_points_encode:
  "\<forall>p\<in>set ps. scalar p \<Longrightarrow> utf8_points (concat (map utf8_bytes ps)) = Some ps"
  by (induction ps) (simp_all add: utf8_points_bytes)

lemma utf8_bytes_lt: "scalar p \<Longrightarrow> \<forall>b\<in>set (utf8_bytes p). b < 256"
proof -
  assume "scalar p"
  then have "p < 0x110000" by (auto simp: scalar_def)
  then have "p div 262144 < 5" by (simp add: less_mult_imp_div_less)
  moreover have "p < 0x10000 \<Longrightarrow> p div 4096 < 16" "p < 0x800 \<Longrightarrow> p div 64 < 32"
    by (simp_all add: less_mult_imp_div_less)
  moreover have "p mod 64 < 64" "p div 64 mod 64 < 64" "p div 4096 mod 64 < 64" by simp_all
  ultimately show ?thesis by (auto simp: utf8_bytes.simps [of p])
qed

lemma unat_bytes: "\<forall>b\<in>set bs. b < 256 \<Longrightarrow> map (\<lambda>b. unat (word_of_nat b :: byte)) bs = bs"
  by (induction bs) (simp_all add: unat_of_nat)

lemma decode_encode_utf8:
  assumes "\<forall>p\<in>set ps. scalar p" and "hd ps \<noteq> 0xFEFF"
  shows "decode_utf8 (encode_utf8 ps) = Some (js_of_points ps)"
proof -
  have "\<forall>b\<in>set (concat (map utf8_bytes ps)). b < 256"
    using assms(1) utf8_bytes_lt by auto
  then have "map unat (encode_utf8 ps) = concat (map utf8_bytes ps)"
    by (simp add: encode_utf8_def unat_bytes o_def)
  moreover have "drop_bom ps = ps"
    using assms(2) by (cases ps) (simp_all add: drop_bom_def)
  ultimately show ?thesis
    by (simp add: decode_utf8_def utf8_points_encode [OF assms(1)] js_of_points_def)
qed

lemma ucast_bin: "map (ucast :: code_unit \<Rightarrow> byte) (map ucast (bs :: byte list)) = bs"
  by (simp add: map_idI o_def ucast_up_ucast_id is_up)

lemma js_includes_single: "js_includes s [c] \<longleftrightarrow> c \<in> set s"
  by (induction s) (auto simp: neq_Nil_conv)

lemma utf16_units_bound: "scalar p \<Longrightarrow> p \<noteq> 0 \<Longrightarrow> \<forall>u\<in>set (utf16_units p). 0 < u \<and> u < 0x10000"
proof -
  assume "scalar p" and "p \<noteq> 0"
  then have "(p - 0x10000) div 1024 < 0x400"
    by (intro less_mult_imp_div_less) (auto simp: scalar_def)
  moreover have "(p - 0x10000) mod 1024 < 0x400" by simp
  ultimately show ?thesis using \<open>p \<noteq> 0\<close> by (auto simp: utf16_units.simps [of p])
qed

lemma unit_of_nat_nonzero: "0 < n \<Longrightarrow> n < 0x10000 \<Longrightarrow> (word_of_nat n :: code_unit) \<noteq> 0"
  by (simp add: word_of_nat_eq_0_iff nat_dvd_not_less)

lemma js_of_points_no_nul:
  assumes "\<forall>p\<in>set ps. scalar p" "0 \<notin> set ps"
  shows "0 \<notin> set (js_of_points ps)"
proof
  assume "0 \<in> set (js_of_points ps)"
  then obtain p u where "p \<in> set ps" "u \<in> set (utf16_units p)" "(word_of_nat u :: code_unit) = 0"
    by (auto simp: js_of_points_def)
  moreover with assms have "0 < u" "u < 0x10000" using utf16_units_bound [of p] by metis+
  ultimately show False using unit_of_nat_nonzero by blast
qed

lemma btoa_empty_iff: "btoa bs = [] \<longleftrightarrow> bs = []"
proof
  assume "btoa bs = []"
  then have "length (encode_sextets (map unat bs)) = 0" by (simp add: btoa_def)
  then show "bs = []" by (simp add: length_encode_sextets)
qed (simp add: btoa_def)

lemma base64DecodeUtf8_btoa:
  "base64DecodeUtf8 (btoa bs) =
     (if bs = [] then []
      else (case decode_utf8 bs of
              None \<Rightarrow> btoa bs
            | Some t \<Rightarrow> if 0 \<in> set t \<and> even (length bs)
                then (case decode_utf16le bs of None \<Rightarrow> btoa bs | Some u \<Rightarrow> u) else t))"
  by (simp add: base64DecodeUtf8_def btoa_empty_iff atob_btoa ucast_bin [unfolded map_map o_def]
      js_includes_single even_iff_mod_2_eq_zero o_def split: option.splits)

lemma base64_utf8_text:
  assumes "\<forall>p\<in>set ps. scalar p" and "0 \<notin> set ps" and "take 1 ps \<noteq> [0xFEFF]"
  shows "base64DecodeUtf8 (btoa (encode_utf8 ps)) = js_of_points ps"
proof (cases ps)
  case Nil
  then show ?thesis by (simp add: base64DecodeUtf8_btoa encode_utf8_def js_of_points_def)
next
  case (Cons p qs)
  then have "encode_utf8 ps \<noteq> []" by (simp add: encode_utf8_def utf8_bytes.simps [of p])
  moreover have "decode_utf8 (encode_utf8 ps) = Some (js_of_points ps)"
    using assms(1,3) Cons by (intro decode_encode_utf8) simp_all
  ultimately show ?thesis
    using js_of_points_no_nul [OF assms(1,2)] by (simp add: base64DecodeUtf8_btoa)
qed

text \<open>Round trip of command output: base64 of the UTF-8 encoding of any text without NUL and
  without a leading byte order mark decodes to that text, whatever planes its code points are in.\<close>

theorem base64DecodeUtf8_roundtrip:
  assumes "\<forall>p\<in>set ps. scalar p" and "0 \<notin> set ps" and "take 1 ps \<noteq> [0xFEFF]"
  shows "base64DecodeUtf8 (btoa (encode_utf8 ps)) = js_of_points ps"
  by (rule base64_utf8_text [OF assms])

lemma base64DecodeUtf8_roundtrip_witness:
  "base64DecodeUtf8 (btoa (encode_utf8 [0x48, 0xE9, 0x20AC, 0x1F600])) =
     js_of_points [0x48, 0xE9, 0x20AC, 0x1F600]"
  by (rule base64DecodeUtf8_roundtrip) (simp_all add: scalar_def)

lemma utf8_points_ascii: "\<forall>b\<in>set bs. b < 0x80 \<Longrightarrow> utf8_points bs = Some bs"
  by (induction bs) (simp_all add: utf8_points.simps(2))

lemma le_units_ascii:
  "\<forall>p\<in>set ps. p < 0x80 \<Longrightarrow> le_units (concat (map (\<lambda>p. [p, 0]) ps)) = Some ps"
  by (induction ps) simp_all

lemma surrogates_ok_ascii: "\<forall>p\<in>set ps. p < 0x80 \<Longrightarrow> surrogates_ok ps"
  by (induction ps) auto

lemma drop_bom_small: "\<forall>p\<in>set ps. p < 0x80 \<Longrightarrow> drop_bom ps = ps"
  by (cases ps) (auto simp: drop_bom_def)

lemma js_of_points_ascii: "\<forall>p\<in>set ps. p < 0x80 \<Longrightarrow> concat (map utf16_units ps) = ps"
  by (induction ps) (simp_all add: utf16_units.simps)

text \<open>The second attempt of the decoder: ASCII output that a shell wrote as UTF-16LE (every
  other byte is NUL) is valid UTF-8 of even length with a NUL in it, and is shown as the ASCII
  text.\<close>

theorem base64DecodeUtf8_utf16le:
  assumes "\<forall>p\<in>set ps. 0 < p \<and> p < 0x80"
  shows "base64DecodeUtf8 (btoa (encode_ascii_utf16le ps)) = map word_of_nat ps"
proof (cases "ps = []")
  case True
  then show ?thesis by (simp add: base64DecodeUtf8_btoa encode_ascii_utf16le_def)
next
  case False
  let ?bs = "encode_ascii_utf16le ps" and ?ns = "concat (map (\<lambda>p. [p, 0]) ps)"
  have lt: "\<forall>p\<in>set ps. p < 0x80" "\<forall>b\<in>set ?ns. b < 0x80" using assms by auto
  have "map unat ?bs = ?ns"
    using lt(1) by (induction ps) (simp_all add: encode_ascii_utf16le_def unat_of_nat)
  then have d: "decode_utf8 ?bs = Some (map word_of_nat ?ns)" "decode_utf16le ?bs = Some (map word_of_nat ps)"
    using lt by (simp_all add: decode_utf8_def decode_utf16le_def utf8_points_ascii le_units_ascii
        surrogates_ok_ascii drop_bom_small js_of_points_ascii)
  have "length ?bs = 2 * length ps"
    by (induction ps) (simp_all add: encode_ascii_utf16le_def)
  moreover from False obtain p qs where "ps = p # qs" by (cases ps) auto
  then have "?bs \<noteq> []" "(0 :: code_unit) \<in> set (map word_of_nat ?ns)"
    by (simp_all add: encode_ascii_utf16le_def)
  ultimately show ?thesis using d by (simp add: base64DecodeUtf8_btoa)
qed

lemma base64DecodeUtf8_utf16le_witness:
  "base64DecodeUtf8 (btoa (encode_ascii_utf16le [0x6F, 0x6B])) = map word_of_nat [0x6F, 0x6B]"
  by (rule base64DecodeUtf8_utf16le) simp

end
