(* ===== verification/Buckets.thy ===== *)
theory Buckets
  imports Parts Text_Decode
begin

section \<open>Buckets of begin and end events\<close>

text \<open>
  The events of one command, tool call or search are gathered in a bucket and become one tool
  part when all events have been read: \<open>ExecBucket\<close>, \<open>PairBucket\<close> and the functions
  \<open>project...Bucket\<close> of \<^verbatim>\<open>web/src/lib/assistant-projection.ts\<close>, with the status functions they
  call. The lemmas say when a bucket is shown, with which status, and which events it lists.
\<close>

record exec_bucket =
  exec_begin :: "event_record option"
  exec_outputs :: "event_record list"
  exec_interactions :: "event_record list"
  exec_end :: "event_record option"

record pair_bucket =
  pair_begin :: "event_record option"
  pair_end :: "event_record option"

definition new_exec_bucket :: exec_bucket where
  "new_exec_bucket = \<lparr>exec_begin = None, exec_outputs = [], exec_interactions = [], exec_end = None\<rparr>"

definition new_pair_bucket :: pair_bucket where
  "new_pair_bucket = \<lparr>pair_begin = None, pair_end = None\<rparr>"

subsection \<open>Status\<close>

definition isErrorResult :: "js \<Rightarrow> bool" where
  "isErrorResult r =
     (if \<not> truthy r \<or> \<not> is_object r then False
      else if has_field r ''Err'' then True
      else field (asRecord (field r ''Ok'')) ''is_error'' = JBool True)"

definition mapExecCompletionStatus :: "jsstring option \<Rightarrow> rat option \<Rightarrow> tool_status" where
  "mapExecCompletionStatus s code =
     (let fallback = (if code = Some 0 \<or> code = None then Complete else Failed) in
      case s of
        None \<Rightarrow> fallback
      | Some t \<Rightarrow>
          if t = [] then fallback
          else if toLowerCase t = jstr ''completed'' then Complete
          else if toLowerCase t = jstr ''failed'' \<or> toLowerCase t = jstr ''declined'' then Failed
          else fallback)"

definition mapImageCompletionStatus :: "jsstring option \<Rightarrow> tool_status" where
  "mapImageCompletionStatus s =
     (case s of
        None \<Rightarrow> Complete
      | Some t \<Rightarrow>
          if t = [] then Complete
          else if js_includes (toLowerCase t) (jstr ''fail'')
                \<or> js_includes (toLowerCase t) (jstr ''error'')
          then Failed else Complete)"

definition isAgentStatusFailure :: "js \<Rightarrow> bool" where
  "isAgentStatusFailure v =
     (case v of
        JStr s \<Rightarrow> toLowerCase s = jstr ''errored'' \<or> toLowerCase s = jstr ''not_found''
      | _ \<Rightarrow>
          if \<not> truthy v \<or> \<not> is_object v then False
          else has_field v ''Errored'' \<or> has_field v ''errored''
             \<or> has_field v ''NotFound'' \<or> has_field v ''not_found'')"

definition collabStatus :: "js \<Rightarrow> js \<Rightarrow> tool_status" where
  "collabStatus beginMessage endMessage =
     (let statuses = asRecord (field endMessage ''statuses'');
          hasReceiver = str endMessage ''new_thread_id'' \<noteq> None
            \<or> str endMessage ''receiver_thread_id'' \<noteq> None
            \<or> list_ex (\<lambda>s. s \<noteq> []) (only_strings (list endMessage ''receiver_thread_ids''))
      in
      if isAgentStatusFailure (field endMessage ''status'') then Failed
      else if list_ex isAgentStatusFailure (object_values statuses) then Failed
      else if object_keys endMessage = [] then Complete
      else if has_field endMessage ''new_thread_id'' then (if hasReceiver then Complete else Failed)
      else if has_field beginMessage ''receiver_thread_id'' \<or> has_field endMessage ''receiver_thread_id''
      then (if hasReceiver then Complete else Failed)
      else Complete)"

subsection \<open>Commands\<close>

text \<open>\<open>bucket.begin ? msgOf(bucket.begin) : {}\<close>.\<close>

definition message_of :: "event_record option \<Rightarrow> js" where
  "message_of e = (case e of None \<Rightarrow> JObj [] | Some b \<Rightarrow> msgOf b)"

definition exec_ids :: "exec_bucket \<Rightarrow> jsstring list" where
  "exec_ids b = map event_id (case exec_begin b of None \<Rightarrow> [] | Some e \<Rightarrow> [e])
     @ map event_id (exec_outputs b) @ map event_id (exec_interactions b)
     @ map event_id (case exec_end b of None \<Rightarrow> [] | Some e \<Rightarrow> [e])"

definition exec_anchor :: "exec_bucket \<Rightarrow> event_record option" where
  "exec_anchor b =
     opt_or (exec_begin b)
       (opt_or (case exec_outputs b of [] \<Rightarrow> None | e # _ \<Rightarrow> Some e)
         (opt_or (case exec_interactions b of [] \<Rightarrow> None | e # _ \<Rightarrow> Some e) (exec_end b)))"

text \<open>\<open>streamedOutput || aggregated_output || [stdout, stderr].filter(Boolean).join("\n")\<close>.\<close>

definition exec_output :: "exec_bucket \<Rightarrow> jsstring" where
  "exec_output b =
     (let endMessage = message_of (exec_end b);
          streamed = concat (map (\<lambda>e. base64DecodeUtf8 (opt_default (str (msgOf e) ''chunk'') []))
                       (exec_outputs b))
      in
      if streamed \<noteq> [] then streamed
      else (case str endMessage ''aggregated_output'' of
              Some s \<Rightarrow> s
            | None \<Rightarrow> join [0x0A] (List.map_filter id
                        [str endMessage ''stdout'', str endMessage ''stderr''])))"

definition projectExecBucket :: "jsstring \<Rightarrow> exec_bucket \<Rightarrow> item option" where
  "projectExecBucket bid b =
     (case exec_anchor b of
        None \<Rightarrow> None
      | Some anchor \<Rightarrow>
          let beginMessage = message_of (exec_begin b);
              endMessage = message_of (exec_end b);
              cmd = only_strings (list beginMessage ''command'');
              fallbackCommand = only_strings (list beginMessage ''cmd'');
              resolvedCommand = (if length cmd > 0 then cmd else fallbackCommand);
              out = exec_output b;
              code = num endMessage ''exit_code'';
              ints = map (\<lambda>e. \<lparr>processId = str (msgOf e) ''process_id'',
                                stdin = str (msgOf e) ''stdin'',
                                interactionInput = str (msgOf e) ''interaction_input''\<rparr>)
                       (exec_interactions b);
              st = (if exec_end b \<noteq> None then mapExecCompletionStatus (str endMessage ''status'') code
                    else Running);
              title = join [0x20] resolvedCommand
          in Some (AssistantItem (timestamp anchor) MAX_SAFE_INTEGER
               (ToolPart
                 ((tool0 ExecCommand (if title \<noteq> [] then title else jstr ''Command '' @ bid) st)
                    \<lparr>command := Some resolvedCommand,
                     cwd := str beginMessage ''cwd'',
                     tool_output := (if out \<noteq> [] then Some out else None),
                     stdout := str endMessage ''stdout'',
                     stderr := str endMessage ''stderr'',
                     interactions := (if length ints > 0 then Some ints else None),
                     exitCode := code\<rparr>)
                 (exec_ids b))
               False))"

subsection \<open>Pairs\<close>

definition pair_ids :: "pair_bucket \<Rightarrow> jsstring list" where
  "pair_ids b = map event_id (case pair_begin b of None \<Rightarrow> [] | Some e \<Rightarrow> [e])
     @ map event_id (case pair_end b of None \<Rightarrow> [] | Some e \<Rightarrow> [e])"

text \<open>The item every pair bucket becomes: the anchor is the begin event if there is one.\<close>

definition pair_item :: "pair_bucket \<Rightarrow> tool_part \<Rightarrow> item option" where
  "pair_item b t =
     (case opt_or (pair_begin b) (pair_end b) of
        None \<Rightarrow> None
      | Some anchor \<Rightarrow>
          Some (AssistantItem (timestamp anchor) MAX_SAFE_INTEGER (ToolPart t (pair_ids b)) False))"

definition projectMcpToolBucket :: "jsstring \<Rightarrow> pair_bucket \<Rightarrow> item option" where
  "projectMcpToolBucket bid b =
     (let beginMessage = message_of (pair_begin b);
          endMessage = message_of (pair_end b);
          invocation = js_or (asRecord (field beginMessage ''invocation''))
                             (asRecord (field endMessage ''invocation''));
          srv = str invocation ''server'';
          tl = str invocation ''tool'';
          res = field endMessage ''result'';
          st = (if pair_end b \<noteq> None then (if isErrorResult res then Failed else Complete)
                else Running);
          title = join (jstr ''.'') (List.map_filter id [srv, tl])
      in pair_item b
           ((tool0 McpToolCall (if title \<noteq> [] then title else jstr ''MCP tool '' @ bid) st)
              \<lparr>server := srv,
               toolName := tl,
               args := field invocation ''arguments'',
               result := res,
               duration := str endMessage ''duration'',
               error := (case field (asRecord res) ''Err'' of JStr s \<Rightarrow> Some s | _ \<Rightarrow> None)\<rparr>))"

definition projectWebSearchBucket :: "jsstring \<Rightarrow> pair_bucket \<Rightarrow> item option" where
  "projectWebSearchBucket bid b =
     (let endMessage = message_of (pair_end b);
          action = asRecord (field endMessage ''action'')
      in pair_item b
           ((tool0 WebSearch (jstr ''Web search'') (if pair_end b \<noteq> None then Complete else Running))
              \<lparr>query := str endMessage ''query'', actionType := str action ''type''\<rparr>))"

definition projectImageGenerationBucket :: "jsstring \<Rightarrow> pair_bucket \<Rightarrow> item option" where
  "projectImageGenerationBucket bid b =
     (let endMessage = message_of (pair_end b);
          imgStatus = str endMessage ''status''
      in pair_item b
           ((tool0 ImageGeneration (jstr ''Image generation'')
               (if pair_end b \<noteq> None then mapImageCompletionStatus imgStatus else Running))
              \<lparr>result := field endMessage ''result'',
               imageStatus := imgStatus,
               revisedPrompt := str endMessage ''revised_prompt'',
               savedPath := str endMessage ''saved_path''\<rparr>))"

definition projectPatchBucket :: "jsstring \<Rightarrow> pair_bucket \<Rightarrow> item option" where
  "projectPatchBucket bid b =
     (let beginMessage = message_of (pair_begin b);
          endMessage = message_of (pair_end b);
          chg = asRecord (field beginMessage ''changes'');
          success = (if pair_end b \<noteq> None then field endMessage ''success'' = JBool True else False)
      in pair_item b
           ((tool0 PatchApply (jstr ''Patch apply'')
               (if pair_end b \<noteq> None then (if success then Complete else Failed) else Running))
              \<lparr>changes := Some (object_keys chg),
               stdout := str endMessage ''stdout'',
               stderr := str endMessage ''stderr''\<rparr>))"

definition projectDynamicToolBucket :: "jsstring \<Rightarrow> pair_bucket \<Rightarrow> item option" where
  "projectDynamicToolBucket bid b =
     (let beginMessage = message_of (pair_begin b);
          endMessage = message_of (pair_end b);
          tn = opt_or (str endMessage ''tool'') (str beginMessage ''tool'');
          success = (if pair_end b \<noteq> None
                     then JBool (field endMessage ''success'' = JBool True) else JUndef);
          contentItems = list endMessage ''content_items''
      in pair_item b
           ((tool0 DynamicToolCall
               (case tn of Some n \<Rightarrow> jstr ''Dynamic tool: '' @ n | None \<Rightarrow> jstr ''Dynamic tool'')
               (if pair_end b \<noteq> None then (if success = JBool False then Failed else Complete)
                else Running))
              \<lparr>toolName := tn,
               args := js_nullish (field beginMessage ''arguments'') (field endMessage ''arguments''),
               result := (if length contentItems > 0 then JArr contentItems
                          else field endMessage ''result''),
               duration := str endMessage ''duration'',
               error := str endMessage ''error''\<rparr>))"

definition projectCollabBucket :: "pair_bucket \<Rightarrow> jsstring \<Rightarrow> item option" where
  "projectCollabBucket b title =
     (let beginMessage = message_of (pair_begin b);
          endMessage = message_of (pair_end b)
      in pair_item b
           ((tool0 CollabAgent title
               (if pair_end b \<noteq> None then collabStatus beginMessage endMessage else Running))
              \<lparr>toolName := Some title,
               args := (if object_keys beginMessage \<noteq> [] then stripTypeField beginMessage else JUndef),
               result := (if object_keys endMessage \<noteq> [] then stripTypeField endMessage else JUndef)\<rparr>))"

end
