(* ===== verification/Streams.thy ===== *)
theory Streams
  imports Parts
begin

section \<open>Streams of deltas\<close>

text \<open>
  Deltas of a message or of reasoning are appended to a stream bucket, one per turn (or request,
  or event) in each of two stores; the final event of the turn marks the bucket as terminated,
  and only buckets never terminated are shown. \<open>StreamBucket\<close>, \<open>appendStreamChunk\<close>,
  \<open>terminateStream\<close> and \<open>projectStreamBucket\<close> of \<^verbatim>\<open>web/src/lib/assistant-projection.ts\<close>.
\<close>

datatype stream_variant = VText | VReasoning reasoning_variant

record stream_bucket =
  sb_timestamp :: jsstring
  sb_order :: int
  sb_eventIds :: "jsstring list"
  chunks :: "jsstring list"
  sb_variant :: stream_variant
  terminated :: bool

type_synonym stream_store = "(jsstring, stream_bucket) jsmap"

definition stream_chunk :: "event_record \<Rightarrow> jsstring" where
  "stream_chunk e = opt_default (opt_or (str (msgOf e) ''delta'') (str (msgOf e) ''text'')) []"

definition appendStreamChunk ::
    "stream_store \<Rightarrow> event_record \<Rightarrow> int \<Rightarrow> stream_variant \<Rightarrow> stream_store" where
  "appendStreamChunk store e order v =
     (let key = streamBucketId e;
          chunk = stream_chunk e;
          bucket = opt_default (map_get store key)
            \<lparr>sb_timestamp = timestamp e, sb_order = order, sb_eventIds = [], chunks = [],
             sb_variant = v, terminated = False\<rparr>
      in map_put store key
           (bucket\<lparr>sb_eventIds := sb_eventIds bucket @ [event_id e],
                   chunks := (if chunk \<noteq> [] then chunks bucket @ [chunk] else chunks bucket)\<rparr>))"

definition terminateStream :: "stream_store \<Rightarrow> event_record \<Rightarrow> stream_store" where
  "terminateStream store e =
     (case map_get store (streamBucketId e) of
        None \<Rightarrow> store
      | Some bucket \<Rightarrow> map_put store (streamBucketId e) (bucket\<lparr>terminated := True\<rparr>))"

definition projectStreamBucket :: "jsstring \<Rightarrow> stream_bucket \<Rightarrow> item option" where
  "projectStreamBucket bid b =
     (if terminated b then None
      else let txt = join [] (chunks b) in
        if txt = [] then None
        else Some (AssistantItem (sb_timestamp b) (sb_order b)
               (case sb_variant b of
                  VText \<Rightarrow> TextPart txt None JUndef (sb_eventIds b)
                | VReasoning v \<Rightarrow> ReasoningPart txt v (sb_eventIds b))
               False))"

subsection \<open>A store and the events it has seen\<close>

text \<open>The stream operations as steps: a delta with its index and variant, or a final event.\<close>

datatype stream_op = Append event_record int stream_variant | Terminate event_record

fun stream_step :: "stream_store \<Rightarrow> stream_op \<Rightarrow> stream_store" where
  "stream_step s (Append e n v) = appendStreamChunk s e n v"
| "stream_step s (Terminate e) = terminateStream s e"

fun op_key :: "stream_op \<Rightarrow> jsstring" where
  "op_key (Append e n v) = streamBucketId e"
| "op_key (Terminate e) = streamBucketId e"

lemma stream_step_other: "op_key s \<noteq> k \<Longrightarrow> map_get (stream_step m s) k = map_get m k"
  by (cases s)
    (auto simp: appendStreamChunk_def terminateStream_def Let_def split: option.splits)

text \<open>A terminated bucket stays terminated.\<close>

definition is_terminated :: "stream_store \<Rightarrow> jsstring \<Rightarrow> bool" where
  "is_terminated m k \<longleftrightarrow> (case map_get m k of None \<Rightarrow> False | Some b \<Rightarrow> terminated b)"

lemma stream_step_terminated: "is_terminated m k \<Longrightarrow> is_terminated (stream_step m s) k"
  by (cases s)
    (auto simp: is_terminated_def appendStreamChunk_def terminateStream_def Let_def
      split: option.splits)

interpretation stays_terminated: fold_invariant stream_step "\<lambda>m. is_terminated m k" for k
  by unfold_locales (rule stream_step_terminated)

text \<open>
  Every bucket of a store lists at least one event, and its keys are distinct.
\<close>

definition streams_ok :: "stream_store \<Rightarrow> bool" where
  "streams_ok m \<longleftrightarrow> distinct (map_keys m) \<and> (\<forall>p\<in>set m. sb_eventIds (snd p) \<noteq> [])"

lemma map_put_ok:
  "(\<forall>p\<in>set m. P (snd p)) \<Longrightarrow> P b \<Longrightarrow> (\<forall>p\<in>set (map_put m k b). P (snd p))"
  using set_map_put [of m k b] by auto

lemma streams_ok_append: "streams_ok m \<Longrightarrow> streams_ok (appendStreamChunk m e n v)"
  unfolding streams_ok_def appendStreamChunk_def Let_def
  by (intro conjI map_put_ok [where P = "\<lambda>b. sb_eventIds b \<noteq> []"]) auto

lemma streams_ok_terminate: "streams_ok m \<Longrightarrow> streams_ok (terminateStream m e)"
proof (cases "map_get m (streamBucketId e)")
  case (Some b)
  assume ok: "streams_ok m"
  from Some have "(streamBucketId e, b) \<in> set m" by (rule map_get_mem)
  with ok have "sb_eventIds b \<noteq> []" by (auto simp: streams_ok_def)
  with ok have "\<forall>p\<in>set (map_put m (streamBucketId e) (b\<lparr>terminated := True\<rparr>)).
      sb_eventIds (snd p) \<noteq> []"
    by (intro map_put_ok [where P = "\<lambda>b. sb_eventIds b \<noteq> []"]) (auto simp: streams_ok_def)
  with ok Some show ?thesis by (simp add: streams_ok_def terminateStream_def)
qed (simp add: terminateStream_def)

text \<open>The identifiers a store holds: a delta adds its own, a final event none.\<close>

definition stream_held :: "stream_store \<Rightarrow> jsstring multiset" where
  "stream_held m = total (\<lambda>b. mset (sb_eventIds b)) m"

lemma stream_held_append: "stream_held (appendStreamChunk m e n v) \<subseteq># stream_held m + {#event_id e#}"
  unfolding stream_held_def appendStreamChunk_def Let_def
  by (rule total_map_put_le) (simp split: option.split)

lemma stream_held_terminate: "stream_held (terminateStream m e) \<subseteq># stream_held m"
proof (cases "map_get m (streamBucketId e)")
  case (Some b)
  have "total (\<lambda>b. mset (sb_eventIds b)) (map_put m (streamBucketId e) (b\<lparr>terminated := True\<rparr>))
      \<subseteq># total (\<lambda>b. mset (sb_eventIds b)) m + {#}"
    by (rule total_map_put_le) (simp add: Some)
  with Some show ?thesis by (simp add: stream_held_def terminateStream_def)
qed (simp add: terminateStream_def)

lemma projectStreamBucket_ids:
  "projectStreamBucket k b = Some i \<Longrightarrow> item_ids i = sb_eventIds b"
  by (auto simp: projectStreamBucket_def Let_def split: if_splits stream_variant.splits)

subsection \<open>What an open stream shows\<close>

definition chunk_list :: "event_record \<Rightarrow> jsstring list" where
  "chunk_list e = (if stream_chunk e \<noteq> [] then [stream_chunk e] else [])"

lemma concat_chunk_list: "concat (concat (map chunk_list es)) = concat (map stream_chunk es)"
  by (induction es) (auto simp: chunk_list_def)

lemma append_run:
  assumes "map_get m k = Some b" and "\<forall>x\<in>set es. streamBucketId (fst x) = k"
  shows "map_get (foldl (\<lambda>m (e, n, v). appendStreamChunk m e n v) m es) k =
     Some (b\<lparr>sb_eventIds := sb_eventIds b @ map (event_id \<circ> fst) es,
             chunks := chunks b @ concat (map (chunk_list \<circ> fst) es)\<rparr>)"
  using assms
proof (induction es arbitrary: m b)
  case Nil
  then show ?case by simp
next
  case (Cons x es)
  obtain e n v where x: "x = (e, n, v)" by (cases x)
  let ?b = "b\<lparr>sb_eventIds := sb_eventIds b @ [event_id e], chunks := chunks b @ chunk_list e\<rparr>"
  have "map_get (appendStreamChunk m e n v) k = Some ?b"
    using Cons.prems by (simp add: x appendStreamChunk_def Let_def chunk_list_def)
  moreover have "\<forall>x\<in>set es. streamBucketId (fst x) = k" using Cons.prems(2) by simp
  ultimately show ?case using Cons.IH [of "appendStreamChunk m e n v" ?b] by (simp add: x)
qed

lemma append_run_fresh:
  assumes "map_get m k = None" and "es = (e, n, v) # es'"
    and "\<forall>x\<in>set es. streamBucketId (fst x) = k"
  shows "map_get (foldl (\<lambda>m (e, n, v). appendStreamChunk m e n v) m es) k =
     Some \<lparr>sb_timestamp = timestamp e, sb_order = n, sb_eventIds = map (event_id \<circ> fst) es,
           chunks = concat (map (chunk_list \<circ> fst) es), sb_variant = v, terminated = False\<rparr>"
proof -
  let ?b = "\<lparr>sb_timestamp = timestamp e, sb_order = n, sb_eventIds = [event_id e],
    chunks = chunk_list e, sb_variant = v, terminated = False\<rparr>"
  have "map_get (appendStreamChunk m e n v) k = Some ?b"
    using assms by (simp add: appendStreamChunk_def Let_def chunk_list_def)
  from append_run [OF this, of es'] show ?thesis using assms(2,3) by simp
qed

end
