(* ===== verification/Messages.thy ===== *)
theory Messages
  imports Parts
begin

section \<open>Folding items into messages\<close>

text \<open>
  \<open>foldItemsIntoMessages\<close> of \<^verbatim>\<open>web/src/lib/assistant-projection.ts\<close>: consecutive assistant parts
  share a message until a user message comes or a part closes it. The loop's state is the list of
  finished messages and the open assistant message. \<open>split_items\<close> is the specification: the runs of
  items that make up one message each.
\<close>

definition flushAssistant :: "message list \<times> message option \<Rightarrow> message list \<times> message option" where
  "flushAssistant s = (case s of (ms, None) \<Rightarrow> (ms, None) | (ms, Some m) \<Rightarrow> (ms @ [m], None))"

lemma flushAssistant_simps [simp]:
  "flushAssistant (ms, None) = (ms, None)" "flushAssistant (ms, Some m) = (ms @ [m], None)"
  by (simp_all add: flushAssistant_def)

definition open_message :: "jsstring \<Rightarrow> part \<Rightarrow> message" where
  "open_message t p = \<lparr>msg_id = jstr ''assistant-'' @ (case eventIds p of i # _ \<Rightarrow> i | [] \<Rightarrow> jstr ''undefined''),
     msg_role = Assistant, createdAt = t, parts = []\<rparr>"

fun fold_step :: "message list \<times> message option \<Rightarrow> item \<Rightarrow> message list \<times> message option" where
  "fold_step s (UserItem t n m) = (fst (flushAssistant s) @ [m], None)"
| "fold_step (ms, a) (AssistantItem t n p c) =
     (let m = opt_default a (open_message t p);
          m' = m\<lparr>parts := parts m @ [p]\<rparr>
      in if c then flushAssistant (ms, Some m') else (ms, Some m'))"

definition foldItemsIntoMessages :: "item list \<Rightarrow> message list" where
  "foldItemsIntoMessages xs = fst (flushAssistant (foldl fold_step ([], None) xs))"

subsection \<open>Specification: runs of items\<close>

fun is_user :: "item \<Rightarrow> bool" where
  "is_user (UserItem t n m) = True"
| "is_user (AssistantItem t n p c) = False"

fun closes :: "item \<Rightarrow> bool" where
  "closes (UserItem t n m) = True"
| "closes (AssistantItem t n p c) = c"

text \<open>A run ends after a closing item and before a user item.\<close>

fun split_items :: "item list \<Rightarrow> item list list" where
  "split_items [] = []"
| "split_items (x # xs) =
     (if is_user x \<or> closes x then [x] # split_items xs
      else (case split_items xs of
              [] \<Rightarrow> [[x]]
            | r # rs \<Rightarrow> if is_user (hd r) then [x] # r # rs else (x # r) # rs))"

fun message_of_run :: "item list \<Rightarrow> message" where
  "message_of_run (UserItem t n m # r) = m"
| "message_of_run (AssistantItem t n p c # r) =
     (open_message t p)\<lparr>parts := p # map item_part r\<rparr>"
| "message_of_run [] = undefined"

lemma split_items_nonempty: "r \<in> set (split_items xs) \<Longrightarrow> r \<noteq> []"
  by (induction xs arbitrary: r) (auto split: list.splits if_splits)

lemma concat_split_items [simp]: "concat (split_items xs) = xs"
  by (induction xs) (auto split: list.splits if_splits)

text \<open>The runs are as the specification says: a user item is alone in its run, and only the last
  item of a run closes it.\<close>

lemma split_items_user: "r \<in> set (split_items xs) \<Longrightarrow> x \<in> set r \<Longrightarrow> is_user x \<Longrightarrow> r = [x]"
proof (induction xs arbitrary: r)
  case Nil
  then show ?case by simp
next
  case (Cons y ys)
  show ?case
  proof (cases "is_user y \<or> closes y")
    case True
    with Cons show ?thesis by auto
  next
    case False
    show ?thesis
    proof (cases "split_items ys")
      case Nil
      with Cons.prems False show ?thesis by auto
    next
      case (Cons q qs)
      have q: "x \<in> set q \<Longrightarrow> q = [x]" using Cons.IH [of q] Cons.prems(3) Cons by simp
      have qs: "r \<in> set qs \<Longrightarrow> r = [x]" using Cons.IH [of r] Cons.prems Cons by simp
      from Cons.prems False Cons q qs show ?thesis by (auto split: if_splits)
    qed
  qed
qed

lemma split_items_closes: "r \<in> set (split_items xs) \<Longrightarrow> x \<in> set (butlast r) \<Longrightarrow> \<not> closes x"
proof (induction xs arbitrary: r)
  case Nil
  then show ?case by simp
next
  case (Cons y ys)
  show ?case
  proof (cases "is_user y \<or> closes y")
    case True
    with Cons show ?thesis by auto
  next
    case False
    show ?thesis
    proof (cases "split_items ys")
      case Nil
      with Cons.prems False show ?thesis by auto
    next
      case (Cons q qs)
      have q: "x \<in> set (butlast q) \<Longrightarrow> \<not> closes x" using Cons.IH [of q] Cons by simp
      have qs: "r \<in> set qs \<Longrightarrow> \<not> closes x" using Cons.IH [of r] Cons.prems Cons by simp
      from Cons.prems False Cons q qs show ?thesis by (auto split: if_splits)
    qed
  qed
qed

subsection \<open>The loop implements the specification\<close>

text \<open>From an open message, the loop first completes it with the parts up to the next boundary.\<close>

lemma fold_from:
  "fst (flushAssistant (foldl fold_step (ms, a) xs)) =
     ms @ (case a of
             None \<Rightarrow> map message_of_run (split_items xs)
           | Some m \<Rightarrow>
               (case split_items xs of
                  [] \<Rightarrow> [m]
                | r # rs \<Rightarrow>
                    if is_user (hd r) then m # map message_of_run (r # rs)
                    else (m\<lparr>parts := parts m @ map item_part r\<rparr>) # map message_of_run rs))"
proof (induction xs arbitrary: ms a)
  case Nil
  show ?case by (simp split: option.split)
next
  case (Cons x xs)
  have hd_ne: "split_items xs = r # rs \<Longrightarrow> r \<noteq> []" for r rs
    using split_items_nonempty [of r xs] by simp
  show ?case
  proof (cases x)
    case (UserItem t n m)
    then show ?thesis
      by (simp add: Cons.IH split: option.split)
  next
    case (AssistantItem t n p c)
    then show ?thesis
      using hd_ne
      by (cases a) (auto simp: Cons.IH Let_def open_message_def neq_Nil_conv
          split: list.split item.splits)
  qed
qed

lemma foldItems_runs: "foldItemsIntoMessages xs = map message_of_run (split_items xs)"
  by (simp add: foldItemsIntoMessages_def fold_from)

lemma message_of_run_parts:
  "r \<noteq> [] \<Longrightarrow> \<forall>x\<in>set (tl r). \<not> is_user x \<Longrightarrow>
   parts (message_of_run r) = concat (map (\<lambda>x. case x of UserItem t n m \<Rightarrow> parts m
     | AssistantItem t n p c \<Rightarrow> [p]) (if is_user (hd r) then [hd r] else r))"
proof (induction r rule: message_of_run.induct)
  case (2 t n p c r)
  have "\<forall>x\<in>set r. \<not> is_user x \<Longrightarrow>
    concat (map (\<lambda>x. case x of UserItem t n m \<Rightarrow> parts m | AssistantItem t n p c \<Rightarrow> [p]) r) =
    map item_part r"
    by (induction r) (auto split: item.splits)
  with 2 show ?case by (simp add: open_message_def)
qed simp_all

end
