(* ===== verification/Header.thy ===== *)
theory Header
  imports Parts
begin

section \<open>The thread header\<close>

text \<open>
  \<open>latestThreadTitle\<close> and \<open>projectHeader\<close> of \<^verbatim>\<open>web/src/lib/assistant-projection.ts\<close>. The source
  walks the events from the last to the first; the model recurses over the reversed list.
\<close>

text \<open>The title one event contributes: the trimmed name, when it is not blank.\<close>

definition event_title :: "event_record \<Rightarrow> jsstring option" where
  "event_title e =
     (if event_type e \<noteq> Some (jstr ''thread_name_updated'') then None
      else (case opt_or (str (msgOf e) ''thread_name'') (str (msgOf e) ''title'') of
              None \<Rightarrow> None
            | Some t \<Rightarrow> if trim t \<noteq> [] then Some (trim t) else None))"

fun title_from_last :: "event_record list \<Rightarrow> jsstring option" where
  "title_from_last [] = None"
| "title_from_last (e # es) =
     (case event_title e of Some t \<Rightarrow> Some t | None \<Rightarrow> title_from_last es)"

definition latestThreadTitle :: "event_record list \<Rightarrow> jsstring option" where
  "latestThreadTitle es = title_from_last (rev es)"

definition projectHeader :: "session_detail \<Rightarrow> event_record list \<Rightarrow> header" where
  "projectHeader d es =
     (let s = session_of d; cs = client_source_of d;
          t = opt_default (opt_or (latestThreadTitle es) (map_option trim (s_title s))) []
      in \<lparr>hd_title = (if t \<noteq> [] then t else jstr ''thread '' @ s_thread_id s),
          subtitle = client_name cs @ jstr '' | pid '' @ show_int (pid cs) @ jstr '' | ''
            @ s_thread_id s,
          badges = filter (\<lambda>b. b \<noteq> []) (List.map_filter id [model s, s_status s]),
          hd_threadId = s_thread_id s,
          clientName = client_name cs,
          clientPid = pid cs,
          hd_model = model s,
          hd_status = s_status s,
          approvalPolicy = approval_policy s,
          hd_sandbox = sandbox s,
          hd_cwd = s_cwd s,
          firstSeen = first_seen s,
          lastSeen = last_seen s\<rparr>)"

lemma title_from_last_append:
  "title_from_last (xs @ ys) = opt_or (title_from_last xs) (title_from_last ys)"
  by (induction xs) (simp_all split: option.split)

lemma latestThreadTitle_snoc:
  "latestThreadTitle (es @ [e]) = opt_or (event_title e) (latestThreadTitle es)"
  by (cases "event_title e") (simp_all add: latestThreadTitle_def)

lemma title_from_last_None: "title_from_last es = None \<longleftrightarrow> (\<forall>e\<in>set es. event_title e = None)"
  by (induction es) (auto split: option.splits)

lemma title_from_last_SomeD:
  "title_from_last es = Some t \<Longrightarrow>
   \<exists>xs e ys. es = xs @ e # ys \<and> event_title e = Some t \<and> (\<forall>x\<in>set xs. event_title x = None)"
proof (induction es)
  case (Cons e es)
  show ?case
  proof (cases "event_title e")
    case None
    then obtain xs d ys where "es = xs @ d # ys" "event_title d = Some t"
        "\<forall>x\<in>set xs. event_title x = None"
      using Cons by auto
    with None have "e # es = (e # xs) @ d # ys \<and> event_title d = Some t \<and>
        (\<forall>x\<in>set (e # xs). event_title x = None)" by simp
    then show ?thesis by blast
  next
    case (Some u)
    with Cons.prems have "e # es = [] @ e # es \<and> event_title e = Some t \<and>
        (\<forall>x\<in>set []. event_title x = None)" by simp
    then show ?thesis by blast
  qed
qed simp

lemma title_from_last_SomeI:
  "\<forall>x\<in>set xs. event_title x = None \<Longrightarrow> event_title e = Some t \<Longrightarrow>
   title_from_last (xs @ e # ys) = Some t"
  using title_from_last_None [of xs] by (simp add: title_from_last_append)

lemma latestThreadTitle_Some:
  "latestThreadTitle es = Some t \<longleftrightarrow>
     (\<exists>xs e ys. es = xs @ e # ys \<and> event_title e = Some t \<and> (\<forall>y\<in>set ys. event_title y = None))"
proof
  assume "latestThreadTitle es = Some t"
  then obtain xs e ys where r: "rev es = xs @ e # ys" and e: "event_title e = Some t"
      "\<forall>x\<in>set xs. event_title x = None"
    unfolding latestThreadTitle_def using title_from_last_SomeD by blast
  from r have "es = rev ys @ e # rev xs" by (metis append.assoc append_Cons append_Nil
      rev.simps(2) rev_append rev_rev_ident)
  with e show "\<exists>xs e ys. es = xs @ e # ys \<and> event_title e = Some t \<and>
      (\<forall>y\<in>set ys. event_title y = None)" by (metis set_rev)
next
  assume "\<exists>xs e ys. es = xs @ e # ys \<and> event_title e = Some t \<and> (\<forall>y\<in>set ys. event_title y = None)"
  then obtain xs e ys where "es = xs @ e # ys" "event_title e = Some t"
      "\<forall>y\<in>set ys. event_title y = None" by blast
  then show "latestThreadTitle es = Some t"
    using title_from_last_SomeI [of "rev ys" e t "rev xs"] by (simp add: latestThreadTitle_def)
qed

lemma latestThreadTitle_None: "latestThreadTitle es = None \<longleftrightarrow> (\<forall>e\<in>set es. event_title e = None)"
  by (simp add: latestThreadTitle_def title_from_last_None)

lemma event_title_trimmed: "event_title e = Some t \<Longrightarrow> t \<noteq> [] \<and> trim t = t"
  by (auto simp: event_title_def split: if_splits option.splits)

lemma latestThreadTitle_trimmed: "latestThreadTitle es = Some t \<Longrightarrow> t \<noteq> [] \<and> trim t = t"
  by (auto simp: latestThreadTitle_Some dest: event_title_trimmed)

end
