(* ===== verification/Js_Sort.thy ===== *)
theory Js_Sort
  imports Prelude
begin

section \<open>Comparators, \<open>Array.prototype.sort\<close> and \<open>localeCompare\<close>\<close>

text \<open>
  \<open>Array.prototype.sort\<close> is a stable sort. For a comparator that is a total preorder the result is
  determined: the lemmas of the locale \<open>comparator\<close> show that the insertion sort \<open>js_sort\<close> is
  sorted and stable, and that a sorted, stable list is equal to it.

  \<open>String.prototype.localeCompare\<close> depends on the locale data of the browser. The development
  takes it as a parameter \<open>lc\<close> and relies on what ECMA-402 requires of it: the laws of the locale
  \<open>collation\<close>. \<open>compare_units\<close> is one such function, used for the witnesses.
\<close>

fun js_insert :: "('a \<Rightarrow> 'a \<Rightarrow> int) \<Rightarrow> 'a \<Rightarrow> 'a list \<Rightarrow> 'a list" where
  "js_insert cmp x [] = [x]"
| "js_insert cmp x (y # ys) = (if cmp x y \<le> 0 then x # y # ys else y # js_insert cmp x ys)"

fun js_sort :: "('a \<Rightarrow> 'a \<Rightarrow> int) \<Rightarrow> 'a list \<Rightarrow> 'a list" where
  "js_sort cmp [] = []"
| "js_sort cmp (x # xs) = js_insert cmp x (js_sort cmp xs)"

lemma mset_js_insert [simp]: "mset (js_insert cmp x ys) = add_mset x (mset ys)"
  by (induction ys) simp_all

lemma mset_js_sort [simp]: "mset (js_sort cmp xs) = mset xs"
  by (induction xs) simp_all

lemma set_js_sort [simp]: "set (js_sort cmp xs) = set xs"
  by (metis mset_js_sort set_mset_mset)

lemma length_js_sort [simp]: "length (js_sort cmp xs) = length xs"
  by (metis mset_js_sort size_mset)

lemma distinct_map_js_sort [simp]: "distinct (map f (js_sort cmp xs)) = distinct (map f xs)"
  by (metis mset_js_sort mset_map mset_eq_imp_distinct_iff)

lemma js_insert_map:
  "(\<And>y. y \<in> set ys \<Longrightarrow> cmp' (f x) (f y) \<le> 0 \<longleftrightarrow> cmp x y \<le> 0) \<Longrightarrow>
   js_insert cmp' (f x) (map f ys) = map f (js_insert cmp x ys)"
  by (induction ys) simp_all

text \<open>Only the sign of the comparisons matters: relabelling the elements commutes with sorting.\<close>

lemma js_sort_map:
  "(\<And>x y. x \<in> set xs \<Longrightarrow> y \<in> set xs \<Longrightarrow> cmp' (f x) (f y) \<le> 0 \<longleftrightarrow> cmp x y \<le> 0) \<Longrightarrow>
   js_sort cmp' (map f xs) = map f (js_sort cmp xs)"
proof (induction xs)
  case (Cons x xs)
  then have "js_sort cmp' (map f (x # xs)) = js_insert cmp' (f x) (map f (js_sort cmp xs))"
    by simp
  also have "\<dots> = map f (js_insert cmp x (js_sort cmp xs))"
    by (rule js_insert_map) (use Cons.prems in auto)
  finally show ?case by simp
qed simp

locale comparator =
  fixes cmp :: "'a \<Rightarrow> 'a \<Rightarrow> int"
  assumes cmp_refl: "cmp x x = 0"
    and cmp_sgn: "sgn (cmp y x) = - sgn (cmp x y)"
    and cmp_trans: "cmp x y \<le> 0 \<Longrightarrow> cmp y z \<le> 0 \<Longrightarrow> cmp x z \<le> 0"
begin

lemma cmp_le_flip: "\<not> cmp x y \<le> 0 \<Longrightarrow> cmp y x \<le> 0"
  using cmp_sgn [of y x] by (auto simp: sgn_if split: if_splits)

lemma cmp_zero_flip: "cmp x y = 0 \<longleftrightarrow> cmp y x = 0"
  using cmp_sgn [of y x] by (auto simp: sgn_if split: if_splits)

lemma cmp_zero_iff: "cmp x y = 0 \<longleftrightarrow> cmp x y \<le> 0 \<and> cmp y x \<le> 0"
  using cmp_sgn [of y x] by (auto simp: sgn_if split: if_splits)

lemma cmp_neg_flip: "cmp x y < 0 \<longleftrightarrow> \<not> cmp y x \<le> 0"
  using cmp_sgn [of y x] by (auto simp: sgn_if split: if_splits)

lemma cmp_less_le_trans: "cmp x y < 0 \<Longrightarrow> cmp y z \<le> 0 \<Longrightarrow> cmp x z < 0"
  by (metis cmp_neg_flip cmp_trans)

lemma cmp_le_less_trans: "cmp x y \<le> 0 \<Longrightarrow> cmp y z < 0 \<Longrightarrow> cmp x z < 0"
  by (metis cmp_neg_flip cmp_trans)

lemma cmp_zero_trans: "cmp x y = 0 \<Longrightarrow> cmp y z = 0 \<Longrightarrow> cmp x z = 0"
  by (metis cmp_trans cmp_zero_iff)

lemma cmp_zero_cong: "cmp x y = 0 \<Longrightarrow> cmp x z = 0 \<longleftrightarrow> cmp y z = 0"
  by (metis cmp_zero_flip cmp_zero_trans)

lemma sorted_js_insert:
  "sorted_wrt (\<lambda>x y. cmp x y \<le> 0) ys \<Longrightarrow> sorted_wrt (\<lambda>x y. cmp x y \<le> 0) (js_insert cmp x ys)"
proof (induction ys)
  case Nil
  show ?case by simp
next
  case (Cons y ys)
  have set_ins: "set (js_insert cmp x ys) = insert x (set ys)"
    by (metis mset_js_insert set_mset_add_mset_insert set_mset_mset)
  show ?case
    using Cons cmp_le_flip by (auto simp: set_ins intro: cmp_trans)
qed

lemma sorted_js_sort: "sorted_wrt (\<lambda>x y. cmp x y \<le> 0) (js_sort cmp xs)"
  by (induction xs) (simp_all add: sorted_js_insert)

lemma js_sort_sorted: "sorted_wrt (\<lambda>x y. cmp x y \<le> 0) xs \<Longrightarrow> js_sort cmp xs = xs"
proof (induction xs)
  case (Cons x xs)
  then have "js_sort cmp xs = xs" by simp
  with Cons.prems show ?case by (cases xs) simp_all
qed simp

lemma js_sort_idem: "js_sort cmp (js_sort cmp xs) = js_sort cmp xs"
  by (rule js_sort_sorted) (rule sorted_js_sort)

lemma stable_js_insert:
  "filter (\<lambda>y. cmp z y = 0) (js_insert cmp x ys) =
     (if cmp z x = 0 then [x] else []) @ filter (\<lambda>y. cmp z y = 0) ys"
proof (induction ys)
  case (Cons y ys)
  have "cmp z x = 0 \<Longrightarrow> cmp z y = 0 \<Longrightarrow> cmp x y \<le> 0"
    by (metis cmp_zero_cong cmp_zero_flip order_refl)
  with Cons show ?case by auto
qed simp

lemma stable_js_sort: "filter (\<lambda>y. cmp z y = 0) (js_sort cmp xs) = filter (\<lambda>y. cmp z y = 0) xs"
  by (induction xs) (simp_all add: stable_js_insert)

lemma comparator_image: "comparator (\<lambda>x y. cmp (f x) (f y))"
proof
  show "cmp (f x) (f x) = 0" for x by (rule cmp_refl)
  show "sgn (cmp (f y) (f x)) = - sgn (cmp (f x) (f y))" for x y by (rule cmp_sgn)
  show "cmp (f x) (f z) \<le> 0" if "cmp (f x) (f y) \<le> 0" "cmp (f y) (f z) \<le> 0" for x y z
    using that by (rule cmp_trans)
qed

text \<open>A sorted list is determined by its classes of equal elements.\<close>

lemma sorted_classes_unique:
  assumes "sorted_wrt (\<lambda>x y. cmp x y \<le> 0) xs" "sorted_wrt (\<lambda>x y. cmp x y \<le> 0) ys"
    and "\<And>z. filter (\<lambda>y. cmp z y = 0) xs = filter (\<lambda>y. cmp z y = 0) ys"
  shows "xs = ys"
  using assms
proof (induction xs arbitrary: ys)
  case Nil
  then have "filter (\<lambda>y. cmp (hd ys) y = 0) ys = []" by (metis filter.simps(1))
  then show ?case by (cases ys) (simp_all add: cmp_refl)
next
  case (Cons x xs)
  have "x \<in> set (filter (\<lambda>y. cmp x y = 0) (x # xs))" by (simp add: cmp_refl)
  then have "x \<in> set ys" unfolding Cons.prems(3) by simp
  then obtain y ys' where ys: "ys = y # ys'" by (cases ys) auto
  have "y \<in> set (filter (\<lambda>w. cmp y w = 0) ys)" by (simp add: ys cmp_refl)
  then have "y \<in> set (x # xs)" unfolding Cons.prems(3) [symmetric] by (auto split: if_splits)
  then have "cmp x y \<le> 0" using Cons.prems(1) by (auto simp: cmp_refl)
  moreover have "cmp y x \<le> 0"
    using \<open>x \<in> set ys\<close> Cons.prems(2) by (auto simp: ys cmp_refl)
  ultimately have "cmp x y = 0" by (simp add: cmp_zero_iff)
  then have "x = y" using Cons.prems(3) [of x] by (simp add: ys cmp_refl)
  have "filter (\<lambda>w. cmp z w = 0) xs = filter (\<lambda>w. cmp z w = 0) ys'" for z
    using Cons.prems(3) [of z] by (simp add: ys \<open>x = y\<close> split: if_splits)
  then have "xs = ys'" using Cons.IH [of ys'] Cons.prems(1,2) by (simp add: ys)
  then show ?case by (simp add: ys \<open>x = y\<close>)
qed

lemma js_sort_unique:
  assumes "sorted_wrt (\<lambda>x y. cmp x y \<le> 0) ys"
    and "\<And>z. filter (\<lambda>y. cmp z y = 0) ys = filter (\<lambda>y. cmp z y = 0) xs"
  shows "ys = js_sort cmp xs"
  by (rule sorted_classes_unique) (simp_all add: assms sorted_js_sort stable_js_sort)

lemma js_sort_filter: "js_sort cmp (filter P xs) = filter P (js_sort cmp xs)"
proof (rule js_sort_unique [symmetric])
  show "sorted_wrt (\<lambda>x y. cmp x y \<le> 0) (filter P (js_sort cmp xs))"
    by (rule sorted_wrt_filter) (rule sorted_js_sort)
  show "filter (\<lambda>y. cmp z y = 0) (filter P (js_sort cmp xs)) =
      filter (\<lambda>y. cmp z y = 0) (filter P xs)" for z
    by (metis (no_types, lifting) filter_filter conj_commute filter_cong stable_js_sort)
qed

end

subsection \<open>Collations\<close>

locale collation = comparator lc for lc :: "jsstring \<Rightarrow> jsstring \<Rightarrow> int"

text \<open>A collation that tells different strings apart.\<close>

locale strict_collation = collation +
  assumes lc_zero: "lc a b = 0 \<Longrightarrow> a = b"

fun compare_units :: "jsstring \<Rightarrow> jsstring \<Rightarrow> int" where
  "compare_units [] [] = 0"
| "compare_units [] (b # bs) = - 1"
| "compare_units (a # as) [] = 1"
| "compare_units (a # as) (b # bs) =
     (if a < b then - 1 else if b < a then 1 else compare_units as bs)"

lemma compare_units_sgn: "sgn (compare_units b a) = - sgn (compare_units a b)"
  by (induction a b rule: compare_units.induct) auto

lemma compare_units_zero: "compare_units a b = 0 \<Longrightarrow> a = b"
  by (induction a b rule: compare_units.induct) (auto split: if_splits)

lemma compare_units_trans:
  "compare_units a b \<le> 0 \<Longrightarrow> compare_units b c \<le> 0 \<Longrightarrow> compare_units a c \<le> 0"
proof (induction a b arbitrary: c rule: compare_units.induct)
  case (2 b bs)
  then show ?case by (cases c) simp_all
next
  case (4 a as b bs)
  show ?case
  proof (cases c)
    case Nil
    with 4 show ?thesis by simp
  next
    case (Cons d ds)
    with 4 show ?thesis by (auto split: if_splits)
  qed
qed simp_all

lemma compare_units_refl: "compare_units a a = 0"
  by (induction a) simp_all

interpretation units: strict_collation compare_units
  by unfold_locales
    (simp_all add: compare_units_refl compare_units_sgn [symmetric] compare_units_zero,
     auto intro: compare_units_sgn compare_units_trans)

end
