(* ===== verification/Projection.thy ===== *)
theory Projection
  imports Buckets Streams Messages Header Js_Sort
begin

section \<open>The projection of a session's events\<close>

text \<open>
  \<open>projectReadonlyAssistantThread\<close> of \<^verbatim>\<open>web/src/lib/assistant-projection.ts\<close>: one pass over the
  events with the local variables of the function as its state, then the buckets, the sort and
  the fold into messages. The \<open>switch\<close> over \<open>event_type\<close> is the table \<open>switch_table\<close>: a row per
  \<open>case\<close> label, its body named by a constructor of \<open>switch_case\<close>. The ten maps of begin/end pairs
  are indexed by \<open>pair_store\<close>.
\<close>

datatype pair_store = McpToolB | WebSearchB | ImageGenerationB | PatchB | DynamicToolB
  | CollabSpawnB | CollabInteractionB | CollabWaitB | CollabCloseB | CollabResumeB

record projection_state =
  p_items :: "item list"
  execBuckets :: "(jsstring, exec_bucket) jsmap"
  pairBuckets :: "pair_store \<Rightarrow> (jsstring, pair_bucket) jsmap"
  messageStreams :: stream_store
  reasoningStreams :: stream_store

definition initial_projection :: projection_state where
  "initial_projection = \<lparr>p_items = [], execBuckets = [], pairBuckets = (\<lambda>_. []),
     messageStreams = [], reasoningStreams = []\<rparr>"

datatype switch_case =
    CUserMessage
  | CAgentMessage
  | CReasoning reasoning_variant
  | CMessageDelta
  | CReasoningDelta reasoning_variant
  | CSectionBreak
  | CExecBegin | CExecOutput | CExecInteraction | CExecEnd
  | CPairBegin pair_store
  | CPairEnd pair_store
  | CViewImage
  | CPlanUpdate
  | CPlanDelta

definition switch_table :: "(string \<times> switch_case) list" where
  "switch_table =
     [(''user_message'', CUserMessage),
      (''agent_message'', CAgentMessage),
      (''agent_reasoning'', CReasoning Reasoning),
      (''agent_reasoning_raw_content'', CReasoning RawContent),
      (''agent_message_delta'', CMessageDelta),
      (''agent_message_content_delta'', CMessageDelta),
      (''agent_reasoning_delta'', CReasoningDelta Reasoning),
      (''reasoning_content_delta'', CReasoningDelta Reasoning),
      (''agent_reasoning_raw_content_delta'', CReasoningDelta RawContent),
      (''reasoning_raw_content_delta'', CReasoningDelta RawContent),
      (''agent_reasoning_section_break'', CSectionBreak),
      (''exec_command_begin'', CExecBegin),
      (''exec_command_output_delta'', CExecOutput),
      (''terminal_interaction'', CExecInteraction),
      (''exec_command_end'', CExecEnd),
      (''mcp_tool_call_begin'', CPairBegin McpToolB),
      (''mcp_tool_call_end'', CPairEnd McpToolB),
      (''web_search_begin'', CPairBegin WebSearchB),
      (''web_search_end'', CPairEnd WebSearchB),
      (''image_generation_begin'', CPairBegin ImageGenerationB),
      (''image_generation_end'', CPairEnd ImageGenerationB),
      (''patch_apply_begin'', CPairBegin PatchB),
      (''patch_apply_end'', CPairEnd PatchB),
      (''dynamic_tool_call_request'', CPairBegin DynamicToolB),
      (''dynamic_tool_call_response'', CPairEnd DynamicToolB),
      (''view_image_tool_call'', CViewImage),
      (''plan_update'', CPlanUpdate),
      (''plan_delta'', CPlanDelta),
      (''collab_agent_spawn_begin'', CPairBegin CollabSpawnB),
      (''collab_agent_spawn_end'', CPairEnd CollabSpawnB),
      (''collab_agent_interaction_begin'', CPairBegin CollabInteractionB),
      (''collab_agent_interaction_end'', CPairEnd CollabInteractionB),
      (''collab_waiting_begin'', CPairBegin CollabWaitB),
      (''collab_waiting_end'', CPairEnd CollabWaitB),
      (''collab_close_begin'', CPairBegin CollabCloseB),
      (''collab_close_end'', CPairEnd CollabCloseB),
      (''collab_resume_begin'', CPairBegin CollabResumeB),
      (''collab_resume_end'', CPairEnd CollabResumeB)]"

text \<open>\<open>switch (eventType)\<close>; \<open>None\<close> is the \<open>default\<close> branch.\<close>

definition switch_on :: "jsstring option \<Rightarrow> switch_case option" where
  "switch_on t = (case t of
     None \<Rightarrow> None
   | Some s \<Rightarrow> map_of (map (\<lambda>(k, c). (jstr k, c)) switch_table) s)"

subsection \<open>The bodies of the cases\<close>

definition projectAssistantPart :: "event_record \<Rightarrow> int \<Rightarrow> part \<Rightarrow> bool \<Rightarrow> item" where
  "projectAssistantPart e order p close = AssistantItem (timestamp e) order p close"

definition projectUserMessage :: "event_record \<Rightarrow> int \<Rightarrow> item" where
  "projectUserMessage e order =
     (let m = msgOf e;
          text = opt_default (str m ''message'') [];
          images = only_strings (list m ''images'');
          localImages = only_strings (list m ''local_images'');
          textElements = list m ''text_elements'';
          ps = (if length (trim text) > 0 then [TextPart text None JUndef [event_id e]] else [])
            @ (if length images > 0 \<or> length localImages > 0 \<or> length textElements > 0
               then [UnknownPart (jstr ''user_inputs'') (jstr ''User inputs'')
                       (JObj ((if length images > 0
                               then [(jstr ''images'', JArr (map JStr images))] else [])
                            @ (if length localImages > 0
                               then [(jstr ''local_images'', JArr (map JStr localImages))] else [])
                            @ (if length textElements > 0
                               then [(jstr ''text_elements'', JArr textElements)] else [])))
                       [event_id e]]
               else [])
      in UserItem (timestamp e) order
           \<lparr>msg_id = jstr ''user-'' @ event_id e, msg_role = User, createdAt = timestamp e,
            parts = (if length ps = 0 then [TextPart text None JUndef [event_id e]] else ps)\<rparr>)"

definition projectMcpMethod :: "event_record \<Rightarrow> int \<Rightarrow> item option" where
  "projectMcpMethod e order =
     (case event_type e of
        None \<Rightarrow> None
      | Some meth \<Rightarrow>
          if meth = [] \<or> category e = jstr ''codex_event'' then None
          else let ps = asRecord (field (asRecord (payload e)) ''params'');
                   title = (case str ps ''name'' of
                              Some name \<Rightarrow> if meth = jstr ''tools/call''
                                then meth @ jstr '': '' @ name else meth
                            | None \<Rightarrow> meth)
               in Some (projectAssistantPart e order
                    (McpMethodPart meth title ps [event_id e]) False))"

definition plan_step_of :: "js \<Rightarrow> plan_step" where
  "plan_step_of v = (let r = asRecord v in
     \<lparr>step_text = opt_default (opt_or (str r ''step'') (str r ''summary'')) [],
      step_status = opt_default (str r ''status'') (jstr ''pending'')\<rparr>)"

text \<open>The branches after the \<open>switch\<close>: approval, lifecycle, MCP method, unknown, nothing.\<close>

definition default_item :: "event_record \<Rightarrow> int \<Rightarrow> item option" where
  "default_item e order =
     (let t = opt_default (event_type e) []; m = msgOf e in
      if t \<noteq> [] \<and> approval_type t
      then Some (projectAssistantPart e order
             (ApprovalPart (jstr ''Approval required'') t (str m ''reason'')
                (only_strings (list m ''command'')) (str m ''cwd'') [event_id e]) False)
      else if t \<noteq> [] \<and> truthy (lifecycle_title t)
      then Some (projectAssistantPart e order
             (LifecyclePart t (lifecycle_title t) (stripTypeField m) [event_id e]) False)
      else (case projectMcpMethod e order of
              Some i \<Rightarrow> Some i
            | None \<Rightarrow>
                if t \<noteq> []
                then Some (projectAssistantPart e order
                       (UnknownPart t t (payload e) [event_id e]) False)
                else None))"

text \<open>\<open>getBucket(store, id, create)\<close> followed by the assignment the case makes to the bucket.\<close>

definition mutateBucket :: "(jsstring, 'b) jsmap \<Rightarrow> jsstring \<Rightarrow> 'b \<Rightarrow> ('b \<Rightarrow> 'b) \<Rightarrow> (jsstring, 'b) jsmap" where
  "mutateBucket store bid create f = map_put store bid (f (opt_default (map_get store bid) create))"

definition push :: "item \<Rightarrow> projection_state \<Rightarrow> projection_state" where
  "push i st = st\<lparr>p_items := p_items st @ [i]\<rparr>"

definition onExec :: "event_record \<Rightarrow> (exec_bucket \<Rightarrow> exec_bucket) \<Rightarrow> projection_state \<Rightarrow> projection_state" where
  "onExec e f st = st\<lparr>execBuckets := mutateBucket (execBuckets st) (bucketId e) new_exec_bucket f\<rparr>"

definition onPair :: "pair_store \<Rightarrow> event_record \<Rightarrow> (pair_bucket \<Rightarrow> pair_bucket) \<Rightarrow> projection_state \<Rightarrow> projection_state" where
  "onPair s e f st = st\<lparr>pairBuckets := (pairBuckets st)
     (s := mutateBucket (pairBuckets st s) (bucketId e) new_pair_bucket f)\<rparr>"

fun run_case :: "switch_case \<Rightarrow> event_record \<Rightarrow> int \<Rightarrow> projection_state \<Rightarrow> projection_state" where
  "run_case CUserMessage e n st = push (projectUserMessage e n) st"
| "run_case CAgentMessage e n st =
     push (projectAssistantPart e n
            (TextPart (opt_default (str (msgOf e) ''message'') []) (str (msgOf e) ''phase'')
               (field (msgOf e) ''memory_citation'') [event_id e]) True)
       (st\<lparr>messageStreams := terminateStream (messageStreams st) e\<rparr>)"
| "run_case (CReasoning v) e n st =
     push (projectAssistantPart e n
            (ReasoningPart (opt_default (str (msgOf e) ''text'') []) v [event_id e]) False)
       (st\<lparr>reasoningStreams := terminateStream (reasoningStreams st) e\<rparr>)"
| "run_case CMessageDelta e n st =
     st\<lparr>messageStreams := appendStreamChunk (messageStreams st) e n VText\<rparr>"
| "run_case (CReasoningDelta v) e n st =
     st\<lparr>reasoningStreams := appendStreamChunk (reasoningStreams st) e n (VReasoning v)\<rparr>"
| "run_case CSectionBreak e n st =
     push (projectAssistantPart e n
            (LifecyclePart (opt_default (event_type e) []) (lifecycle_title (opt_default (event_type e) []))
               (stripTypeField (msgOf e)) [event_id e]) False) st"
| "run_case CExecBegin e n st = onExec e (\<lambda>b. b\<lparr>exec_begin := Some e\<rparr>) st"
| "run_case CExecOutput e n st = onExec e (\<lambda>b. b\<lparr>exec_outputs := exec_outputs b @ [e]\<rparr>) st"
| "run_case CExecInteraction e n st =
     onExec e (\<lambda>b. b\<lparr>exec_interactions := exec_interactions b @ [e]\<rparr>) st"
| "run_case CExecEnd e n st = onExec e (\<lambda>b. b\<lparr>exec_end := Some e\<rparr>) st"
| "run_case (CPairBegin s) e n st = onPair s e (\<lambda>b. b\<lparr>pair_begin := Some e\<rparr>) st"
| "run_case (CPairEnd s) e n st = onPair s e (\<lambda>b. b\<lparr>pair_end := Some e\<rparr>) st"
| "run_case CViewImage e n st =
     push (projectAssistantPart e n
            (ToolPart ((tool0 ViewImage (jstr ''View image'') Complete)
                         \<lparr>args := stripTypeField (msgOf e)\<rparr>) [event_id e]) False) st"
| "run_case CPlanUpdate e n st =
     push (projectAssistantPart e n
            (PlanPart (jstr ''Plan update'') (str (msgOf e) ''explanation'')
               (map plan_step_of (list (msgOf e) ''plan'')) None [event_id e]) False) st"
| "run_case CPlanDelta e n st =
     push (projectAssistantPart e n
            (PlanPart (jstr ''Plan delta'') None [] (str (msgOf e) ''delta'') [event_id e]) False) st"

definition ignored :: "event_record \<Rightarrow> bool" where
  "ignored e \<longleftrightarrow> category e = jstr ''raw_frame'' \<or> category e = jstr ''response''"

text \<open>One iteration of \<open>events.forEach\<close>.\<close>

definition project_event :: "projection_state \<Rightarrow> nat \<times> event_record \<Rightarrow> projection_state" where
  "project_event st x = (case x of (n, e) \<Rightarrow>
     if ignored e then st
     else (case switch_on (event_type e) of
             Some c \<Rightarrow> run_case c e (int n) st
           | None \<Rightarrow> (case default_item e (int n) of Some i \<Rightarrow> push i st | None \<Rightarrow> st)))"

subsection \<open>After the loop\<close>

text \<open>\<open>for (const [id, bucket] of store) \{ const part = project(id, bucket); if (part) items.push(part) \}\<close>.\<close>

definition bucket_items :: "(jsstring \<Rightarrow> 'b \<Rightarrow> item option) \<Rightarrow> (jsstring, 'b) jsmap \<Rightarrow> item list" where
  "bucket_items f store = List.map_filter (\<lambda>(k, b). f k b) store"

fun projectPair :: "pair_store \<Rightarrow> jsstring \<Rightarrow> pair_bucket \<Rightarrow> item option" where
  "projectPair McpToolB k b = projectMcpToolBucket k b"
| "projectPair WebSearchB k b = projectWebSearchBucket k b"
| "projectPair ImageGenerationB k b = projectImageGenerationBucket k b"
| "projectPair PatchB k b = projectPatchBucket k b"
| "projectPair DynamicToolB k b = projectDynamicToolBucket k b"
| "projectPair CollabSpawnB k b = projectCollabBucket b (jstr ''Spawn agent'')"
| "projectPair CollabInteractionB k b = projectCollabBucket b (jstr ''Send input to agent'')"
| "projectPair CollabWaitB k b = projectCollabBucket b (jstr ''Wait for agents'')"
| "projectPair CollabCloseB k b = projectCollabBucket b (jstr ''Close agent'')"
| "projectPair CollabResumeB k b = projectCollabBucket b (jstr ''Resume agent'')"

text \<open>The stores of pairs, in the order in which the function iterates over them.\<close>

definition pair_stores :: "pair_store list" where
  "pair_stores = [McpToolB, WebSearchB, ImageGenerationB, PatchB, DynamicToolB,
     CollabSpawnB, CollabInteractionB, CollabWaitB, CollabCloseB, CollabResumeB]"

definition all_items :: "projection_state \<Rightarrow> item list" where
  "all_items st = p_items st
     @ bucket_items projectExecBucket (execBuckets st)
     @ concat (map (\<lambda>s. bucket_items (projectPair s) (pairBuckets st s)) pair_stores)
     @ bucket_items projectStreamBucket (messageStreams st)
     @ bucket_items projectStreamBucket (reasoningStreams st)"

text \<open>\<open>left.timestamp.localeCompare(right.timestamp) || left.order - right.order\<close>.\<close>

definition compareItems :: "(jsstring \<Rightarrow> jsstring \<Rightarrow> int) \<Rightarrow> item \<Rightarrow> item \<Rightarrow> int" where
  "compareItems lc x y =
     (let c = lc (item_timestamp x) (item_timestamp y) in
      if c \<noteq> 0 then c else item_order x - item_order y)"

definition run_events :: "event_record list \<Rightarrow> projection_state" where
  "run_events es = foldl project_event initial_projection (enumerate 0 es)"

definition sorted_items :: "(jsstring \<Rightarrow> jsstring \<Rightarrow> int) \<Rightarrow> event_record list \<Rightarrow> item list" where
  "sorted_items lc es = js_sort (compareItems lc) (all_items (run_events es))"

definition projectReadonlyAssistantThread ::
    "(jsstring \<Rightarrow> jsstring \<Rightarrow> int) \<Rightarrow> session_detail \<Rightarrow> event_record list \<Rightarrow> thread" where
  "projectReadonlyAssistantThread lc d es =
     \<lparr>thread_header = projectHeader d es,
      messages = foldItemsIntoMessages (sorted_items lc es)\<rparr>"

subsection \<open>The comparator of the items\<close>

lemma compareItems_le:
  "compareItems lc x y \<le> 0 \<longleftrightarrow>
     lc (item_timestamp x) (item_timestamp y) < 0
     \<or> lc (item_timestamp x) (item_timestamp y) = 0 \<and> item_order x \<le> item_order y"
  by (auto simp: compareItems_def Let_def)

sublocale collation \<subseteq> by_item: comparator "compareItems lc"
proof
  show "compareItems lc x x = 0" for x
    by (simp add: compareItems_def cmp_refl)
  show "sgn (compareItems lc y x) = - sgn (compareItems lc x y)" for x y
    using cmp_zero_flip [of "item_timestamp x" "item_timestamp y"]
      cmp_sgn [of "item_timestamp y" "item_timestamp x"]
    by (auto simp: compareItems_def Let_def sgn_if split: if_splits)
  show "compareItems lc x z \<le> 0" if "compareItems lc x y \<le> 0" "compareItems lc y z \<le> 0" for x y z
    using that unfolding compareItems_le
    by (metis cmp_less_le_trans cmp_le_less_trans cmp_zero_trans order.trans order_le_less)
qed

context collation
begin

lemma sorted_sorted_items: "sorted_wrt (\<lambda>x y. compareItems lc x y \<le> 0) (sorted_items lc es)"
  unfolding sorted_items_def by (rule by_item.sorted_js_sort)

lemma stable_sorted_items:
  "filter (\<lambda>y. compareItems lc z y = 0) (sorted_items lc es) =
     filter (\<lambda>y. compareItems lc z y = 0) (all_items (run_events es))"
  unfolding sorted_items_def by (rule by_item.stable_js_sort)

end

end
