(* ===== verification/Projection_Account.thy ===== *)
theory Projection_Account
  imports Projection
begin

section \<open>Every event is shown at most once\<close>

text \<open>
  The identifiers held by the state of the projection (by its items, buckets and streams) are
  charged to the events: each event that is not ignored adds its own identifier at most once. With
  distinct event identifiers, no two items share an event, no item is empty, and so the messages
  of a thread have distinct identifiers.
\<close>

subsection \<open>The events behind an item\<close>

fun item_sources :: "item \<Rightarrow> jsstring list" where
  "item_sources (AssistantItem t n p c) = eventIds p"
| "item_sources (UserItem t n m) = remdups (message_ids m)"

definition items_held :: "item list \<Rightarrow> jsstring multiset" where
  "items_held xs = (\<Sum>i\<leftarrow>xs. mset (item_sources i))"

lemma items_held_simps [simp]:
  "items_held [] = {#}"
  "items_held (i # xs) = mset (item_sources i) + items_held xs"
  "items_held (xs @ ys) = items_held xs + items_held ys"
  by (simp_all add: items_held_def)

lemma items_held_concat: "items_held xs = mset (concat (map item_sources xs))"
  by (induction xs) simp_all

lemma items_held_mset: "mset xs = mset ys \<Longrightarrow> items_held xs = items_held ys"
  unfolding items_held_def by (metis mset_map sum_mset_sum_list)

definition pairs_held :: "(pair_store \<Rightarrow> (jsstring, pair_bucket) jsmap) \<Rightarrow> jsstring multiset" where
  "pairs_held f = (\<Sum>s\<leftarrow>pair_stores. total (\<lambda>b. mset (pair_ids b)) (f s))"

definition held :: "projection_state \<Rightarrow> jsstring multiset" where
  "held st = items_held (p_items st) + total (\<lambda>b. mset (exec_ids b)) (execBuckets st)
     + pairs_held (pairBuckets st) + stream_held (messageStreams st)
     + stream_held (reasoningStreams st)"

definition charge :: "nat \<times> event_record \<Rightarrow> jsstring multiset" where
  "charge x = (if ignored (snd x) then {#} else {#event_id (snd x)#})"

lemma item_sources_user: "item_sources (projectUserMessage e n) = [event_id e]"
  by (auto simp: projectUserMessage_def message_ids_def Let_def)

lemma item_sources_default: "default_item e n = Some i \<Longrightarrow> item_sources i = [event_id e]"
  by (auto simp: default_item_def projectMcpMethod_def projectAssistantPart_def Let_def
      split: if_splits option.splits)

lemma held_push: "held (push i st) = held st + mset (item_sources i)"
  by (simp add: held_def push_def ac_simps)

lemma mutateBucket_held:
  assumes "\<And>b. mset (ids (f b)) \<subseteq># mset (ids b) + d" and "ids create = []"
  shows "total (\<lambda>b. mset (ids b)) (mutateBucket m k create f) \<subseteq># total (\<lambda>b. mset (ids b)) m + d"
  unfolding mutateBucket_def
proof (rule total_map_put_le)
  show "mset (ids (f (opt_default (map_get m k) create))) \<subseteq>#
      (case map_get m k of None \<Rightarrow> {#} | Some w \<Rightarrow> mset (ids w)) + d"
    using assms(1) [of create] assms(1) assms(2) by (auto split: option.split)
qed

text \<open>Replacing one summand of the account.\<close>

lemma account_replace:
  assumes "s = r + a" and "s' = r + a'" and "a' \<subseteq># a + d"
  shows "s' \<subseteq># s + (d :: 'a multiset)"
  unfolding assms(1,2) using assms(3) by (simp add: add.assoc)

lemma held_onExec:
  assumes "\<And>b. mset (exec_ids (f b)) \<subseteq># mset (exec_ids b) + d"
  shows "held (onExec e f st) \<subseteq># held st + d"
proof (rule account_replace)
  let ?r = "items_held (p_items st) + pairs_held (pairBuckets st) + stream_held (messageStreams st)
    + stream_held (reasoningStreams st)"
  show "held st = ?r + total (\<lambda>b. mset (exec_ids b)) (execBuckets st)"
    by (simp add: held_def ac_simps)
  show "held (onExec e f st) = ?r +
      total (\<lambda>b. mset (exec_ids b)) (mutateBucket (execBuckets st) (bucketId e) new_exec_bucket f)"
    by (simp add: held_def onExec_def ac_simps)
  show "total (\<lambda>b. mset (exec_ids b)) (mutateBucket (execBuckets st) (bucketId e) new_exec_bucket f)
      \<subseteq># total (\<lambda>b. mset (exec_ids b)) (execBuckets st) + d"
    by (rule mutateBucket_held [where ids = exec_ids, OF assms])
      (simp add: exec_ids_def new_exec_bucket_def)
qed

lemma pairs_held_upd:
  "\<exists>r. pairs_held f = r + total (\<lambda>b. mset (pair_ids b)) (f s) \<and>
       (\<forall>m. pairs_held (f(s := m)) = r + total (\<lambda>b. mset (pair_ids b)) m)"
proof -
  have d: "distinct pair_stores" "s \<in> set pair_stores"
    by (simp_all add: pair_stores_def) (cases s; simp)
  then obtain xs ys where xs: "pair_stores = xs @ s # ys" "s \<notin> set xs" "s \<notin> set ys"
    by (metis distinct_append not_distinct_decomp split_list distinct.simps(2) disjoint_iff
        list.set_intros(1))
  let ?t = "\<lambda>m. total (\<lambda>b. mset (pair_ids b)) m"
  let ?r = "(\<Sum>s\<leftarrow>xs. ?t (f s)) + (\<Sum>s\<leftarrow>ys. ?t (f s))"
  have u: "map (\<lambda>x. ?t ((f(s := m)) x)) xs = map (\<lambda>x. ?t (f x)) xs"
    "map (\<lambda>x. ?t ((f(s := m)) x)) ys = map (\<lambda>x. ?t (f x)) ys" for m
    using xs(2,3) by auto
  have "pairs_held (f(s := m)) = ?r + ?t m" for m
    by (simp only: pairs_held_def xs(1) map_append list.map u sum_list_append sum_list.Cons
        fun_upd_same) (simp add: ac_simps)
  moreover have "pairs_held f = ?r + ?t (f s)"
    by (simp add: pairs_held_def xs(1) ac_simps)
  ultimately show ?thesis by blast
qed

lemma held_onPair:
  assumes "\<And>b. mset (pair_ids (f b)) \<subseteq># mset (pair_ids b) + d"
  shows "held (onPair s e f st) \<subseteq># held st + d"
proof -
  let ?t = "\<lambda>m. total (\<lambda>b. mset (pair_ids b)) m"
  let ?m = "mutateBucket (pairBuckets st s) (bucketId e) new_pair_bucket f"
  obtain r where r: "pairs_held (pairBuckets st) = r + ?t (pairBuckets st s)"
      "\<And>m. pairs_held ((pairBuckets st)(s := m)) = r + ?t m"
    using pairs_held_upd [of "pairBuckets st" s] by blast
  let ?r = "items_held (p_items st) + total (\<lambda>b. mset (exec_ids b)) (execBuckets st)
    + stream_held (messageStreams st) + stream_held (reasoningStreams st) + r"
  show ?thesis
  proof (rule account_replace)
    show "held st = ?r + ?t (pairBuckets st s)" by (simp add: held_def r(1) ac_simps)
    show "held (onPair s e f st) = ?r + ?t ?m" by (simp add: held_def onPair_def r(2) ac_simps)
    show "?t ?m \<subseteq># ?t (pairBuckets st s) + d"
      by (rule mutateBucket_held [where ids = pair_ids, OF assms])
        (simp add: pair_ids_def new_pair_bucket_def)
  qed
qed

lemma held_streams:
  assumes "stream_held m' \<subseteq># stream_held (messageStreams st) + d"
  shows "held (st\<lparr>messageStreams := m'\<rparr>) \<subseteq># held st + d"
  by (rule account_replace [where r = "items_held (p_items st)
      + total (\<lambda>b. mset (exec_ids b)) (execBuckets st) + pairs_held (pairBuckets st)
      + stream_held (reasoningStreams st)", OF _ _ assms]) (simp_all add: held_def ac_simps)

lemma held_reasoning:
  assumes "stream_held m' \<subseteq># stream_held (reasoningStreams st) + d"
  shows "held (st\<lparr>reasoningStreams := m'\<rparr>) \<subseteq># held st + d"
  by (rule account_replace [where r = "items_held (p_items st)
      + total (\<lambda>b. mset (exec_ids b)) (execBuckets st) + pairs_held (pairBuckets st)
      + stream_held (messageStreams st)", OF _ _ assms]) (simp_all add: held_def ac_simps)

lemma held_terminate:
  "held (st\<lparr>messageStreams := terminateStream (messageStreams st) e\<rparr>) \<subseteq># held st"
  "held (st\<lparr>reasoningStreams := terminateStream (reasoningStreams st) e\<rparr>) \<subseteq># held st"
  using held_streams [of "terminateStream (messageStreams st) e" st "{#}"]
    held_reasoning [of "terminateStream (reasoningStreams st) e" st "{#}"]
  by (simp_all add: stream_held_terminate)

subsection \<open>Every step charges at most the event's identifier\<close>

lemma held_run_case: "held (run_case c e n st) \<subseteq># held st + {#event_id e#}"
proof (cases c)
  case CUserMessage
  then show ?thesis by (simp add: held_push item_sources_user)
next
  case CAgentMessage
  then show ?thesis
    by (simp add: held_push projectAssistantPart_def held_terminate)
next
  case (CReasoning v)
  then show ?thesis
    by (simp add: held_push projectAssistantPart_def held_terminate)
next
  case CMessageDelta
  then show ?thesis using held_streams [OF stream_held_append] by simp
next
  case (CReasoningDelta v)
  then show ?thesis using held_reasoning [OF stream_held_append] by simp
next
  case CExecBegin
  then show ?thesis
    by (simp only: run_case.simps) (rule held_onExec, simp add: exec_ids_def split: option.split)
next
  case CExecOutput
  then show ?thesis
    by (simp only: run_case.simps) (rule held_onExec, simp add: exec_ids_def split: option.split)
next
  case CExecInteraction
  then show ?thesis
    by (simp only: run_case.simps) (rule held_onExec, simp add: exec_ids_def split: option.split)
next
  case CExecEnd
  then show ?thesis
    by (simp only: run_case.simps) (rule held_onExec, simp add: exec_ids_def split: option.split)
next
  case (CPairBegin s)
  then show ?thesis
    by (simp only: run_case.simps) (rule held_onPair, simp add: pair_ids_def split: option.split)
next
  case (CPairEnd s)
  then show ?thesis
    by (simp only: run_case.simps) (rule held_onPair, simp add: pair_ids_def split: option.split)
qed (simp_all add: held_push projectAssistantPart_def)

lemma held_step: "held (project_event st x) \<subseteq># held st + charge x"
  using held_run_case
  by (cases x)
    (auto simp: project_event_def charge_def held_push item_sources_default split: option.splits)

interpretation account: fold_account project_event held charge
  by unfold_locales (rule held_step)

lemma held_initial: "held initial_projection = {#}"
  by (simp add: held_def initial_projection_def pairs_held_def pair_stores_def stream_held_def)

definition shown_events :: "event_record list \<Rightarrow> event_record list" where
  "shown_events es = filter (\<lambda>e. \<not> ignored e) es"

lemma sum_charge: "(\<Sum>x\<leftarrow>enumerate n es. charge x) = mset (map event_id (shown_events es))"
  by (induction es arbitrary: n) (simp_all add: charge_def shown_events_def)

lemma held_run_events: "held (run_events es) \<subseteq># mset (map event_id (shown_events es))"
  using account.foldl_account [of initial_projection "enumerate 0 es"]
  by (simp add: run_events_def held_initial sum_charge)

subsection \<open>From the state to the items\<close>

lemma bucket_items_held:
  assumes "\<And>k b i. f k b = Some i \<Longrightarrow> item_sources i = ids b"
  shows "items_held (bucket_items f m) \<subseteq># total (\<lambda>b. mset (ids b)) m"
proof (induction m)
  case Nil
  show ?case by (simp add: bucket_items_def map_filter_simps)
next
  case (Cons p m)
  obtain k b where p: "p = (k, b)" by force
  show ?case
  proof (cases "f k b")
    case None
    with Cons p show ?thesis
      by (simp add: bucket_items_def map_filter_Cons subset_mset.add_increasing)
  next
    case (Some i)
    with Cons p assms [OF Some] show ?thesis
      by (simp add: bucket_items_def map_filter_Cons)
  qed
qed

lemma pair_item_sources: "pair_item b t = Some i \<Longrightarrow> item_sources i = pair_ids b \<and> pair_ids b \<noteq> []"
  by (auto simp: pair_item_def pair_ids_def opt_or_def split: option.splits)

lemma projectPair_item: "\<exists>t. projectPair s k b = pair_item b t"
  by (cases s)
    (auto simp: projectMcpToolBucket_def projectWebSearchBucket_def
      projectImageGenerationBucket_def projectPatchBucket_def projectDynamicToolBucket_def
      projectCollabBucket_def Let_def)

lemma projectPair_sources: "projectPair s k b = Some i \<Longrightarrow> item_sources i = pair_ids b \<and> pair_ids b \<noteq> []"
  using projectPair_item [of s k b] pair_item_sources by metis

lemma projectExec_sources:
  "projectExecBucket k b = Some i \<Longrightarrow> item_sources i = exec_ids b \<and> exec_ids b \<noteq> []"
  by (auto simp: projectExecBucket_def exec_ids_def exec_anchor_def opt_or_def Let_def
      split: option.splits list.splits)

lemma projectStream_sources: "projectStreamBucket k b = Some i \<Longrightarrow> item_sources i = sb_eventIds b"
  by (auto simp: projectStreamBucket_def Let_def split: if_splits stream_variant.splits)

lemma all_items_held: "items_held (all_items st) \<subseteq># held st"
proof -
  have pairs: "items_held (concat (map (\<lambda>s. bucket_items (projectPair s) (pairBuckets st s)) ss)) \<subseteq>#
      (\<Sum>s\<leftarrow>ss. total (\<lambda>b. mset (pair_ids b)) (pairBuckets st s))" for ss
    by (induction ss)
      (simp_all add: bucket_items_held projectPair_sources subset_mset.add_mono)
  have ex: "items_held (bucket_items projectExecBucket (execBuckets st)) \<subseteq>#
      total (\<lambda>b. mset (exec_ids b)) (execBuckets st)"
    by (rule bucket_items_held) (simp add: projectExec_sources)
  have st: "items_held (bucket_items projectStreamBucket m) \<subseteq># stream_held m" for m
    unfolding stream_held_def by (rule bucket_items_held) (simp add: projectStream_sources)
  show ?thesis
    unfolding all_items_def held_def pairs_held_def items_held_simps
    by (simp only: add.assoc) (intro subset_mset.add_mono pairs ex st subset_mset.order_refl)
qed

subsection \<open>Well-formed items\<close>

fun item_ok :: "item \<Rightarrow> bool" where
  "item_ok (AssistantItem t n p c) \<longleftrightarrow> eventIds p \<noteq> []"
| "item_ok (UserItem t n m) \<longleftrightarrow>
     remdups (message_ids m) = [hd (message_ids m)] \<and> msg_role m = User \<and>
     msg_id m = jstr ''user-'' @ hd (message_ids m) \<and> (\<forall>p\<in>set (parts m). eventIds p \<noteq> [])"

definition state_ok :: "projection_state \<Rightarrow> bool" where
  "state_ok st \<longleftrightarrow> (\<forall>i\<in>set (p_items st). item_ok i)
     \<and> streams_ok (messageStreams st) \<and> streams_ok (reasoningStreams st)"

lemma item_ok_user: "item_ok (projectUserMessage e n)"
  by (auto simp: projectUserMessage_def message_ids_def Let_def)

lemma item_ok_default: "default_item e n = Some i \<Longrightarrow> item_ok i"
  by (auto simp: default_item_def projectMcpMethod_def projectAssistantPart_def Let_def
      split: if_splits option.splits)

lemma state_ok_push: "state_ok st \<Longrightarrow> item_ok i \<Longrightarrow> state_ok (push i st)"
  by (simp add: state_ok_def push_def)

lemma state_ok_run_case: "state_ok st \<Longrightarrow> state_ok (run_case c e n st)"
  by (cases c)
    (simp_all add: state_ok_def push_def item_ok_user projectAssistantPart_def onExec_def onPair_def
      streams_ok_append streams_ok_terminate)

lemma state_ok_step: "state_ok st \<Longrightarrow> state_ok (project_event st x)"
  by (cases x)
    (auto simp: project_event_def state_ok_run_case state_ok_push item_ok_default
      split: option.splits)

interpretation well_formed: fold_invariant project_event state_ok
  by unfold_locales (rule state_ok_step)

lemma state_ok_run_events: "state_ok (run_events es)"
  unfolding run_events_def
  by (rule well_formed.foldl_inv)
    (simp add: state_ok_def initial_projection_def streams_ok_def map_keys_def)

lemma item_ok_all_items: "state_ok st \<Longrightarrow> i \<in> set (all_items st) \<Longrightarrow> item_ok i"
proof -
  have au: "\<not> is_user i" if "pair_item b t = Some i" for b t i
    using that by (auto simp: pair_item_def split: option.splits)
  have ap: "\<not> is_user i" if "projectPair s k b = Some i" for s k b i
    using that au projectPair_item [of s k b] by metis
  have ae: "\<not> is_user i" if "projectExecBucket k b = Some i" for k b i
    using that by (auto simp: projectExecBucket_def Let_def split: option.splits)
  have as: "\<not> is_user i" if "projectStreamBucket k b = Some i" for k b i
    using that by (auto simp: projectStreamBucket_def Let_def split: if_splits)
  assume ok: "state_ok st" and i: "i \<in> set (all_items st)"
  then consider "i \<in> set (p_items st)"
    | k b where "projectExecBucket k b = Some i"
    | s k b where "projectPair s k b = Some i"
    | k b where "(k, b) \<in> set (messageStreams st) \<union> set (reasoningStreams st)"
        "projectStreamBucket k b = Some i"
    by (fastforce simp: all_items_def bucket_items_def map_filter_in)
  then show ?thesis
  proof cases
    case 1
    with ok show ?thesis by (simp add: state_ok_def)
  next
    case 2
    with ae projectExec_sources show ?thesis by (cases i) fastforce+
  next
    case 3
    with ap projectPair_sources show ?thesis by (cases i) fastforce+
  next
    case 4
    with ok have "sb_eventIds b \<noteq> []" by (fastforce simp: state_ok_def streams_ok_def)
    with 4(2) as projectStream_sources show ?thesis by (cases i) fastforce+
  qed
qed

end
