(* ===== verification/Thread_Properties.thy ===== *)
theory Thread_Properties
  imports Projection_Account
begin

section \<open>Properties of a projected thread\<close>

text \<open>
  The messages of \<open>projectReadonlyAssistantThread\<close>: what they hold, in which order, and that their
  identifiers are distinct. The facts about the single items come from the account of
  \<open>Projection_Account\<close>, those about the grouping from the specification of \<open>Messages\<close>.
\<close>

subsection \<open>Messages and their items\<close>

fun item_parts :: "item \<Rightarrow> part list" where
  "item_parts (AssistantItem t n p c) = [p]"
| "item_parts (UserItem t n m) = parts m"

text \<open>A run is well formed: a user item stands alone and only the last item closes.\<close>

definition run_ok :: "item list \<Rightarrow> bool" where
  "run_ok r \<longleftrightarrow> r \<noteq> [] \<and> (\<forall>x\<in>set r. is_user x \<longrightarrow> r = [x]) \<and> (\<forall>x\<in>set (butlast r). \<not> closes x)"

lemma run_ok_split: "r \<in> set (split_items xs) \<Longrightarrow> run_ok r"
  using split_items_nonempty split_items_user split_items_closes unfolding run_ok_def by blast

lemma parts_of_run: "run_ok r \<Longrightarrow> parts (message_of_run r) = concat (map item_parts r)"
proof -
  assume ok: "run_ok r"
  have no_user: "\<forall>x\<in>set q. \<not> is_user x \<Longrightarrow> map item_part q = concat (map item_parts q)" for q
  proof (induction q)
    case (Cons x q)
    then show ?case by (cases x) simp_all
  qed simp
  from ok obtain x q where r: "r = x # q" by (auto simp: run_ok_def neq_Nil_conv)
  show ?thesis
  proof (cases x)
    case (UserItem t n m)
    with ok r show ?thesis by (simp add: run_ok_def)
  next
    case (AssistantItem t n p c)
    have "\<not> is_user y" if "y \<in> set q" for y
    proof
      assume "is_user y"
      moreover have "y \<in> set r" using r that by simp
      ultimately have "r = [y]" using ok unfolding run_ok_def by blast
      with r AssistantItem \<open>is_user y\<close> show False by simp
    qed
    with r AssistantItem show ?thesis by (simp add: open_message_def no_user)
  qed
qed

lemma split_items_boundary:
  "successively (\<lambda>r q. closes (last r) \<or> is_user (hd q)) (split_items xs)"
proof (induction xs)
  case (Cons x xs)
  have ne: "split_items xs = r # rs \<Longrightarrow> r \<noteq> []" for r rs
    using split_items_nonempty [of r xs] by simp
  show ?case
  proof (cases "split_items xs")
    case Nil
    then show ?thesis by simp
  next
    case (Cons r rs)
    have "is_user x \<Longrightarrow> closes x" by (cases x) simp_all
    with Cons Cons.IH ne [OF Cons] show ?thesis
      by (cases rs) (auto simp: successively_Cons)
  qed
qed simp

text \<open>The fold into messages is the grouping it should be: the items are cut into runs, one
  message per run; a user item is a run of its own, only the last item of a run closes its message,
  and between two runs there is a reason to cut (the first was closed or the second is a user's).\<close>

theorem foldItemsIntoMessages_spec:
  "\<exists>rs. concat rs = xs \<and> foldItemsIntoMessages xs = map message_of_run rs
     \<and> list_all run_ok rs
     \<and> successively (\<lambda>r q. closes (last r) \<or> is_user (hd q)) rs"
  by (intro exI [of _ "split_items xs"] conjI concat_split_items foldItems_runs
      split_items_boundary) (simp add: list_all_iff run_ok_split)

lemma parts_foldItems:
  "concat (map parts (foldItemsIntoMessages xs)) = concat (map item_parts xs)"
proof -
  have "concat (map parts (map message_of_run rs)) = concat (map item_parts (concat rs))"
    if "\<forall>r\<in>set rs. run_ok r" for rs
    using that by (induction rs) (simp_all add: parts_of_run)
  from this [of "split_items xs"] show ?thesis
    by (simp add: foldItems_runs run_ok_split)
qed

lemma thread_in_order:
  assumes "collation lc"
  shows "\<exists>xs. sorted_wrt (\<lambda>x y. lc (item_timestamp x) (item_timestamp y) < 0
          \<or> lc (item_timestamp x) (item_timestamp y) = 0 \<and> item_order x \<le> item_order y) xs
     \<and> (\<forall>z. filter (\<lambda>y. lc (item_timestamp z) (item_timestamp y) = 0 \<and> item_order z = item_order y) xs
           = filter (\<lambda>y. lc (item_timestamp z) (item_timestamp y) = 0 \<and> item_order z = item_order y)
               (all_items (run_events es)))
     \<and> mset xs = mset (all_items (run_events es))
     \<and> concat (map parts (messages (projectReadonlyAssistantThread lc d es)))
         = concat (map item_parts xs)"
proof (intro exI conjI allI)
  let ?xs = "sorted_items lc es"
  have zero: "compareItems lc z y = 0 \<longleftrightarrow>
      lc (item_timestamp z) (item_timestamp y) = 0 \<and> item_order z = item_order y" for z y
    by (simp add: compareItems_def Let_def)
  show "sorted_wrt (\<lambda>x y. lc (item_timestamp x) (item_timestamp y) < 0
      \<or> lc (item_timestamp x) (item_timestamp y) = 0 \<and> item_order x \<le> item_order y) ?xs"
    using collation.sorted_sorted_items [OF assms] by (simp only: compareItems_le)
  show "filter (\<lambda>y. lc (item_timestamp z) (item_timestamp y) = 0 \<and> item_order z = item_order y) ?xs
      = filter (\<lambda>y. lc (item_timestamp z) (item_timestamp y) = 0 \<and> item_order z = item_order y)
          (all_items (run_events es))" for z
    using collation.stable_sorted_items [OF assms, of z] by (simp only: zero)
  show "mset ?xs = mset (all_items (run_events es))" by (simp add: sorted_items_def)
  show "concat (map parts (messages (projectReadonlyAssistantThread lc d es)))
      = concat (map item_parts ?xs)"
    by (simp add: projectReadonlyAssistantThread_def parts_foldItems)
qed

text \<open>C13. Under the laws of \<open>localeCompare\<close>, the items of a thread are ordered by time and, at the
  same time, by the order of their events (buckets last); items that compare equal keep the order
  in which they were pushed; and the messages show exactly the parts of these items, in that
  order.\<close>

theorem thread_parts_in_order:
  assumes "collation lc"
  shows "\<exists>xs. sorted_wrt (\<lambda>x y. lc (item_timestamp x) (item_timestamp y) < 0
          \<or> lc (item_timestamp x) (item_timestamp y) = 0 \<and> item_order x \<le> item_order y) xs
     \<and> (\<forall>z. filter (\<lambda>y. lc (item_timestamp z) (item_timestamp y) = 0 \<and> item_order z = item_order y) xs
           = filter (\<lambda>y. lc (item_timestamp z) (item_timestamp y) = 0 \<and> item_order z = item_order y)
               (all_items (run_events es)))
     \<and> mset xs = mset (all_items (run_events es))
     \<and> concat (map parts (messages (projectReadonlyAssistantThread lc d es)))
         = concat (map item_parts xs)"
  by (rule thread_in_order) (rule assms)

lemma units_collation: "collation compare_units"
  by unfold_locales

definition sample_events :: "event_record list" where
  "sample_events =
     [sample_event ''e1'' ''t1'' ''user_message'' [(''message'', JStr (jstr ''hi''))],
      sample_event ''e2'' ''t2'' ''exec_command_begin'' [(''call_id'', JStr (jstr ''c1''))],
      sample_event ''e3'' ''t3'' ''agent_message_delta'' [(''delta'', JStr (jstr ''He''))],
      sample_event ''e4'' ''t4'' ''exec_command_end'' [(''call_id'', JStr (jstr ''c1''))]]"

lemma thread_parts_in_order_witness:
  "\<exists>xs. mset xs = mset (all_items (run_events sample_events))
     \<and> concat (map parts (messages
           (projectReadonlyAssistantThread compare_units sample_detail sample_events)))
         = concat (map item_parts xs)"
  using thread_parts_in_order [OF units_collation, of sample_events sample_detail] by blast

subsection \<open>Identifiers\<close>

lemma sorted_items_held:
  "mset (concat (map item_sources (sorted_items lc es))) \<subseteq># mset (map event_id (shown_events es))"
proof -
  have "items_held (sorted_items lc es) = items_held (all_items (run_events es))"
    by (rule items_held_mset) (simp add: sorted_items_def)
  also have "\<dots> \<subseteq># mset (map event_id (shown_events es))"
    using all_items_held held_run_events by (rule subset_mset.order_trans)
  finally show ?thesis by (simp add: items_held_concat)
qed

lemma sorted_items_ok: "i \<in> set (sorted_items lc es) \<Longrightarrow> item_ok i"
  using item_ok_all_items [OF state_ok_run_events, of i es] by (simp add: sorted_items_def)

definition run_sources :: "item list \<Rightarrow> jsstring list" where
  "run_sources r = concat (map item_sources r)"

lemma item_ok_sources: "item_ok i \<Longrightarrow> item_sources i \<noteq> []"
  by (cases i) auto

lemma message_id_of_run:
  assumes "run_ok r" and "\<forall>i\<in>set r. item_ok i"
  shows "msg_id (message_of_run r) =
      (if is_user (hd r) then jstr ''user-'' else jstr ''assistant-'') @ hd (run_sources r)"
    and "run_sources r \<noteq> []"
proof -
  from assms(1) obtain x q where r: "r = x # q" by (auto simp: run_ok_def neq_Nil_conv)
  with assms(2) have x: "item_ok x" by simp
  show "run_sources r \<noteq> []" using item_ok_sources [OF x] by (simp add: run_sources_def r)
  have "hd (run_sources r) = hd (item_sources x)"
    using item_ok_sources [OF x] by (simp add: run_sources_def r)
  then show "msg_id (message_of_run r) =
      (if is_user (hd r) then jstr ''user-'' else jstr ''assistant-'') @ hd (run_sources r)"
    using x by (cases x) (auto simp: r open_message_def neq_Nil_conv)
qed

lemma user_assistant_ids: "jstr ''user-'' @ a \<noteq> jstr ''assistant-'' @ b"
  by (simp add: jstr_def)

lemma concat_run_sources: "concat (map run_sources rs) = concat (map item_sources (concat rs))"
  by (induction rs) (simp_all add: run_sources_def)

lemma distinct_message_ids:
  assumes "\<forall>i\<in>set xs. item_ok i" and "distinct (concat (map item_sources xs))"
  shows "distinct (map msg_id (foldItemsIntoMessages xs))"
proof -
  let ?rs = "split_items xs"
  have ok: "run_ok r \<and> (\<forall>i\<in>set r. item_ok i)" if "r \<in> set ?rs" for r
    using that assms(1) run_ok_split by (metis UN_I concat_split_items set_concat)
  have "distinct (map (\<lambda>r. hd (run_sources r)) ?rs)"
    by (rule distinct_hd_concat) (use assms(2) ok message_id_of_run(2) concat_run_sources in auto)
  then have "distinct (map (msg_id \<circ> message_of_run) ?rs)"
  proof (rule distinct_map_via, intro ballI impI)
    fix r q
    assume "r \<in> set ?rs" "q \<in> set ?rs" "(msg_id \<circ> message_of_run) r = (msg_id \<circ> message_of_run) q"
    then show "hd (run_sources r) = hd (run_sources q)"
      using message_id_of_run(1) [of r] message_id_of_run(1) [of q] ok
        user_assistant_ids user_assistant_ids [symmetric]
      by (auto split: if_splits)
  qed
  then show ?thesis by (simp add: foldItems_runs)
qed

lemma distinct_thread_ids:
  assumes "distinct (map event_id es)"
  shows "distinct (map msg_id (messages (projectReadonlyAssistantThread lc d es)))"
proof -
  have "distinct (map event_id (shown_events es))"
    unfolding shown_events_def using assms by (rule distinct_map_filter)
  with sorted_items_held have "distinct (concat (map item_sources (sorted_items lc es)))"
    by (rule distinct_of_mset_le)
  then show ?thesis
    unfolding projectReadonlyAssistantThread_def
    by (simp add: distinct_message_ids sorted_items_ok)
qed

text \<open>When the events have distinct identifiers (as the history delivers them), the messages of
  the thread have distinct identifiers: no two list entries share a React key, whatever the
  events, their order and the collation.\<close>

theorem thread_message_ids_distinct:
  assumes "distinct (map event_id es)"
  shows "distinct (map msg_id (messages (projectReadonlyAssistantThread lc d es)))"
  using assms by (rule distinct_thread_ids)

lemma thread_message_ids_distinct_witness:
  "distinct (map msg_id
     (messages (projectReadonlyAssistantThread compare_units sample_detail sample_events)))"
  by (rule thread_message_ids_distinct) (simp add: sample_events_def)

text \<open>The events a message shows.\<close>

lemma message_ids_of_run: "run_ok r \<Longrightarrow> set (message_ids (message_of_run r)) = set (run_sources r)"
proof -
  assume ok: "run_ok r"
  have "set (concat (map eventIds (item_parts i))) = set (item_sources i)" for i
    by (cases i) (simp_all add: message_ids_def)
  then have "set (concat (map eventIds (concat (map item_parts q)))) = set (run_sources q)" for q
    by (induction q) (simp_all add: run_sources_def)
  then show ?thesis by (simp add: message_ids_def parts_of_run [OF ok])
qed

definition shown_ids :: "message list \<Rightarrow> jsstring set" where
  "shown_ids ms = (\<Union>m\<in>set ms. set (message_ids m))"

lemma shown_ids_fold: "shown_ids (foldItemsIntoMessages xs) = set (concat (map item_sources xs))"
proof -
  have "shown_ids (map message_of_run rs) = set (concat (map run_sources rs))"
    if "\<forall>r\<in>set rs. run_ok r" for rs
    using that by (induction rs) (simp_all add: shown_ids_def message_ids_of_run)
  then show ?thesis
    by (simp add: foldItems_runs run_ok_split concat_run_sources del: set_concat)
qed

lemma parts_nonempty:
  assumes "\<forall>i\<in>set xs. item_ok i" and "m \<in> set (foldItemsIntoMessages xs)"
  shows "parts m \<noteq> [] \<and> (\<forall>p\<in>set (parts m). eventIds p \<noteq> [])"
proof -
  from assms(2) obtain r where r: "r \<in> set (split_items xs)" and m: "m = message_of_run r"
    by (auto simp: foldItems_runs)
  have ok: "run_ok r" "\<forall>i\<in>set r. item_ok i"
    using r run_ok_split assms(1) by (simp, metis UN_I concat_split_items set_concat)
  have part: "item_parts i \<noteq> [] \<and> (\<forall>p\<in>set (item_parts i). eventIds p \<noteq> [])" if "item_ok i" for i
    using that by (cases i) (auto simp: message_ids_def)
  from ok(1) obtain x q where "r = x # q" by (auto simp: run_ok_def neq_Nil_conv)
  then show ?thesis using part ok by (auto simp: m parts_of_run)
qed

text \<open>C14. A thread shows nothing that did not happen: every event identifier listed by a part is
  the identifier of an event of the session of a category that is not ignored; and every message
  has a part, every part an event.\<close>

theorem thread_shows_only_events:
  "shown_ids (messages (projectReadonlyAssistantThread lc d es))
     \<subseteq> event_id ` {e \<in> set es. \<not> ignored e}
   \<and> list_all (\<lambda>m. parts m \<noteq> [] \<and> list_all (\<lambda>p. eventIds p \<noteq> []) (parts m))
       (messages (projectReadonlyAssistantThread lc d es))"
proof
  have "set_mset (mset (concat (map item_sources (sorted_items lc es))))
      \<subseteq> set_mset (mset (map event_id (shown_events es)))"
    by (rule set_mset_mono) (rule sorted_items_held)
  then show "shown_ids (messages (projectReadonlyAssistantThread lc d es))
      \<subseteq> event_id ` {e \<in> set es. \<not> ignored e}"
    by (simp add: projectReadonlyAssistantThread_def shown_ids_fold shown_events_def
        set_mset_mset del: set_concat)
  show "list_all (\<lambda>m. parts m \<noteq> [] \<and> list_all (\<lambda>p. eventIds p \<noteq> []) (parts m))
       (messages (projectReadonlyAssistantThread lc d es))"
    using parts_nonempty [of "sorted_items lc es"] sorted_items_ok
    by (simp add: projectReadonlyAssistantThread_def list_all_iff)
qed

end
