(* ===== verification/Bucket_Spec.thy ===== *)
theory Bucket_Spec
  imports Thread_Properties
begin

section \<open>What each event contributes: a specification without state\<close>

text \<open>
  The state of the loop is a function of the event list, component by component: the pushed items
  are those of the single events, the bucket of a call is determined by the events of that call
  alone (the last begin, all outputs and interactions, the last end), and a stream store is the
  run of its own appends and terminations. How the events of different calls are interleaved does
  not matter. From this follows that no event is lost silently.
\<close>

text \<open>The case an event runs, \<open>None\<close> when it is ignored or handled by the default branch.\<close>

definition case_of :: "event_record \<Rightarrow> switch_case option" where
  "case_of e = (if ignored e then None else switch_on (event_type e))"

lemma run_events_snoc: "run_events (es @ [e]) = project_event (run_events es) (length es, e)"
  by (simp add: run_events_def enumerate_append_eq)

lemma run_events_Nil: "run_events [] = initial_projection"
  by (simp add: run_events_def)

lemma project_event_case:
  "project_event st (n, e) =
     (case case_of e of
        Some c \<Rightarrow> run_case c e (int n) st
      | None \<Rightarrow> if ignored e then st
          else (case default_item e (int n) of Some i \<Rightarrow> push i st | None \<Rightarrow> st))"
  by (auto simp: project_event_def case_of_def split: option.splits)

subsection \<open>Commands\<close>

definition exec_events :: "switch_case \<Rightarrow> jsstring \<Rightarrow> event_record list \<Rightarrow> event_record list" where
  "exec_events c k es = filter (\<lambda>e. case_of e = Some c \<and> bucketId e = k) es"

lemma exec_events_snoc:
  "exec_events c k (es @ [e]) =
     exec_events c k es @ (if case_of e = Some c \<and> bucketId e = k then [e] else [])"
  by (simp add: exec_events_def)

definition exec_spec :: "event_record list \<Rightarrow> jsstring \<Rightarrow> exec_bucket option" where
  "exec_spec es k =
     (let b = \<lparr>exec_begin = last_of (exec_events CExecBegin k es),
               exec_outputs = exec_events CExecOutput k es,
               exec_interactions = exec_events CExecInteraction k es,
               exec_end = last_of (exec_events CExecEnd k es)\<rparr>
      in if b = new_exec_bucket then None else Some b)"

definition pair_spec :: "event_record list \<Rightarrow> pair_store \<Rightarrow> jsstring \<Rightarrow> pair_bucket option" where
  "pair_spec es s k =
     (let b = \<lparr>pair_begin = last_of (exec_events (CPairBegin s) k es),
               pair_end = last_of (exec_events (CPairEnd s) k es)\<rparr>
      in if b = new_pair_bucket then None else Some b)"

lemma last_of_snoc_ne: "last_of xs \<noteq> None \<Longrightarrow> xs \<noteq> []"
  by (auto simp: last_of_def)

lemma exec_bucket_step:
  "map_get (execBuckets (project_event st (n, e))) k =
     (if bucketId e \<noteq> k then map_get (execBuckets st) k
      else let b = opt_default (map_get (execBuckets st) k) new_exec_bucket in
        case case_of e of
          Some CExecBegin \<Rightarrow> Some (b\<lparr>exec_begin := Some e\<rparr>)
        | Some CExecOutput \<Rightarrow> Some (b\<lparr>exec_outputs := exec_outputs b @ [e]\<rparr>)
        | Some CExecInteraction \<Rightarrow> Some (b\<lparr>exec_interactions := exec_interactions b @ [e]\<rparr>)
        | Some CExecEnd \<Rightarrow> Some (b\<lparr>exec_end := Some e\<rparr>)
        | _ \<Rightarrow> map_get (execBuckets st) k)"
  by (auto simp: project_event_case onExec_def onPair_def mutateBucket_def push_def Let_def
      split: option.splits switch_case.splits)

lemma exec_spec_default:
  "opt_default (exec_spec es k) new_exec_bucket =
     \<lparr>exec_begin = last_of (exec_events CExecBegin k es),
      exec_outputs = exec_events CExecOutput k es,
      exec_interactions = exec_events CExecInteraction k es,
      exec_end = last_of (exec_events CExecEnd k es)\<rparr>"
  by (simp add: exec_spec_def Let_def)

lemma pair_spec_default:
  "opt_default (pair_spec es s k) new_pair_bucket =
     \<lparr>pair_begin = last_of (exec_events (CPairBegin s) k es),
      pair_end = last_of (exec_events (CPairEnd s) k es)\<rparr>"
  by (simp add: pair_spec_def Let_def)

lemma exec_refine: "map_get (execBuckets (run_events es)) k = exec_spec es k"
proof (induction es rule: rev_induct)
  case Nil
  show ?case
    by (simp add: run_events_Nil initial_projection_def exec_spec_def exec_events_def
        new_exec_bucket_def)
next
  case (snoc e es)
  note step = exec_bucket_step [of "run_events es" "length es" e k, folded run_events_snoc]
  show ?case
  proof (cases "bucketId e = k")
    case False
    with snoc show ?thesis by (simp add: step exec_spec_def exec_events_snoc)
  next
    case True
    show ?thesis
    proof (cases "case_of e")
      case None
      with True snoc show ?thesis by (simp add: step exec_spec_def exec_events_snoc)
    next
      case (Some c)
      with True snoc show ?thesis
        by (cases c)
          (simp_all add: step exec_spec_default Let_def,
           simp_all add: exec_spec_def exec_events_snoc new_exec_bucket_def)
    qed
  qed
qed

lemma pair_bucket_step:
  "map_get (pairBuckets (project_event st (n, e)) s) k =
     (if bucketId e \<noteq> k then map_get (pairBuckets st s) k
      else let b = opt_default (map_get (pairBuckets st s) k) new_pair_bucket in
        if case_of e = Some (CPairBegin s) then Some (b\<lparr>pair_begin := Some e\<rparr>)
        else if case_of e = Some (CPairEnd s) then Some (b\<lparr>pair_end := Some e\<rparr>)
        else map_get (pairBuckets st s) k)"
proof (cases "case_of e")
  case None
  then show ?thesis by (simp add: project_event_case push_def split: option.split)
next
  case (Some c)
  then show ?thesis
    by (cases c) (simp_all add: project_event_case onExec_def onPair_def mutateBucket_def push_def
        Let_def)
qed

lemma pair_refine: "map_get (pairBuckets (run_events es) s) k = pair_spec es s k"
proof (induction es rule: rev_induct)
  case Nil
  show ?case
    by (simp add: run_events_Nil initial_projection_def pair_spec_def exec_events_def
        new_pair_bucket_def)
next
  case (snoc e es)
  note step = pair_bucket_step [of "run_events es" "length es" e s k, folded run_events_snoc]
  show ?case
    by (simp add: step snoc pair_spec_default Let_def)
      (simp add: pair_spec_def exec_events_snoc new_pair_bucket_def)
qed

text \<open>The bucket of a command is determined by the events of that command alone: its last begin,
  its output chunks and terminal interactions in order, its last end. Nothing another command,
  tool or stream does in between changes it.\<close>

theorem exec_buckets_refine_spec: "map_get (execBuckets (run_events es)) k = exec_spec es k"
  by (rule exec_refine)

text \<open>The same for the ten kinds of begin/end pairs: the bucket of a call holds the last begin
  and the last end event of its kind and call id.\<close>

theorem pair_buckets_refine_spec: "map_get (pairBuckets (run_events es) s) k = pair_spec es s k"
  by (rule pair_refine)

subsection \<open>Items pushed in the loop\<close>

text \<open>The item an event pushes at once, with its index.\<close>

definition direct_item :: "nat \<times> event_record \<Rightarrow> item option" where
  "direct_item x = (case x of (n, e) \<Rightarrow>
     if ignored e then None
     else (case case_of e of
             None \<Rightarrow> default_item e (int n)
           | Some c \<Rightarrow> (case p_items (run_case c e (int n) initial_projection) of
                          [] \<Rightarrow> None | i # _ \<Rightarrow> Some i)))"

lemma p_items_step:
  "p_items (project_event st x) =
     p_items st @ (case direct_item x of None \<Rightarrow> [] | Some i \<Rightarrow> [i])"
proof (cases x)
  case (Pair n e)
  show ?thesis
  proof (cases "case_of e")
    case None
    then show ?thesis
      by (simp add: Pair direct_item_def project_event_case push_def split: option.split)
  next
    case (Some c)
    then have "\<not> ignored e" by (auto simp: case_of_def)
    with Some show ?thesis
      by (cases c)
        (simp_all add: Pair direct_item_def project_event_case push_def initial_projection_def
          onExec_def onPair_def)
  qed
qed

lemma p_items_run: "p_items (run_events es) = List.map_filter direct_item (enumerate 0 es)"
proof (induction es rule: rev_induct)
  case Nil
  show ?case by (simp add: run_events_Nil initial_projection_def List.map_filter_def)
next
  case (snoc e es)
  show ?case
    by (simp add: run_events_snoc p_items_step snoc enumerate_append_eq List.map_filter_def
        split: option.split)
qed

lemma direct_item_sources: "direct_item (n, e) = Some i \<Longrightarrow> item_sources i = [event_id e]"
proof -
  assume d: "direct_item (n, e) = Some i"
  show ?thesis
  proof (cases "case_of e")
    case None
    with d show ?thesis by (simp add: direct_item_def item_sources_default split: if_splits)
  next
    case (Some c)
    with d show ?thesis
      by (cases c)
        (auto simp: direct_item_def push_def initial_projection_def onExec_def onPair_def
          item_sources_user projectAssistantPart_def split: if_splits)
  qed
qed

subsection \<open>No event is lost silently\<close>

fun is_delta_case :: "switch_case \<Rightarrow> bool" where
  "is_delta_case CMessageDelta = True"
| "is_delta_case (CReasoningDelta v) = True"
| "is_delta_case _ = False"

fun is_slot_case :: "switch_case \<Rightarrow> bool" where
  "is_slot_case CExecBegin = True"
| "is_slot_case CExecEnd = True"
| "is_slot_case (CPairBegin s) = True"
| "is_slot_case (CPairEnd s) = True"
| "is_slot_case _ = False"

definition is_delta :: "event_record \<Rightarrow> bool" where
  "is_delta e = (case case_of e of None \<Rightarrow> False | Some c \<Rightarrow> is_delta_case c)"

text \<open>A later begin (or end) of the same call takes the slot of an earlier one.\<close>

definition takes_slot :: "event_record \<Rightarrow> event_record \<Rightarrow> bool" where
  "takes_slot e d = (case case_of e of None \<Rightarrow> False
     | Some c \<Rightarrow> is_slot_case c \<and> case_of d = Some c \<and> bucketId d = bucketId e)"

fun superseded :: "event_record list \<Rightarrow> event_record \<Rightarrow> bool" where
  "superseded [] e = False"
| "superseded (x # xs) e = (x = e \<and> list_ex (takes_slot e) xs \<or> superseded xs e)"

lemma last_or_superseded:
  "e \<in> set es \<Longrightarrow> takes_slot e e \<Longrightarrow>
   last_of (filter (takes_slot e) es) = Some e \<or> superseded es e"
proof (induction es)
  case (Cons x es)
  show ?case
  proof (cases "e \<in> set es")
    case True
    with Cons show ?thesis by (auto simp: last_of_def split: if_splits)
  next
    case False
    with Cons.prems have "x = e" by simp
    with Cons.prems(2) show ?thesis
      by (auto simp: last_of_def list_ex_iff filter_empty_conv)
  qed
qed simp

lemma takes_slot_filter:
  "case_of e = Some c \<Longrightarrow> is_slot_case c \<Longrightarrow> filter (takes_slot e) es = exec_events c (bucketId e) es"
  by (auto simp: takes_slot_def exec_events_def intro!: filter_cong)

lemma project_exec_some: "exec_ids b \<noteq> [] \<Longrightarrow> \<exists>i. projectExecBucket k b = Some i"
  by (auto simp: projectExecBucket_def exec_anchor_def exec_ids_def opt_or_def Let_def
      split: option.splits list.splits)

lemma project_pair_some: "pair_ids b \<noteq> [] \<Longrightarrow> \<exists>i. projectPair s k b = Some i"
proof -
  assume ne: "pair_ids b \<noteq> []"
  obtain t where "projectPair s k b = pair_item b t" using projectPair_item by blast
  with ne show ?thesis
    by (auto simp: pair_item_def pair_ids_def opt_or_def split: option.splits)
qed

definition item_source_set :: "item list \<Rightarrow> jsstring set" where
  "item_source_set xs = (\<Union>i\<in>set xs. set (item_sources i))"

lemma exec_shown:
  assumes "exec_spec es k = Some b" and "x \<in> set (exec_ids b)"
  shows "x \<in> item_source_set (all_items (run_events es))"
proof -
  from assms(2) have "exec_ids b \<noteq> []" by auto
  then obtain i where i: "projectExecBucket k b = Some i" using project_exec_some by blast
  moreover have "(k, b) \<in> set (execBuckets (run_events es))"
    using assms(1) by (intro map_get_mem) (simp add: exec_refine)
  ultimately have "i \<in> set (all_items (run_events es))"
    by (force simp: all_items_def bucket_items_def map_filter_in)
  moreover have "x \<in> set (item_sources i)" using projectExec_sources [OF i] assms(2) by simp
  ultimately show ?thesis by (auto simp: item_source_set_def)
qed

lemma pair_shown:
  assumes "pair_spec es s k = Some b" and "x \<in> set (pair_ids b)"
  shows "x \<in> item_source_set (all_items (run_events es))"
proof -
  from assms(2) have "pair_ids b \<noteq> []" by auto
  then obtain i where i: "projectPair s k b = Some i" using project_pair_some by blast
  moreover have "(k, b) \<in> set (pairBuckets (run_events es) s)"
    using assms(1) by (intro map_get_mem) (simp add: pair_refine)
  moreover have "s \<in> set pair_stores" by (cases s) (simp_all add: pair_stores_def)
  ultimately have "i \<in> set (all_items (run_events es))"
    by (force simp: all_items_def bucket_items_def map_filter_in)
  moreover have "x \<in> set (item_sources i)" using projectPair_sources [OF i] assms(2) by simp
  ultimately show ?thesis by (auto simp: item_source_set_def)
qed

lemma direct_shown:
  assumes "e \<in> set es" and "\<And>n. direct_item (n, e) \<noteq> None"
  shows "event_id e \<in> item_source_set (all_items (run_events es))"
proof -
  from assms(1) obtain n where "n < length es" "es ! n = e" by (auto simp: in_set_conv_nth)
  then have mem: "(n, e) \<in> set (enumerate 0 es)" by (auto simp: in_set_enumerate_eq)
  from assms(2) [of n] obtain i where i: "direct_item (n, e) = Some i" by auto
  with mem have "i \<in> set (p_items (run_events es))" by (force simp: p_items_run map_filter_in)
  with direct_item_sources [OF i] show ?thesis
    by (force simp: item_source_set_def all_items_def)
qed

lemma default_item_some: "opt_default (event_type e) [] \<noteq> [] \<Longrightarrow> default_item e n \<noteq> None"
  by (auto simp: default_item_def Let_def split: option.splits)

lemma exec_slot_shown:
  assumes "last_of (exec_events c (bucketId e) es) = Some e"
    and "c = CExecBegin \<or> c = CExecEnd"
  shows "event_id e \<in> item_source_set (all_items (run_events es))"
proof (rule exec_shown)
  let ?b = "opt_default (exec_spec es (bucketId e)) new_exec_bucket"
  show "exec_spec es (bucketId e) = Some ?b"
    using assms by (auto simp: exec_spec_def new_exec_bucket_def Let_def)
  show "event_id e \<in> set (exec_ids ?b)"
    unfolding exec_spec_default using assms by (auto simp: exec_ids_def split: option.splits)
qed

lemma exec_stream_shown:
  assumes "e \<in> set (exec_events c (bucketId e) es)" and "c = CExecOutput \<or> c = CExecInteraction"
  shows "event_id e \<in> item_source_set (all_items (run_events es))"
proof (rule exec_shown)
  let ?b = "opt_default (exec_spec es (bucketId e)) new_exec_bucket"
  show "exec_spec es (bucketId e) = Some ?b"
    using assms by (auto simp: exec_spec_def new_exec_bucket_def Let_def)
  show "event_id e \<in> set (exec_ids ?b)"
    unfolding exec_spec_default using assms by (auto simp: exec_ids_def split: option.splits)
qed

lemma pair_slot_shown:
  assumes "last_of (exec_events c (bucketId e) es) = Some e"
    and "c = CPairBegin s \<or> c = CPairEnd s"
  shows "event_id e \<in> item_source_set (all_items (run_events es))"
proof (rule pair_shown)
  let ?b = "opt_default (pair_spec es s (bucketId e)) new_pair_bucket"
  show "pair_spec es s (bucketId e) = Some ?b"
    using assms by (auto simp: pair_spec_def new_pair_bucket_def Let_def)
  show "event_id e \<in> set (pair_ids ?b)"
    unfolding pair_spec_default using assms by (auto simp: pair_ids_def split: option.splits)
qed

lemma event_accounted:
  assumes "e \<in> set es" "\<not> ignored e" "opt_default (event_type e) [] \<noteq> []"
  shows "event_id e \<in> item_source_set (all_items (run_events es)) \<or> is_delta e \<or> superseded es e"
proof (cases "case_of e")
  case None
  then have "direct_item (n, e) \<noteq> None" for n
    using assms(2) default_item_some [OF assms(3)] by (simp add: direct_item_def)
  then show ?thesis using direct_shown [OF assms(1)] by blast
next
  case (Some c)
  have slot: "last_of (exec_events c (bucketId e) es) = Some e \<or> superseded es e" if "is_slot_case c"
    using last_or_superseded [OF assms(1)] takes_slot_filter [OF Some that, of es] that Some
    by (simp add: takes_slot_def)
  have mem: "e \<in> set (exec_events c (bucketId e) es)"
    using assms(1) Some by (simp add: exec_events_def)
  have direct: "event_id e \<in> item_source_set (all_items (run_events es))"
    if "\<And>n st. p_items (run_case c e n st) \<noteq> []"
    using direct_shown [OF assms(1)] that assms(2) Some
    by (simp add: direct_item_def split: list.split)
  show ?thesis
  proof (cases c)
    case CExecBegin
    then show ?thesis using slot exec_slot_shown [of c e es] by auto
  next
    case CExecEnd
    then show ?thesis using slot exec_slot_shown [of c e es] by auto
  next
    case (CPairBegin s)
    then show ?thesis using slot pair_slot_shown [of c e es s] by auto
  next
    case (CPairEnd s)
    then show ?thesis using slot pair_slot_shown [of c e es s] by auto
  next
    case CExecOutput
    then show ?thesis using mem exec_stream_shown [of e c es] by auto
  next
    case CExecInteraction
    then show ?thesis using mem exec_stream_shown [of e c es] by auto
  qed (use direct Some in \<open>simp_all add: push_def is_delta_def\<close>)
qed

lemma shown_ids_thread:
  "shown_ids (messages (projectReadonlyAssistantThread lc d es)) =
     item_source_set (all_items (run_events es))"
  by (simp add: projectReadonlyAssistantThread_def shown_ids_fold sorted_items_def
      item_source_set_def)

lemma event_on_screen:
  assumes "e \<in> set es" and "\<not> ignored e" and "opt_default (event_type e) [] \<noteq> []"
  shows "event_id e \<in> shown_ids (messages (projectReadonlyAssistantThread lc d es))
     \<or> is_delta e \<or> superseded es e"
  unfolding shown_ids_thread using assms by (rule event_accounted)

text \<open>C8. No event is lost silently: an event of the session that is not ignored and has a type is
  listed by a part of the thread, unless it is a stream delta, or a later begin (end) event of the
  same call has taken its place.\<close>

theorem no_event_lost:
  assumes "e \<in> set es" and "\<not> ignored e" and "opt_default (event_type e) [] \<noteq> []"
  shows "event_id e \<in> shown_ids (messages (projectReadonlyAssistantThread lc d es))
     \<or> is_delta e \<or> superseded es e"
  using assms by (rule event_on_screen)

lemma no_event_lost_witness:
  "let e = sample_event ''e2'' ''t2'' ''exec_command_begin'' [(''call_id'', JStr (jstr ''c1''))] in
   event_id e \<in> shown_ids (messages
       (projectReadonlyAssistantThread compare_units sample_detail sample_events))
     \<or> is_delta e \<or> superseded sample_events e"
  unfolding Let_def
  by (rule no_event_lost) (simp_all add: sample_events_def sample_event_def ignored_def)

end
