(* ===== verification/Thread_Types.thy ===== *)
theory Thread_Types
  imports Bucket_Spec
begin

section \<open>The shape of what the projection produces\<close>

text \<open>
  TypeScript's types of \<^verbatim>\<open>web/src/lib/assistant-projection.ts\<close> leave most properties optional. This
  theory says which of them the projection really produces: per kind of tool the properties a part
  can carry, what a tool that is still running cannot carry, and which parts the messages of each
  role hold. The components rely on it when they show a part.
\<close>

subsection \<open>Tool parts\<close>

text \<open>A tool part reduced to the properties of its kind.\<close>

fun kind_view :: "tool_kind \<Rightarrow> tool_part \<Rightarrow> tool_part" where
  "kind_view ExecCommand t = (tool0 ExecCommand (tool_title t) (status t))
     \<lparr>command := command t, cwd := cwd t, tool_output := tool_output t, exitCode := exitCode t,
      stdout := stdout t, stderr := stderr t, interactions := interactions t\<rparr>"
| "kind_view McpToolCall t = (tool0 McpToolCall (tool_title t) (status t))
     \<lparr>server := server t, toolName := toolName t, args := args t, result := result t,
      duration := duration t, error := error t\<rparr>"
| "kind_view WebSearch t = (tool0 WebSearch (tool_title t) (status t))
     \<lparr>query := query t, actionType := actionType t\<rparr>"
| "kind_view ImageGeneration t = (tool0 ImageGeneration (tool_title t) (status t))
     \<lparr>result := result t, imageStatus := imageStatus t, revisedPrompt := revisedPrompt t,
      savedPath := savedPath t\<rparr>"
| "kind_view PatchApply t = (tool0 PatchApply (tool_title t) (status t))
     \<lparr>changes := changes t, stdout := stdout t, stderr := stderr t\<rparr>"
| "kind_view DynamicToolCall t = (tool0 DynamicToolCall (tool_title t) (status t))
     \<lparr>toolName := toolName t, args := args t, result := result t, duration := duration t,
      error := error t\<rparr>"
| "kind_view CollabAgent t = (tool0 CollabAgent (tool_title t) (status t))
     \<lparr>toolName := toolName t, args := args t, result := result t\<rparr>"
| "kind_view ViewImage t = (tool0 ViewImage (tool_title t) (status t))\<lparr>args := args t\<rparr>"

definition no_outcome :: "tool_part \<Rightarrow> bool" where
  "no_outcome t \<longleftrightarrow> exitCode t = None \<and> stdout t = None \<and> stderr t = None \<and> result t = JUndef
     \<and> duration t = None \<and> error t = None \<and> imageStatus t = None \<and> revisedPrompt t = None
     \<and> savedPath t = None \<and> query t = None \<and> actionType t = None"

definition tool_typed :: "tool_part \<Rightarrow> bool" where
  "tool_typed t \<longleftrightarrow> kind_view (toolKind t) t = t \<and> tool_title t \<noteq> []
     \<and> (status t = Running \<longrightarrow> no_outcome t)
     \<and> (toolKind t = ExecCommand \<longrightarrow> command t \<noteq> None) \<and> tool_output t \<noteq> Some []
     \<and> interactions t \<noteq> Some [] \<and> (toolKind t = PatchApply \<longrightarrow> changes t \<noteq> None)
     \<and> (toolKind t = ViewImage \<longrightarrow> status t = Complete)"

lemma mapExecCompletionStatus_done: "mapExecCompletionStatus s c \<noteq> Running"
  by (simp add: mapExecCompletionStatus_def Let_def split: option.split)

lemma mapImageCompletionStatus_done: "mapImageCompletionStatus s \<noteq> Running"
  by (simp add: mapImageCompletionStatus_def split: option.split)

lemma collabStatus_done: "collabStatus b e \<noteq> Running"
  by (simp add: collabStatus_def Let_def)

lemmas status_done = mapExecCompletionStatus_done mapImageCompletionStatus_done collabStatus_done

text \<open>The message of an event that has not come: every lookup fails.\<close>

lemma message_of_None [simp]: "message_of None = JObj []"
  by (simp add: message_of_def)

lemma object_keys_empty [simp]: "object_keys (JObj []) = []"
  by (simp add: object_keys_def)

lemmas tool_typed_defs = tool_typed_def no_outcome_def tool0_def

lemma exec_tool_typed:
  assumes "projectExecBucket k b = Some i"
  shows "\<exists>ts t. i = AssistantItem ts MAX_SAFE_INTEGER (ToolPart t (exec_ids b)) False \<and> tool_typed t
    \<and> toolKind t = ExecCommand \<and> (status t = Running \<longleftrightarrow> exec_end b = None)"
proof -
  from assms obtain a where a: "exec_anchor b = Some a"
    by (cases "exec_anchor b") (simp_all add: projectExecBucket_def)
  show ?thesis
  proof (cases "exec_end b")
    case None
    with assms a show ?thesis
      by (auto simp: projectExecBucket_def Let_def tool_typed_defs)
  next
    case (Some e)
    with assms a show ?thesis
      by (auto simp: projectExecBucket_def Let_def tool_typed_defs mapExecCompletionStatus_done)
  qed
qed

lemma pair_item_Some: "pair_item b t = Some i \<longleftrightarrow>
  (\<exists>a. opt_or (pair_begin b) (pair_end b) = Some a \<and>
     i = AssistantItem (timestamp a) MAX_SAFE_INTEGER (ToolPart t (pair_ids b)) False)"
  by (auto simp: pair_item_def split: option.splits)

definition pair_tool_ok :: "pair_bucket \<Rightarrow> tool_part \<Rightarrow> bool" where
  "pair_tool_ok b t \<longleftrightarrow> tool_typed t \<and> (status t = Running \<longleftrightarrow> pair_end b = None)"

lemmas pair_tool_defs = pair_tool_ok_def tool_typed_defs

lemma mcp_tool_ok: "\<exists>t. projectMcpToolBucket k b = pair_item b t \<and> pair_tool_ok b t"
  unfolding projectMcpToolBucket_def Let_def
  by (intro exI conjI, rule refl) (cases "pair_end b"; simp add: pair_tool_defs)

lemma search_tool_ok: "\<exists>t. projectWebSearchBucket k b = pair_item b t \<and> pair_tool_ok b t"
  unfolding projectWebSearchBucket_def Let_def
  by (intro exI conjI, rule refl) (cases "pair_end b"; simp add: pair_tool_defs)

lemma image_tool_ok: "\<exists>t. projectImageGenerationBucket k b = pair_item b t \<and> pair_tool_ok b t"
  unfolding projectImageGenerationBucket_def Let_def
  by (intro exI conjI, rule refl) (cases "pair_end b"; simp add: pair_tool_defs status_done)

lemma patch_tool_ok: "\<exists>t. projectPatchBucket k b = pair_item b t \<and> pair_tool_ok b t"
  unfolding projectPatchBucket_def Let_def
  by (intro exI conjI, rule refl) (cases "pair_end b"; simp add: pair_tool_defs)

lemma dynamic_tool_ok: "\<exists>t. projectDynamicToolBucket k b = pair_item b t \<and> pair_tool_ok b t"
  unfolding projectDynamicToolBucket_def Let_def
  by (intro exI conjI, rule refl)
    (cases "pair_end b"; simp add: pair_tool_defs jstr_def split: option.split)

lemma collab_tool_ok: "ti \<noteq> [] \<Longrightarrow> \<exists>t. projectCollabBucket b ti = pair_item b t \<and> pair_tool_ok b t"
  unfolding projectCollabBucket_def Let_def
  by (intro exI conjI, rule refl) (cases "pair_end b"; simp add: pair_tool_defs status_done)

lemma pair_tool_typed:
  assumes "projectPair s k b = Some i"
  shows "\<exists>ts t. i = AssistantItem ts MAX_SAFE_INTEGER (ToolPart t (pair_ids b)) False \<and> pair_tool_ok b t"
proof -
  have "\<exists>t. projectPair s k b = pair_item b t \<and> pair_tool_ok b t"
    by (cases s) (simp_all add: mcp_tool_ok search_tool_ok image_tool_ok patch_tool_ok dynamic_tool_ok
        collab_tool_ok)
  with assms show ?thesis by (metis pair_item_Some)
qed

subsection \<open>Parts and messages\<close>

fun part_typed :: "role \<Rightarrow> part \<Rightarrow> bool" where
  "part_typed User (TextPart t ph mc ids) \<longleftrightarrow> ph = None \<and> mc = JUndef \<and> length ids = 1"
| "part_typed User (UnknownPart ty ti v ids) \<longleftrightarrow>
     ty = jstr ''user_inputs'' \<and> ti = jstr ''User inputs'' \<and> own_props v \<noteq> [] \<and> length ids = 1"
| "part_typed User p \<longleftrightarrow> False"
| "part_typed Assistant (TextPart t ph mc ids) \<longleftrightarrow> ids \<noteq> []"
| "part_typed Assistant (ReasoningPart t v ids) \<longleftrightarrow> ids \<noteq> []"
| "part_typed Assistant (LifecyclePart ty ti d ids) \<longleftrightarrow>
     ty \<noteq> [] \<and> truthy ti \<and> ti = lifecycle_title ty \<and> is_object d \<and> length ids = 1"
| "part_typed Assistant (PlanPart ti ex ss pd ids) \<longleftrightarrow> length ids = 1
     \<and> (ti = jstr ''Plan update'' \<and> pd = None \<or> ti = jstr ''Plan delta'' \<and> ex = None \<and> ss = [])"
| "part_typed Assistant (ApprovalPart ti k r c w ids) \<longleftrightarrow>
     ti = jstr ''Approval required'' \<and> approval_type k \<and> length ids = 1"
| "part_typed Assistant (ToolPart t ids) \<longleftrightarrow> tool_typed t \<and> ids \<noteq> []"
| "part_typed Assistant (McpMethodPart mt ti ps ids) \<longleftrightarrow>
     mt \<noteq> [] \<and> (ti = mt \<or> mt = jstr ''tools/call'') \<and> is_object ps \<and> length ids = 1"
| "part_typed Assistant (UnknownPart ty ti v ids) \<longleftrightarrow> ty \<noteq> [] \<and> ti = ty \<and> length ids = 1"

definition message_typed :: "message \<Rightarrow> bool" where
  "message_typed m \<longleftrightarrow> parts m \<noteq> [] \<and> list_all (part_typed (msg_role m)) (parts m)"

fun item_typed :: "item \<Rightarrow> bool" where
  "item_typed (AssistantItem t n p c) \<longleftrightarrow> part_typed Assistant p"
| "item_typed (UserItem t n m) \<longleftrightarrow> msg_role m = User \<and> message_typed m"

lemma user_typed: "item_typed (projectUserMessage e n)"
  by (auto simp: projectUserMessage_def message_typed_def Let_def)

lemma is_object_stripTypeField [simp]: "is_object (stripTypeField v)"
  by (simp add: stripTypeField_def)

lemma default_typed: "default_item e n = Some i \<Longrightarrow> item_typed i"
  by (auto simp: default_item_def projectMcpMethod_def projectAssistantPart_def Let_def
      split: if_splits option.splits)

lemma view_image_typed:
  "tool_typed ((tool0 ViewImage (jstr ''View image'') Complete)\<lparr>args := a\<rparr>)"
  by (simp add: tool_typed_defs)

text \<open>Only one event type reaches the section break, and it has a title.\<close>

lemma section_break_type:
  "switch_on t = Some CSectionBreak \<Longrightarrow> t = Some (jstr ''agent_reasoning_section_break'')"
  by (auto simp: switch_on_def switch_table_def split: option.splits if_splits)

lemma section_break_title: "truthy (lifecycle_title (jstr ''agent_reasoning_section_break''))"
  by (simp add: lifecycle_title_def LIFECYCLE_TITLES_def)

definition items_typed :: "projection_state \<Rightarrow> bool" where
  "items_typed st \<longleftrightarrow> (\<forall>i\<in>set (p_items st). item_typed i)"

lemma items_typed_step: "items_typed st \<Longrightarrow> items_typed (project_event st x)"
proof -
  assume ok: "items_typed st"
  obtain n e where x: "x = (n, e)" by force
  have case_ok: "items_typed (run_case c e (int n) st)" if c: "switch_on (event_type e) = Some c" for c
  proof (cases c)
    case CSectionBreak
    with c ok show ?thesis
      using section_break_type [of "event_type e"] section_break_title
      by (auto simp: items_typed_def push_def projectAssistantPart_def)
  qed (use ok in \<open>auto simp: items_typed_def push_def projectAssistantPart_def user_typed
        view_image_typed onExec_def onPair_def\<close>)
  with ok show ?thesis
    by (auto simp: x project_event_def items_typed_def push_def default_typed split: option.splits)
qed

interpretation typed_items: fold_invariant project_event items_typed
  by unfold_locales (rule items_typed_step)

lemma items_typed_run: "items_typed (run_events es)"
  unfolding run_events_def
  by (rule typed_items.foldl_inv) (simp add: items_typed_def initial_projection_def)

lemma all_items_typed: "i \<in> set (all_items (run_events es)) \<Longrightarrow> item_typed i"
proof -
  assume i: "i \<in> set (all_items (run_events es))"
  have ok: "item_ok i" by (rule item_ok_all_items [OF state_ok_run_events i])
  from i consider "i \<in> set (p_items (run_events es))"
    | k b where "projectExecBucket k b = Some i"
    | s k b where "projectPair s k b = Some i"
    | k b where "projectStreamBucket k b = Some i"
    by (fastforce simp: all_items_def bucket_items_def map_filter_in)
  then show ?thesis
  proof cases
    case 1
    with items_typed_run show ?thesis by (simp add: items_typed_def)
  next
    case 2
    from exec_tool_typed [OF this] ok show ?thesis by auto
  next
    case 3
    from pair_tool_typed [OF this] ok show ?thesis by (auto simp: pair_tool_ok_def)
  next
    case 4
    with ok show ?thesis
      by (auto simp: projectStreamBucket_def Let_def split: if_splits stream_variant.splits)
  qed
qed

lemma run_typed:
  assumes "run_ok r" and "\<forall>i\<in>set r. item_typed i"
  shows "message_typed (message_of_run r)"
proof -
  from assms(1) obtain x q where r: "r = x # q" by (auto simp: run_ok_def neq_Nil_conv)
  show ?thesis
  proof (cases x)
    case (UserItem t n m)
    with assms(2) r show ?thesis by simp
  next
    case (AssistantItem t n p c)
    have "\<not> is_user y" if "y \<in> set q" for y
    proof
      assume "is_user y"
      with assms(1) r that have "x # q = [y]" unfolding run_ok_def by (metis list.set_intros(2))
      with that show False by simp
    qed
    then have "part_typed Assistant (item_part y)" if "y \<in> set q" for y
      using assms(2) r that by (cases y) fastforce+
    with assms(2) r AssistantItem show ?thesis
      by (auto simp: message_typed_def open_message_def list_all_iff)
  qed
qed

text \<open>C15. The messages of a thread are well typed, whatever the events carry: every message has a part; a
  user's message holds text and its attached inputs only; every other part has the properties of
  its kind and no others, and a tool whose end has not come carries no outcome.\<close>

theorem thread_is_well_typed:
  "list_all message_typed (messages (projectReadonlyAssistantThread lc d es))"
proof -
  have "message_typed (message_of_run r)" if "r \<in> set (split_items (sorted_items lc es))" for r
  proof (rule run_typed [OF run_ok_split [OF that]])
    have "set r \<subseteq> set (sorted_items lc es)"
      using that concat_split_items [of "sorted_items lc es"] by (metis UN_upper set_concat)
    then show "\<forall>i\<in>set r. item_typed i"
      using all_items_typed by (auto simp: sorted_items_def)
  qed
  then show ?thesis
    by (simp add: projectReadonlyAssistantThread_def foldItems_runs list_all_iff)
qed

subsection \<open>The status of a tool\<close>

text \<open>The case that ends a call.\<close>

fun end_of :: "switch_case \<Rightarrow> switch_case" where
  "end_of CExecBegin = CExecEnd"
| "end_of (CPairBegin s) = CPairEnd s"
| "end_of c = c"

fun is_begin :: "switch_case \<Rightarrow> bool" where
  "is_begin CExecBegin = True"
| "is_begin (CPairBegin s) = True"
| "is_begin c = False"

lemma shown_parts:
  "set (concat (map parts (messages (projectReadonlyAssistantThread lc d es))))
     = (\<Union>i\<in>set (all_items (run_events es)). set (item_parts i))"
proof -
  have "set (concat (map parts (messages (projectReadonlyAssistantThread lc d es))))
      = set (concat (map item_parts (sorted_items lc es)))"
    by (simp only: projectReadonlyAssistantThread_def thread.simps parts_foldItems)
  then show ?thesis by (simp add: sorted_items_def)
qed

lemma exec_tool_shown:
  assumes "exec_spec es k = Some b" and "exec_ids b \<noteq> []"
  shows "\<exists>t. ToolPart t (exec_ids b) \<in> (\<Union>i\<in>set (all_items (run_events es)). set (item_parts i))
    \<and> (status t = Running \<longleftrightarrow> exec_end b = None)"
proof -
  obtain i where i: "projectExecBucket k b = Some i" using project_exec_some [OF assms(2)] by blast
  have "(k, b) \<in> set (execBuckets (run_events es))"
    using assms(1) by (intro map_get_mem) (simp add: exec_refine)
  with i have "i \<in> set (all_items (run_events es))"
    by (force simp: all_items_def bucket_items_def map_filter_in)
  with exec_tool_typed [OF i] show ?thesis by fastforce
qed

lemma pair_tool_shown:
  assumes "pair_spec es s k = Some b" and "pair_ids b \<noteq> []"
  shows "\<exists>t. ToolPart t (pair_ids b) \<in> (\<Union>i\<in>set (all_items (run_events es)). set (item_parts i))
    \<and> (status t = Running \<longleftrightarrow> pair_end b = None)"
proof -
  obtain i where i: "projectPair s k b = Some i" using project_pair_some [OF assms(2)] by blast
  have "(k, b) \<in> set (pairBuckets (run_events es) s)"
    using assms(1) by (intro map_get_mem) (simp add: pair_refine)
  moreover have "s \<in> set pair_stores" by (cases s) (simp_all add: pair_stores_def)
  ultimately have "i \<in> set (all_items (run_events es))"
    using i by (force simp: all_items_def bucket_items_def map_filter_in)
  with pair_tool_typed [OF i] show ?thesis by (fastforce simp: pair_tool_ok_def)
qed

lemma last_of_None [simp]: "last_of xs = None \<longleftrightarrow> xs = []"
  by (simp add: last_of_def)

lemma last_of_Some: "xs \<noteq> [] \<Longrightarrow> last_of xs = Some (last xs)"
  by (simp add: last_of_def)

text \<open>C16. A tool runs until its end: every command and every call that has begun is shown by a tool part
  that lists its last begin event, and the part is running exactly as long as no end event of the
  same kind with the same call id has come; a failed or completed tool never is shown running.\<close>

theorem tool_runs_until_end:
  assumes "e \<in> set es" and "case_of e = Some c" and "is_begin c"
  shows "\<exists>t ids. ToolPart t ids \<in> set (concat (map parts (messages (projectReadonlyAssistantThread lc d es))))
    \<and> event_id (last (exec_events c (bucketId e) es)) \<in> set ids
    \<and> (status t = Running \<longleftrightarrow> exec_events (end_of c) (bucketId e) es = [])"
proof -
  have begins: "exec_events c (bucketId e) es \<noteq> []"
    using assms(1,2) by (auto simp: exec_events_def filter_empty_conv)
  from assms(3) consider "c = CExecBegin" | s where "c = CPairBegin s" by (cases c) auto
  then show ?thesis
  proof cases
    case 1
    let ?b = "opt_default (exec_spec es (bucketId e)) new_exec_bucket"
    have "exec_spec es (bucketId e) = Some ?b"
      using begins 1 by (auto simp: exec_spec_def new_exec_bucket_def Let_def)
    moreover have "event_id (last (exec_events c (bucketId e) es)) \<in> set (exec_ids ?b)"
      using begins 1 by (simp add: exec_spec_default exec_ids_def last_of_Some)
    ultimately show ?thesis
      using exec_tool_shown [of es "bucketId e" ?b] 1
      unfolding shown_parts by (force simp: exec_spec_default)
  next
    case 2
    let ?b = "opt_default (pair_spec es s (bucketId e)) new_pair_bucket"
    have "pair_spec es s (bucketId e) = Some ?b"
      using begins 2 by (auto simp: pair_spec_def new_pair_bucket_def Let_def)
    moreover have "event_id (last (exec_events c (bucketId e) es)) \<in> set (pair_ids ?b)"
      using begins 2 by (simp add: pair_spec_default pair_ids_def last_of_Some)
    ultimately show ?thesis
      using pair_tool_shown [of es s "bucketId e" ?b] 2
      unfolding shown_parts by (force simp: pair_spec_default)
  qed
qed

lemma tool_runs_until_end_witness:
  "\<exists>t ids. ToolPart t ids \<in> set (concat (map parts (messages
       (projectReadonlyAssistantThread compare_units sample_detail sample_events))))
     \<and> event_id (last (exec_events CExecBegin (jstr ''c1'') sample_events)) \<in> set ids
     \<and> (status t = Running \<longleftrightarrow> exec_events CExecEnd (jstr ''c1'') sample_events = [])"
proof -
  let ?e = "sample_event ''e2'' ''t2'' ''exec_command_begin'' [(''call_id'', JStr (jstr ''c1''))]"
  have c: "case_of ?e = Some CExecBegin" and b: "bucketId ?e = jstr ''c1''"
    by code_simp+
  have "?e \<in> set sample_events" by (simp add: sample_events_def)
  from tool_runs_until_end [OF this c, of compare_units sample_detail] b show ?thesis by simp
qed

end
