(* ===== verification/History_Merge.thy ===== *)
theory History_Merge
  imports Events Js_Sort
begin

section \<open>Merging the events of a session\<close>

text \<open>
  \<open>compareEvents\<close>, \<open>sameEventIds\<close>, \<open>latestEventId\<close> and \<open>mergeSessionEvents\<close> of
  \<^verbatim>\<open>web/src/lib/session-history.ts\<close>. The same event can reach the browser twice (a persisted page
  and the live stream, or a replay after reconnecting); a merge keeps the first record of every
  identifier and sorts. The lemmas show that a merge is determined by the lookup it answers, so
  that merging is idempotent, incremental and independent of the order of arrival.
\<close>

definition compareEvents :: "(jsstring \<Rightarrow> jsstring \<Rightarrow> int) \<Rightarrow> event_record \<Rightarrow> event_record \<Rightarrow> int" where
  "compareEvents lc x y =
     (let timestampOrder = lc (timestamp x) (timestamp y) in
      if timestampOrder \<noteq> 0 then timestampOrder else lc (event_id x) (event_id y))"

definition sameEventIds :: "event_record list \<Rightarrow> event_record list \<Rightarrow> bool" where
  "sameEventIds xs ys \<longleftrightarrow> length xs = length ys
     \<and> list_all (\<lambda>(x, y). event_id x = event_id y) (zip xs ys)"

definition latestEventId :: "event_record list \<Rightarrow> jsstring option" where
  "latestEventId es = (if es = [] then None else Some (event_id (last es)))"

text \<open>\<open>if (!deduped.has(event.event_id)) deduped.set(event.event_id, event)\<close>.\<close>

definition dedupe_step ::
    "(jsstring, event_record) jsmap \<Rightarrow> event_record \<Rightarrow> (jsstring, event_record) jsmap" where
  "dedupe_step m e = (if map_get m (event_id e) = None then map_put m (event_id e) e else m)"

definition mergeSessionEvents ::
    "(jsstring \<Rightarrow> jsstring \<Rightarrow> int) \<Rightarrow> event_record list list \<Rightarrow> event_record list" where
  "mergeSessionEvents lc collections =
     js_sort (compareEvents lc)
       (map snd (foldl (\<lambda>m es. foldl dedupe_step m es) [] collections))"

subsection \<open>The comparator\<close>

lemma compareEvents_le:
  "compareEvents lc x y \<le> 0 \<longleftrightarrow>
     lc (timestamp x) (timestamp y) < 0
     \<or> lc (timestamp x) (timestamp y) = 0 \<and> lc (event_id x) (event_id y) \<le> 0"
  by (auto simp: compareEvents_def Let_def)

sublocale collation \<subseteq> by_event: comparator "compareEvents lc"
proof
  show "compareEvents lc x x = 0" for x
    by (simp add: compareEvents_def cmp_refl)
  show "sgn (compareEvents lc y x) = - sgn (compareEvents lc x y)" for x y
    using cmp_zero_flip [of "timestamp x" "timestamp y"]
      cmp_sgn [of "timestamp y" "timestamp x"] cmp_sgn [of "event_id y" "event_id x"]
    by (auto simp: compareEvents_def Let_def)
  show "compareEvents lc x z \<le> 0" if "compareEvents lc x y \<le> 0" "compareEvents lc y z \<le> 0" for x y z
  proof (cases "lc (timestamp x) (timestamp y) = 0 \<and> lc (timestamp y) (timestamp z) = 0")
    case True
    with that have "lc (event_id x) (event_id y) \<le> 0" "lc (event_id y) (event_id z) \<le> 0"
      by (simp_all add: compareEvents_le)
    then have "lc (event_id x) (event_id z) \<le> 0" by (rule cmp_trans)
    moreover have "lc (timestamp x) (timestamp z) = 0" using True cmp_zero_trans by blast
    ultimately show ?thesis by (simp add: compareEvents_le)
  next
    case False
    with that have "lc (timestamp x) (timestamp z) < 0"
      unfolding compareEvents_le by (metis cmp_less_le_trans cmp_le_less_trans order_le_less)
    then show ?thesis by (simp add: compareEvents_le)
  qed
qed

context collation
begin

lemma merge_sorted: "sorted_wrt (\<lambda>x y. compareEvents lc x y \<le> 0) (mergeSessionEvents lc cols)"
  unfolding mergeSessionEvents_def by (rule by_event.sorted_js_sort)

end

subsection \<open>The deduplicated records\<close>

abbreviation dedupe :: "event_record list \<Rightarrow> (jsstring, event_record) jsmap" where
  "dedupe es \<equiv> foldl dedupe_step [] es"

lemma foldl_concat: "foldl (\<lambda>m es. foldl f m es) m xss = foldl f m (concat xss)"
  by (induction xss arbitrary: m) simp_all

lemma mergeSessionEvents_concat:
  "mergeSessionEvents lc cols = js_sort (compareEvents lc) (map snd (dedupe (concat cols)))"
  by (simp add: mergeSessionEvents_def foldl_concat)

lemma dedupe_step_abs:
  "dedupe_step = (\<lambda>m x. if map_get m (event_id x) = None then map_put m (event_id x) x else m)"
  by (rule ext)+ (simp add: dedupe_step_def)

lemma dedupe_get: "map_get (dedupe es) k = List.find (\<lambda>e. event_id e = k) es"
  unfolding dedupe_step_abs by (simp add: jm.first_wins)

lemma dedupe_distinct: "distinct (map_keys (dedupe es))"
  unfolding dedupe_step_abs by (rule jm.distinct_fold) (simp add: map_keys_def)

lemma find_key: "List.find (\<lambda>e. event_id e = k) es = Some e \<Longrightarrow> event_id e = k \<and> e \<in> set es"
  by (auto simp: find_Some_iff)

lemma dedupe_key: "(k, e) \<in> set (dedupe es) \<Longrightarrow> event_id e = k"
  using dedupe_get [of es k] map_get_iff_mem [OF dedupe_distinct, of es k e] find_key by force

lemma dedupe_ids: "map event_id (map snd (dedupe es)) = map_keys (dedupe es)"
  using dedupe_key by (force simp: map_keys_def)

lemma dedupe_mem:
  "e \<in> snd ` set (dedupe es) \<longleftrightarrow> List.find (\<lambda>x. event_id x = event_id e) es = Some e"
proof
  assume "e \<in> snd ` set (dedupe es)"
  then obtain k where k: "(k, e) \<in> set (dedupe es)" by force
  with dedupe_key have "k = event_id e" by blast
  with k show "List.find (\<lambda>x. event_id x = event_id e) es = Some e"
    using dedupe_get [of es k] map_get_iff_mem [OF dedupe_distinct, of es k e] by simp
next
  assume "List.find (\<lambda>x. event_id x = event_id e) es = Some e"
  then show "e \<in> snd ` set (dedupe es)"
    using map_get_mem [of "dedupe es" "event_id e" e] by (force simp: dedupe_get)
qed

subsection \<open>What a merge holds\<close>

lemma set_merge:
  "e \<in> set (mergeSessionEvents lc cols) \<longleftrightarrow>
     List.find (\<lambda>x. event_id x = event_id e) (concat cols) = Some e"
  by (simp add: mergeSessionEvents_concat dedupe_mem)

lemma set_merge_subset: "set (mergeSessionEvents lc cols) \<subseteq> set (concat cols)"
  using find_key by (fastforce simp: set_merge)

lemma distinct_merge: "distinct (map event_id (mergeSessionEvents lc cols))"
  unfolding mergeSessionEvents_concat distinct_map_js_sort
  by (metis dedupe_distinct dedupe_ids)

lemma merge_ids: "event_id ` set (mergeSessionEvents lc cols) = event_id ` set (concat cols)"
proof -
  have "event_id ` set (mergeSessionEvents lc cols) = set (map event_id (map snd (dedupe (concat cols))))"
    by (simp add: mergeSessionEvents_concat image_image)
  also have "\<dots> = set (map_keys (dedupe (concat cols)))" by (simp only: dedupe_ids)
  also have "\<dots> = event_id ` set (concat cols)"
    unfolding dedupe_step_abs jm.keys_fold by (simp add: map_keys_def)
  finally show ?thesis .
qed

lemma find_unique:
  "distinct (map event_id es) \<Longrightarrow> e \<in> set es \<Longrightarrow> List.find (\<lambda>x. event_id x = event_id e) es = Some e"
proof (induction es)
  case (Cons x es)
  then show ?case by (auto simp: image_iff)
qed simp

lemma find_merge:
  "List.find (\<lambda>e. event_id e = k) (mergeSessionEvents lc cols) =
   List.find (\<lambda>e. event_id e = k) (concat cols)"
proof (cases "List.find (\<lambda>e. event_id e = k) (concat cols)")
  case None
  then have "k \<notin> event_id ` set (concat cols)" by (auto simp: find_None_iff)
  then have "k \<notin> event_id ` set (mergeSessionEvents lc cols)" by (simp only: merge_ids not_False_eq_True)
  then have "List.find (\<lambda>e. event_id e = k) (mergeSessionEvents lc cols) = None"
    unfolding find_None_iff by blast
  with None show ?thesis by simp
next
  case (Some e)
  then have "event_id e = k" using find_key by blast
  with Some show ?thesis
    using find_unique [OF distinct_merge, of e lc cols] by (simp add: set_merge)
qed

lemma find_append:
  "List.find P (xs @ ys) = (case List.find P xs of Some x \<Rightarrow> Some x | None \<Rightarrow> List.find P ys)"
  by (induction xs) simp_all

subsection \<open>A merge is determined by its lookup\<close>

lemma filter_at_most_one:
  assumes "distinct xs" "distinct ys" "set xs = set ys"
    and "\<And>x y. P x \<Longrightarrow> P y \<Longrightarrow> x \<in> set xs \<Longrightarrow> y \<in> set xs \<Longrightarrow> x = y"
  shows "filter P xs = filter P ys"
proof (cases "\<exists>x\<in>set xs. P x")
  case True
  then obtain x where x: "x \<in> set xs" "P x" by blast
  have single: "filter P zs = [x]" if "distinct zs" "set zs = set xs" for zs
  proof -
    have "set (filter P zs) = {x}" using x assms(4) that(2) by auto
    moreover have "distinct (filter P zs)" using that(1) by simp
    ultimately show ?thesis
      by (cases "filter P zs" rule: remdups_adj.cases) auto
  qed
  show ?thesis using single [OF assms(1)] single [OF assms(2)] assms(3) by simp
next
  case False
  with assms(3) show ?thesis by (metis filter_False)
qed

lemma find_same_set:
  assumes "set xs = set ys" "inj_on f (set xs)"
  shows "List.find (\<lambda>e. f e = k) xs = List.find (\<lambda>e. f e = k) ys"
proof (cases "List.find (\<lambda>e. f e = k) xs")
  case None
  then have "List.find (\<lambda>e. f e = k) ys = None" using assms(1) by (simp add: find_None_iff)
  with None show ?thesis by simp
next
  case (Some x)
  then have x: "f x = k" "x \<in> set xs" by (auto simp: find_Some_iff)
  with assms(1) obtain y where y: "List.find (\<lambda>e. f e = k) ys = Some y"
    by (cases "List.find (\<lambda>e. f e = k) ys") (auto simp: find_None_iff)
  then have "f y = k" "y \<in> set ys" by (auto simp: find_Some_iff)
  with x assms have "x = y" by (auto dest: inj_onD)
  with Some y show ?thesis by simp
qed

text \<open>The identifiers of some events are told apart by the collation (ECMA-402 lets it equate
  canonically equivalent strings; the identifiers are ASCII).\<close>

definition ids_apart :: "(jsstring \<Rightarrow> jsstring \<Rightarrow> int) \<Rightarrow> event_record list \<Rightarrow> bool" where
  "ids_apart lc es \<longleftrightarrow> (\<forall>x\<in>set es. \<forall>y\<in>set es.
     lc (event_id x) (event_id y) = 0 \<longrightarrow> event_id x = event_id y)"

lemma ids_apart_subset: "ids_apart lc es \<Longrightarrow> set ds \<subseteq> set es \<Longrightarrow> ids_apart lc ds"
  unfolding ids_apart_def by blast

lemma ids_apart_set: "set ds = set es \<Longrightarrow> ids_apart lc ds = ids_apart lc es"
  by (simp add: ids_apart_def)

lemma compareEvents_zero_id: "compareEvents lc x y = 0 \<Longrightarrow> lc (event_id x) (event_id y) = 0"
  by (auto simp: compareEvents_def Let_def split: if_splits)

context collation
begin

lemma merge_cong_set:
  assumes "sorted_wrt (\<lambda>x y. compareEvents lc x y \<le> 0) xs" "sorted_wrt (\<lambda>x y. compareEvents lc x y \<le> 0) ys"
    and "distinct (map event_id xs)" "distinct (map event_id ys)" and "set xs = set ys"
    and "ids_apart lc xs"
  shows "xs = ys"
proof (rule by_event.sorted_classes_unique [OF assms(1,2)])
  fix z
  let ?P = "\<lambda>y. compareEvents lc z y = 0"
  have P: "event_id x = event_id y" if "?P x" "?P y" "x \<in> set xs" "y \<in> set xs" for x y
  proof -
    have "compareEvents lc x y = 0"
      using that(1,2) by_event.cmp_zero_flip by_event.cmp_zero_trans by blast
    then have "lc (event_id x) (event_id y) = 0" by (rule compareEvents_zero_id)
    with assms(6) that(3,4) show ?thesis unfolding ids_apart_def by blast
  qed
  have one: "x = y" if "?P x" "?P y" "x \<in> set xs" "y \<in> set xs" for x y
    using P [OF that] that(3,4) assms(3) by (auto simp: distinct_map inj_on_def)
  have "filter ?P xs = filter ?P ys"
    by (rule filter_at_most_one) (use assms(3,4,5) one in \<open>auto simp: distinct_map\<close>)
  then show "filter ?P xs = filter ?P ys" .
qed

lemma merge_eqI:
  assumes "\<And>k. List.find (\<lambda>e. event_id e = k) (concat cols) = List.find (\<lambda>e. event_id e = k) (concat cols')"
    and "ids_apart lc (concat cols)"
  shows "mergeSessionEvents lc cols = mergeSessionEvents lc cols'"
proof (rule merge_cong_set)
  show "set (mergeSessionEvents lc cols) = set (mergeSessionEvents lc cols')"
    using assms(1) by (auto simp: set_merge)
  show "ids_apart lc (mergeSessionEvents lc cols)"
    by (rule ids_apart_subset [OF assms(2) set_merge_subset])
qed (rule merge_sorted distinct_merge)+

lemma merge_incremental:
  assumes "ids_apart lc (concat (cols @ cols'))"
  shows "mergeSessionEvents lc (mergeSessionEvents lc cols # cols') = mergeSessionEvents lc (cols @ cols')"
proof (rule merge_eqI)
  show "ids_apart lc (concat (mergeSessionEvents lc cols # cols'))"
    by (rule ids_apart_subset [OF assms]) (use set_merge_subset in fastforce)
qed (simp add: find_append find_merge)

end

subsection \<open>Properties\<close>

lemma units_ids_apart: "ids_apart compare_units es"
  by (auto simp: ids_apart_def dest: compare_units_zero)


definition sample_page :: "event_record list" where
  "sample_page = [sample_event ''e2'' ''t2'' ''user_message'' [(''message'', JStr (jstr ''hi''))],
     sample_event ''e1'' ''t1'' ''task_started'' []]"

definition sample_live :: "event_record list" where
  "sample_live = [sample_event ''e3'' ''t3'' ''task_complete'' [],
     sample_event ''e2'' ''t2'' ''user_message'' [(''message'', JStr (jstr ''hi''))]]"

text \<open>C18. A merge is sorted by time and identifier, holds every identifier once, and answers every
  lookup by identifier as the collections do, the first record winning; these three determine it.\<close>

theorem merge_spec:
  assumes "collation lc"
  shows "sorted_wrt (\<lambda>x y. compareEvents lc x y \<le> 0) (mergeSessionEvents lc cols)
    \<and> distinct (map event_id (mergeSessionEvents lc cols))
    \<and> (\<forall>k. List.find (\<lambda>e. event_id e = k) (mergeSessionEvents lc cols)
         = List.find (\<lambda>e. event_id e = k) (concat cols))"
  by (simp add: collation.merge_sorted [OF assms] distinct_merge find_merge)

lemma merge_spec_witness:
  "sorted_wrt (\<lambda>x y. compareEvents compare_units x y \<le> 0)
     (mergeSessionEvents compare_units [sample_page, sample_live])
   \<and> map event_id (mergeSessionEvents compare_units [sample_page, sample_live])
       = [jstr ''e1'', jstr ''e2'', jstr ''e3'']"
proof
  show "sorted_wrt (\<lambda>x y. compareEvents compare_units x y \<le> 0)
     (mergeSessionEvents compare_units [sample_page, sample_live])"
    using merge_spec [OF units.collation_axioms, of "[sample_page, sample_live]"] by blast
  show "map event_id (mergeSessionEvents compare_units [sample_page, sample_live])
      = [jstr ''e1'', jstr ''e2'', jstr ''e3'']"
    by (simp add: mergeSessionEvents_def sample_page_def sample_live_def sample_event_def
        dedupe_step_def map_get_def map_put_def compareEvents_def jstr_def unit_of_char_def)
qed

text \<open>C17. Convergence: when every identifier stands for one record, the result depends only on the
  set of records received. Pages, cached events and live events may arrive in any order, in any
  number of collections and any number of times.\<close>

theorem merge_converges:
  assumes "collation lc" and "ids_apart lc (concat cols)"
    and "set (concat cols) = set (concat cols')" and "inj_on event_id (set (concat cols))"
  shows "mergeSessionEvents lc cols = mergeSessionEvents lc cols'"
proof (rule collation.merge_eqI [OF assms(1) _ assms(2)])
  show "List.find (\<lambda>e. event_id e = k) (concat cols) = List.find (\<lambda>e. event_id e = k) (concat cols')"
    for k by (rule find_same_set) (rule assms(3) assms(4))+
qed

lemma merge_converges_witness:
  "mergeSessionEvents compare_units [sample_page, sample_live]
   = mergeSessionEvents compare_units [sample_live, [], sample_page @ sample_live]"
proof (rule merge_converges [OF units.collation_axioms units_ids_apart])
  show "inj_on event_id (set (concat [sample_page, sample_live]))"
    by (simp add: sample_page_def sample_live_def inj_on_def jstr_def unit_of_char_def)
qed auto

text \<open>Handling live events one at a time is the same as merging everything at once: merging a
  merge with further collections is the merge of all of them, so in particular merging twice
  changes nothing.\<close>

theorem merge_of_merge:
  assumes "collation lc" and "ids_apart lc (concat (cols @ cols'))"
  shows "mergeSessionEvents lc (mergeSessionEvents lc cols # cols') = mergeSessionEvents lc (cols @ cols')"
  by (rule collation.merge_incremental) (rule assms)+

lemma merge_of_merge_witness:
  "mergeSessionEvents compare_units [mergeSessionEvents compare_units [sample_page], sample_live]
   = mergeSessionEvents compare_units [sample_page, sample_live]"
  using merge_of_merge [OF units.collation_axioms units_ids_apart, of "[sample_page]" "[sample_live]"] by simp

end
