(* ===== verification/History_Load.thy ===== *)
theory History_Load
  imports History_Merge
begin

section \<open>Loading the persisted history\<close>

text \<open>
  \<open>loadSessionHistory\<close> of \<^verbatim>\<open>web/src/lib/session-history.ts\<close>: pages are requested until one comes
  without a cursor, then merged with the events that arrived over the live stream meanwhile. The
  loop ends only if the server lets it end, so it is a \<open>partial_function\<close> and its return is proved.
  A request can be rejected, and the table behind it grows between two requests: the answers are a
  function of the number of the request. \<open>keyset_pages\<close> is the contract of the hub's endpoint that
  the loop relies on.
\<close>

definition PAGE_LIMIT :: nat where
  "PAGE_LIMIT = 500"

record page_request =
  req_limit :: nat
  req_cursor :: "jsstring option"

type_synonym page_server = "nat \<Rightarrow> jsstring \<Rightarrow> page_request \<Rightarrow> jsstring + paginated_events"

definition nonempty :: "jsstring option \<Rightarrow> bool" where
  "nonempty c = (case c of None \<Rightarrow> False | Some s \<Rightarrow> s \<noteq> [])"

text \<open>\<open>cursor ? \{ limit: PAGE_LIMIT, cursor \} : \{ limit: PAGE_LIMIT \}\<close>.\<close>

definition page_request_for :: "jsstring option \<Rightarrow> page_request" where
  "page_request_for cursor = \<lparr>req_limit = PAGE_LIMIT, req_cursor = (if nonempty cursor then cursor else None)\<rparr>"

partial_function (option) load_pages ::
    "page_server \<Rightarrow> jsstring \<Rightarrow> nat \<Rightarrow> jsstring option \<Rightarrow> event_record list
     \<Rightarrow> (jsstring + event_record list) option" where
  "load_pages eventsPage threadId n cursor persisted =
     (case eventsPage n threadId (page_request_for cursor) of
        Inl err \<Rightarrow> Some (Inl err)
      | Inr page \<Rightarrow>
          if nonempty (next_cursor page)
          then load_pages eventsPage threadId (Suc n) (next_cursor page) (persisted @ items page)
          else Some (Inr (persisted @ items page)))"

definition loadSessionHistory ::
    "(jsstring \<Rightarrow> jsstring \<Rightarrow> int) \<Rightarrow> page_server \<Rightarrow> jsstring \<Rightarrow> event_record list
     \<Rightarrow> (jsstring + event_record list) option" where
  "loadSessionHistory lc eventsPage threadId buffered =
     map_option (\<lambda>r. case r of
         Inl err \<Rightarrow> Inl err
       | Inr persisted \<Rightarrow> Inr (mergeSessionEvents lc [persisted, buffered]))
       (load_pages eventsPage threadId 0 None [])"

lemma load_pages_last:
  "eventsPage n t (page_request_for c) = Inr page \<Longrightarrow> \<not> nonempty (next_cursor page) \<Longrightarrow>
   load_pages eventsPage t n c acc = Some (Inr (acc @ items page))"
  by (simp add: load_pages.simps [of eventsPage t n c acc])

lemma load_pages_next:
  "eventsPage n t (page_request_for c) = Inr page \<Longrightarrow> nonempty (next_cursor page) \<Longrightarrow>
   load_pages eventsPage t n c acc =
     load_pages eventsPage t (Suc n) (next_cursor page) (acc @ items page)"
  by (simp add: load_pages.simps [of eventsPage t n c acc])

lemma load_pages_rejected:
  "eventsPage n t (page_request_for c) = Inl err \<Longrightarrow> load_pages eventsPage t n c acc = Some (Inl err)"
  by (simp add: load_pages.simps [of eventsPage t n c acc])

subsection \<open>The contract of the events endpoint\<close>

text \<open>
  Keyset pagination over a growing set of records: \<open>stored n\<close> are the records when request \<open>n\<close> is
  answered, \<open>after c\<close> says which records lie behind a cursor. A page holds records behind the
  cursor; the last page holds all of them; any other page moves the cursor over at least one record
  and skips none.
\<close>

locale keyset_pages =
  fixes eventsPage :: page_server
    and threadId :: jsstring
    and stored :: "nat \<Rightarrow> event_record set"
    and after :: "jsstring option \<Rightarrow> event_record \<Rightarrow> bool"
    and valid :: "jsstring option \<Rightarrow> bool"
    and final :: nat
  assumes valid_start: "valid None" and after_start: "after None e"
    and finite_stored: "finite (stored n)"
    and stored_mono: "stored n \<subseteq> stored (Suc n)"
    and stored_final: "stored n \<subseteq> stored final"
    and answered: "valid c \<Longrightarrow> \<exists>page. eventsPage n threadId (page_request_for c) = Inr page"
    and page_stored: "valid c \<Longrightarrow> eventsPage n threadId (page_request_for c) = Inr page \<Longrightarrow>
      e \<in> set (items page) \<Longrightarrow> e \<in> stored n \<and> after c e"
    and last_page: "valid c \<Longrightarrow> eventsPage n threadId (page_request_for c) = Inr page \<Longrightarrow>
      \<not> nonempty (next_cursor page) \<Longrightarrow> e \<in> stored n \<Longrightarrow> after c e \<Longrightarrow> e \<in> set (items page)"
    and next_page: "valid c \<Longrightarrow> eventsPage n threadId (page_request_for c) = Inr page \<Longrightarrow>
      nonempty (next_cursor page) \<Longrightarrow>
      valid (next_cursor page) \<and> items page \<noteq> []
      \<and> (\<forall>e\<in>set (items page). \<not> after (next_cursor page) e)
      \<and> (\<forall>e. after (next_cursor page) e \<longrightarrow> after c e)
      \<and> (\<forall>e\<in>stored n. after c e \<longrightarrow> after (next_cursor page) e \<or> e \<in> set (items page))"
begin

lemma stored_le: "m \<le> n \<Longrightarrow> stored m \<subseteq> stored n"
  by (rule lift_Suc_mono_le [of stored]) (rule stored_mono)

definition ahead :: "jsstring option \<Rightarrow> event_record set" where
  "ahead c = {e \<in> stored final. after c e}"

lemma ahead_decreases:
  assumes "valid c" "eventsPage n threadId (page_request_for c) = Inr page"
    and "nonempty (next_cursor page)"
  shows "card (ahead (next_cursor page)) < card (ahead c)"
proof (rule psubset_card_mono)
  note nx = next_page [OF assms]
  show "finite (ahead c)" unfolding ahead_def using finite_stored by simp
  from nx obtain e where e: "e \<in> set (items page)" by (cases "items page") auto
  then have "e \<in> ahead c"
    using page_stored [OF assms(1,2)] stored_final by (auto simp: ahead_def)
  moreover have "e \<notin> ahead (next_cursor page)" using e nx by (simp add: ahead_def)
  moreover have "ahead (next_cursor page) \<subseteq> ahead c" using nx by (auto simp: ahead_def)
  ultimately show "ahead (next_cursor page) \<subset> ahead c" by blast
qed

text \<open>The loop returns, and what it returns holds every record that was stored behind the cursor
  when it began and only records that were stored when it ended.\<close>

lemma load_pages_returns:
  "valid c \<Longrightarrow>
   \<exists>es. load_pages eventsPage threadId n c acc = Some (Inr (acc @ es))
     \<and> {e \<in> stored n. after c e} \<subseteq> set es \<and> set es \<subseteq> {e \<in> stored final. after c e}"
proof (induction "card (ahead c)" arbitrary: c n acc rule: less_induct)
  case less
  from answered [OF less.prems] obtain page
    where page: "eventsPage n threadId (page_request_for c) = Inr page" by blast
  have sound: "set (items page) \<subseteq> {e \<in> stored final. after c e}"
    using page_stored [OF less.prems page] stored_final by blast
  show ?case
  proof (cases "nonempty (next_cursor page)")
    case False
    with last_page [OF less.prems page] sound load_pages_last [of eventsPage n threadId c page acc] page show ?thesis by blast
  next
    case True
    note nx = next_page [OF less.prems page True]
    have lt: "card (ahead (next_cursor page)) < card (ahead c)"
      by (rule ahead_decreases [OF less.prems page True])
    have "valid (next_cursor page)" using nx by simp
    from less.hyps [OF lt this, of "Suc n" "acc @ items page"] obtain es
      where es: "load_pages eventsPage threadId (Suc n) (next_cursor page) (acc @ items page)
           = Some (Inr ((acc @ items page) @ es))"
        "{e \<in> stored (Suc n). after (next_cursor page) e} \<subseteq> set es"
        "set es \<subseteq> {e \<in> stored final. after (next_cursor page) e}"
      by blast
    have "{e \<in> stored n. after c e} \<subseteq> set (items page @ es)"
      using es(2) nx stored_mono [of n] by auto
    moreover have "set (items page @ es) \<subseteq> {e \<in> stored final. after c e}"
      using es(3) nx sound by auto
    ultimately show ?thesis
      using es(1) load_pages_next [of eventsPage n threadId c page acc] page True by (intro exI [of _ "items page @ es"]) simp
  qed
qed

lemma load_returns:
  "\<exists>es. loadSessionHistory lc eventsPage threadId buffered = Some (Inr (mergeSessionEvents lc [es, buffered]))
     \<and> stored 0 \<subseteq> set es \<and> set es \<subseteq> stored final"
proof -
  from load_pages_returns [OF valid_start, of 0 "[]"] obtain es
    where "load_pages eventsPage threadId 0 None [] = Some (Inr es)"
      "stored 0 \<subseteq> set es" "set es \<subseteq> stored final"
    by (auto simp: after_start)
  then show ?thesis by (auto simp: loadSessionHistory_def)
qed

end

end
