(* ===== verification/Hub_Store.thy ===== *)
theory Hub_Store
  imports History_Load
begin

section \<open>The hub: the events table and its paged endpoint\<close>

text \<open>
  The other side of the history: \<open>AppendEventReturningID\<close>, the session event cursor and
  \<open>ListSessionEventsPage\<close> of \<^verbatim>\<open>internal/store/sqlite/store.go\<close> with the query
  \<open>ListSessionEventsSince\<close> of \<^verbatim>\<open>internal/store/query/events.sql\<close>, the handler of
  \<^verbatim>\<open>GET /sessions/{threadId}/events\<close> in \<^verbatim>\<open>internal/hub/http/query.go\<close> and the request that
  \<open>api.eventsPage\<close> of \<^verbatim>\<open>web/src/lib/api.ts\<close> makes of it. SQLite's BINARY order of text is the
  parameter \<open>bin\<close>, a strict comparator; \<open>time.Format\<close> is the parameter \<open>fmt\<close>.
\<close>

subsection \<open>Rows\<close>

record event_row =
  r_event_id :: jsstring
  r_proxy_instance_id :: jsstring
  r_client_source_key :: "jsstring option"
  r_session_id :: "jsstring option"
  r_turn_id :: "jsstring option"
  r_request_id :: "jsstring option"
  r_direction :: jsstring
  r_event_type :: jsstring
  r_occurred_at :: "64 word"
  r_raw_json :: js
  r_category :: jsstring
  r_command_call_id :: "jsstring option"
  r_tool_call_id :: "jsstring option"

record stored_event =
  ev_event_id :: jsstring
  ev_proxy_instance_id :: jsstring
  ev_client_source_key :: jsstring
  ev_session_id :: jsstring
  ev_turn_id :: jsstring
  ev_request_id :: jsstring
  ev_direction :: jsstring
  ev_event_type :: jsstring
  ev_category :: jsstring
  ev_command_call_id :: jsstring
  ev_tool_call_id :: jsstring
  ev_occurred_at :: "64 word"
  ev_raw_json :: js

definition nullString :: "jsstring \<Rightarrow> jsstring option" where
  "nullString s = (if s = [] then None else Some s)"

text \<open>\<open>newID("evt")\<close>, the hexadecimal digits of the random bytes being given.\<close>

definition newID :: "string \<Rightarrow> jsstring \<Rightarrow> jsstring" where
  "newID prefix hex = jstr prefix @ jstr ''-'' @ hex"

text \<open>The insertion fails when there is no payload (the column is \<open>NOT NULL\<close>, and a nil slice is \<open>NULL\<close>) and
  when the primary key is taken; it returns the identifier written.\<close>

definition AppendEventReturningID ::
    "jsstring \<Rightarrow> 64 word \<Rightarrow> stored_event \<Rightarrow> event_row list \<Rightarrow> (jsstring + jsstring) \<times> event_row list" where
  "AppendEventReturningID hex now r rows =
     (let eventID = (if ev_event_id r = [] then newID ''evt'' hex else ev_event_id r);
          occurredAt = (if ev_occurred_at r = 0 then now else ev_occurred_at r);
          dir = (if ev_direction r = [] then jstr ''codex_to_upstream'' else ev_direction r)
      in if ev_raw_json r = JUndef
         then (Inl (jstr ''NOT NULL constraint failed: events.raw_json''), rows)
         else if eventID \<in> r_event_id ` set rows
         then (Inl (jstr ''UNIQUE constraint failed: events.event_id''), rows)
         else (Inr eventID, rows @
           [\<lparr>r_event_id = eventID, r_proxy_instance_id = ev_proxy_instance_id r,
             r_client_source_key = nullString (ev_client_source_key r),
             r_session_id = nullString (ev_session_id r), r_turn_id = nullString (ev_turn_id r),
             r_request_id = nullString (ev_request_id r), r_direction = dir,
             r_event_type = ev_event_type r, r_occurred_at = occurredAt,
             r_raw_json = ev_raw_json r, r_category = ev_category r,
             r_command_call_id = nullString (ev_command_call_id r),
             r_tool_call_id = nullString (ev_tool_call_id r)\<rparr>]))"

definition eventRecordFromEventRow :: "event_row \<Rightarrow> stored_event" where
  "eventRecordFromEventRow row =
     \<lparr>ev_event_id = r_event_id row, ev_proxy_instance_id = r_proxy_instance_id row,
      ev_client_source_key = opt_default (r_client_source_key row) [],
      ev_session_id = opt_default (r_session_id row) [],
      ev_turn_id = opt_default (r_turn_id row) [],
      ev_request_id = opt_default (r_request_id row) [],
      ev_direction = r_direction row, ev_event_type = r_event_type row,
      ev_category = r_category row,
      ev_command_call_id = opt_default (r_command_call_id row) [],
      ev_tool_call_id = opt_default (r_tool_call_id row) [],
      ev_occurred_at = r_occurred_at row, ev_raw_json = r_raw_json row\<rparr>"

subsection \<open>The cursor\<close>

definition formatSessionEventCursor :: "64 word \<Rightarrow> jsstring \<Rightarrow> jsstring" where
  "formatSessionEventCursor occurredAt eventID =
     (if eventID = [] then [] else show_int (sint occurredAt) @ jstr ''|'' @ eventID)"

text \<open>\<open>strings.Cut(s, "|")\<close>.\<close>

definition cut_bar :: "jsstring \<Rightarrow> (jsstring \<times> jsstring) option" where
  "cut_bar s = (case dropWhile (\<lambda>c. c \<noteq> 0x7C) s of
     [] \<Rightarrow> None
   | _ # rest \<Rightarrow> Some (takeWhile (\<lambda>c. c \<noteq> 0x7C) s, rest))"

text \<open>\<open>strconv.ParseInt(s, 10, 64)\<close>: an optional sign, decimal digits, the range of \<open>int64\<close>.\<close>

fun parse_digits :: "nat \<Rightarrow> jsstring \<Rightarrow> nat option" where
  "parse_digits acc [] = Some acc"
| "parse_digits acc (c # cs) =
     (if 0x30 \<le> c \<and> c \<le> 0x39 then parse_digits (10 * acc + unat (c - 0x30)) cs else None)"

definition ParseInt :: "jsstring \<Rightarrow> int option" where
  "ParseInt s =
     (let (neg, ds) = (case s of
            [] \<Rightarrow> (False, [])
          | c # cs \<Rightarrow> if c = 0x2D then (True, cs) else if c = 0x2B then (False, cs) else (False, s))
      in if ds = [] then None
         else (case parse_digits 0 ds of
                 None \<Rightarrow> None
               | Some n \<Rightarrow>
                   let i = (if neg then - int n else int n) in
                   if - (2 ^ 63) \<le> i \<and> i < 2 ^ 63 then Some i else None))"

definition parseSessionEventCursor :: "jsstring \<Rightarrow> (64 word \<times> jsstring) option" where
  "parseSessionEventCursor cursor =
     (if cursor = [] then Some (0, [])
      else (case cut_bar cursor of
              None \<Rightarrow> None
            | Some (occurredAtRaw, eventID) \<Rightarrow>
                if occurredAtRaw = [] \<or> eventID = [] then None
                else map_option (\<lambda>i. (word_of_int i, eventID)) (ParseInt occurredAtRaw)))"

subsection \<open>The query and the page\<close>

text \<open>\<open>ORDER BY occurred_at ASC, event_id ASC\<close>.\<close>

definition row_compare :: "(jsstring \<Rightarrow> jsstring \<Rightarrow> int) \<Rightarrow> event_row \<Rightarrow> event_row \<Rightarrow> int" where
  "row_compare bin x y =
     (if r_occurred_at x \<noteq> r_occurred_at y
      then sint (r_occurred_at x) - sint (r_occurred_at y)
      else bin (r_event_id x) (r_event_id y))"

text \<open>\<open>LIMIT\<close> of SQLite: a negative number is no limit.\<close>

definition sql_limit :: "int \<Rightarrow> 'a list \<Rightarrow> 'a list" where
  "sql_limit n xs = (if n < 0 then xs else take (nat n) xs)"

lemma sql_limit_nat [simp]: "sql_limit (int n) xs = take n xs" "sql_limit (numeral k) xs = take (numeral k) xs"
  by (simp_all add: sql_limit_def)

text \<open>The result of an operation on Go's 64-bit \<open>int\<close>.\<close>

definition go_int :: "int \<Rightarrow> int" where
  "go_int n = signed_take_bit 63 n"

lemma go_int_small [simp]: "- (2 ^ 63) \<le> n \<Longrightarrow> n < 2 ^ 63 \<Longrightarrow> go_int n = n"
  by (simp add: go_int_def signed_take_bit_int_eq_self)

definition ListSessionEventsSince ::
    "(jsstring \<Rightarrow> jsstring \<Rightarrow> int) \<Rightarrow> event_row list \<Rightarrow> jsstring option \<Rightarrow> bool \<Rightarrow> 64 word \<Rightarrow> jsstring
     \<Rightarrow> int \<Rightarrow> event_row list" where
  "ListSessionEventsSince bin rows sessionID hasCursor occurredAt eventID limit =
     sql_limit limit (js_sort (row_compare bin)
       (filter (\<lambda>r. sessionID \<noteq> None \<and> r_session_id r = sessionID
          \<and> (\<not> hasCursor
             \<or> sint occurredAt < sint (r_occurred_at r)
             \<or> r_occurred_at r = occurredAt \<and> bin (r_event_id r) eventID > 0)) rows))"

text \<open>\<open>limit + 1\<close> is computed on \<open>int\<close>, so that for the greatest limit the query has none. The page is
  allocated with the capacity \<open>limit\<close>; that the allocation fails for a huge one is not modelled.\<close>

definition ListSessionEventsPage ::
    "(jsstring \<Rightarrow> jsstring \<Rightarrow> int) \<Rightarrow> event_row list \<Rightarrow> jsstring \<Rightarrow> int \<Rightarrow> jsstring
     \<Rightarrow> jsstring + (stored_event list \<times> jsstring)" where
  "ListSessionEventsPage bin rows sessionID limitArg cursor =
     (let limit = (if limitArg \<le> 0 then 100 else limitArg) in
      case parseSessionEventCursor cursor of
        None \<Rightarrow> Inl (jstr ''invalid session event cursor'')
      | Some (occurredAt, eventID) \<Rightarrow>
          let rs = ListSessionEventsSince bin rows (nullString sessionID) (cursor \<noteq> [])
                     occurredAt eventID (go_int (limit + 1));
              pageItems = map eventRecordFromEventRow (take (nat limit) rs)
          in Inr (pageItems,
               if nat limit < length rs
               then formatSessionEventCursor (ev_occurred_at (last pageItems)) (ev_event_id (last pageItems))
               else []))"

subsection \<open>The handler and the client's request\<close>

definition codex_event_types :: "string list" where
  "codex_event_types =
     [''codex/event'', ''session_configured'', ''task_started'', ''turn_started'', ''task_complete'',
      ''turn_complete'', ''token_count'', ''agent_message'', ''agent_message_delta'',
      ''agent_message_content_delta'', ''user_message'', ''agent_reasoning'',
      ''agent_reasoning_delta'', ''agent_reasoning_raw_content'',
      ''agent_reasoning_raw_content_delta'', ''agent_reasoning_section_break'',
      ''reasoning_content_delta'', ''reasoning_raw_content_delta'', ''exec_command_begin'',
      ''exec_command_output_delta'', ''exec_command_end'', ''exec_approval_request'',
      ''mcp_tool_call_begin'', ''mcp_tool_call_end'', ''apply_patch_approval_request'',
      ''patch_apply_begin'', ''patch_apply_end'', ''plan_update'', ''plan_delta'',
      ''turn_aborted'', ''turn_diff'', ''stream_error'', ''web_search_begin'',
      ''web_search_end'', ''background_event'']"

definition categoryForEvent :: "stored_event \<Rightarrow> jsstring" where
  "categoryForEvent r =
     (let t = ev_event_type r in
      if t = [] \<or> t = jstr ''raw_frame'' then jstr ''raw_frame''
      else if t = jstr ''response'' then jstr ''response''
      else if t = jstr ''error'' then jstr ''error''
      else if t \<in> set (map jstr codex_event_types) then jstr ''codex_event''
      else jstr ''jsonrpc_request'')"

text \<open>The record as the browser reads it: \<open>omitempty\<close> leaves empty properties out.\<close>

definition toEventDTO :: "(64 word \<Rightarrow> jsstring) \<Rightarrow> stored_event \<Rightarrow> event_record" where
  "toEventDTO fmt r =
     \<lparr>event_id = ev_event_id r, timestamp = (if ev_occurred_at r = 0 then [] else fmt (ev_occurred_at r)),
      proxy_instance_id = ev_proxy_instance_id r, source_key = ev_client_source_key r,
      thread_id = nullString (ev_session_id r), turn_id = nullString (ev_turn_id r),
      request_id = nullString (ev_request_id r), direction = ev_direction r,
      category = (if ev_category r = [] then categoryForEvent r else ev_category r),
      event_type = nullString (ev_event_type r),
      command_call_id = nullString (ev_command_call_id r),
      tool_call_id = nullString (ev_tool_call_id r), payload = ev_raw_json r\<rparr>"

datatype 'a http_response = HttpOk 'a | HttpError int jsstring

definition query_get :: "(jsstring \<times> jsstring) list \<Rightarrow> string \<Rightarrow> jsstring" where
  "query_get q k = opt_default (map_of q (jstr k)) []"

definition sessionEventsHandler ::
    "(jsstring \<Rightarrow> jsstring \<Rightarrow> int) \<Rightarrow> (64 word \<Rightarrow> jsstring) \<Rightarrow> event_row list option \<Rightarrow> jsstring
     \<Rightarrow> (jsstring \<times> jsstring) list \<Rightarrow> paginated_events http_response" where
  "sessionEventsHandler bin fmt st threadID q =
     (case st of
        None \<Rightarrow> HttpOk \<lparr>items = [], next_cursor = None\<rparr>
      | Some rows \<Rightarrow>
          let limit = (case ParseInt (query_get q ''limit'') of
                         Some n \<Rightarrow> if n > 0 then n else 100
                       | None \<Rightarrow> 100);
              c1 = query_get q ''cursor'';
              c2 = (if c1 = [] then query_get q ''after'' else c1);
              cursor = (if c2 = [] then query_get q ''before'' else c2)
          in if parseSessionEventCursor cursor = None
             then HttpError 400 (jstr ''Bad Request'')
             else (case ListSessionEventsPage bin rows threadID limit cursor of
                     Inl err \<Rightarrow> HttpError 500 (jstr ''Internal Server Error'')
                   | Inr (rs, nxt) \<Rightarrow>
                       HttpOk \<lparr>items = map (toEventDTO fmt) rs, next_cursor = nullString nxt\<rparr>))"

text \<open>The query string of \<open>api.eventsPage\<close>, as the list of its parameters.\<close>

definition eventsPage_query :: "page_request \<Rightarrow> (jsstring \<times> jsstring) list" where
  "eventsPage_query r =
     (if req_limit r \<noteq> 0 then [(jstr ''limit'', show_int (int (req_limit r)))] else [])
     @ (if nonempty (req_cursor r) then [(jstr ''cursor'', opt_default (req_cursor r) [])] else [])"

text \<open>\<open>getJSON\<close>: a response that is not ok becomes an error.\<close>

definition getJSON :: "'a http_response \<Rightarrow> jsstring + 'a" where
  "getJSON res = (case res of
     HttpOk v \<Rightarrow> Inr v
   | HttpError code reason \<Rightarrow> Inl (jstr ''request failed: '' @ show_int code @ jstr '' '' @ reason))"

text \<open>The endpoint as the browser sees it; \<open>tables n\<close> is the table when request \<open>n\<close> is answered.\<close>

definition hub_events_page ::
    "(jsstring \<Rightarrow> jsstring \<Rightarrow> int) \<Rightarrow> (64 word \<Rightarrow> jsstring) \<Rightarrow> (nat \<Rightarrow> event_row list) \<Rightarrow> page_server" where
  "hub_events_page bin fmt tables n threadId req =
     getJSON (sessionEventsHandler bin fmt (Some (tables n)) threadId (eventsPage_query req))"

text \<open>The table after the insertions of a list of batches, batch \<open>n\<close> before request \<open>n\<close>.\<close>

definition insert_all ::
    "event_row list \<Rightarrow> (jsstring \<times> 64 word \<times> stored_event) list \<Rightarrow> event_row list" where
  "insert_all rows entries = foldl (\<lambda>t (hex, now, r). snd (AppendEventReturningID hex now r t)) rows entries"

definition table_at :: "(jsstring \<times> 64 word \<times> stored_event) list list \<Rightarrow> nat \<Rightarrow> event_row list" where
  "table_at batches n = insert_all [] (concat (take (Suc n) batches))"

end
