(* ===== verification/Hub_Paging.thy ===== *)
theory Hub_Paging
  imports Hub_Store
begin

section \<open>Paging over the hub's table\<close>

text \<open>
  The cursor of a page round-trips, a page is a segment of the session's rows in key order, and the
  endpoint satisfies the contract \<open>keyset_pages\<close> for every history of insertions. Hence the paging
  loop of the browser returns and misses no event that was stored when it began, even when rows are
  inserted before, between and after its pages.
\<close>

subsection \<open>The cursor round-trips\<close>

lemma parse_digits_append:
  "parse_digits acc (xs @ ys) = (case parse_digits acc xs of None \<Rightarrow> None | Some n \<Rightarrow> parse_digits n ys)"
  by (induction acc xs rule: parse_digits.induct) simp_all

lemma unat_digit: "d < 10 \<Longrightarrow> unat (unit_of_char (char_of (48 + d))) = 48 + (d::nat)"
  by (simp add: of_char_of)

lemma parse_digit: "d < 10 \<Longrightarrow> parse_digits acc [unit_of_char (char_of (48 + d))] = Some (10 * acc + (d::nat))"
proof -
  assume d: "d < 10"
  let ?c = "unit_of_char (char_of (48 + d))"
  have "0x30 \<le> ?c" "?c \<le> 0x39" using d by (simp_all add: word_le_nat_alt of_char_of)
  moreover have "unat (?c - 0x30) = d"
    using d \<open>0x30 \<le> ?c\<close> by (simp add: unat_sub of_char_of)
  ultimately show ?thesis by simp
qed

lemma parse_digits_digits: "parse_digits 0 (jstr (digits n)) = Some n"
proof (induction n rule: digits.induct)
  case (1 n)
  show ?case
  proof (cases "n < 10")
    case True
    then show ?thesis using parse_digit [of n 0] by (simp add: digits.simps [of n] jstr_def)
  next
    case False
    have "parse_digits 0 (jstr (digits n)) =
        parse_digits (n div 10) [unit_of_char (char_of (48 + n mod 10))]"
      using 1 False by (simp add: digits.simps [of n] jstr_append parse_digits_append, simp add: jstr_def)
    also have "\<dots> = Some n" by (subst parse_digit) simp_all
    finally show ?thesis .
  qed
qed

lemma set_digits: "c \<in> set (digits n) \<Longrightarrow> 48 \<le> (of_char c :: nat) \<and> (of_char c :: nat) \<le> 57"
proof (induction n rule: digits.induct)
  case (1 n)
  then show ?case
    by (cases "n < 10") (auto simp: digits.simps [of n] of_char_of)
qed

lemma digits_not_Nil [simp]: "digits n \<noteq> []"
  by (simp add: digits.simps [of n])

lemma jstr_digits_ne: "c \<in> set (jstr (digits n)) \<Longrightarrow> 48 \<le> unat c \<and> unat c \<le> 57"
  by (auto simp: jstr_def dest: set_digits)

lemma ParseInt_show_int: "- (2 ^ 63) \<le> i \<Longrightarrow> i < 2 ^ 63 \<Longrightarrow> ParseInt (show_int i) = Some i"
proof (cases "i < 0")
  case True
  assume i: "- (2 ^ 63) \<le> i" "i < 2 ^ 63"
  have "show_int i = 0x2D # jstr (digits (nat (- i)))"
    using True by (simp add: show_int_def jstr_def unit_of_char_def)
  then show ?thesis using True i by (simp add: ParseInt_def parse_digits_digits)
next
  case False
  assume i: "- (2 ^ 63) \<le> i" "i < 2 ^ 63"
  obtain c cs where c: "jstr (digits (nat i)) = c # cs" by (cases "jstr (digits (nat i))") auto
  have "48 \<le> unat c" "unat c \<le> 57" using jstr_digits_ne [of c "nat i"] by (simp_all add: c)
  then have ne: "c \<noteq> 0x2D" "c \<noteq> 0x2B" by auto
  have "show_int i = c # cs" using False by (simp add: show_int_def c)
  moreover have "parse_digits 0 (c # cs) = Some (nat i)"
    using parse_digits_digits [of "nat i"] by (simp only: c)
  ultimately show ?thesis using False i ne by (simp add: ParseInt_def)
qed

lemma show_int_no_bar: "0x7C \<notin> set (show_int i)"
proof
  assume "0x7C \<in> set (show_int i)"
  then consider "(0x7C :: code_unit) = unit_of_char (CHR ''-'')"
    | n where "(0x7C :: code_unit) \<in> set (jstr (digits n))"
    by (auto simp: show_int_def jstr_def split: if_splits)
  then show False
  proof cases
    case 1
    then show ?thesis by (simp add: unit_of_char_def)
  next
    case 2
    then have "unat (0x7C :: code_unit) \<le> 57" using jstr_digits_ne by blast
    then show ?thesis by simp
  qed
qed

lemma show_int_not_Nil: "show_int i \<noteq> []"
  by (simp add: show_int_def)

lemma cut_bar_append: "0x7C \<notin> set xs \<Longrightarrow> cut_bar (xs @ jstr ''|'' @ ys) = Some (xs, ys)"
  by (induction xs) (auto simp: cut_bar_def jstr_def unit_of_char_def split: list.splits)

lemma cursor_roundtrip:
  "eid \<noteq> [] \<Longrightarrow> parseSessionEventCursor (formatSessionEventCursor ts eid) = Some (ts, eid)"
proof -
  assume ne: "eid \<noteq> []"
  have "- (2 ^ 63) \<le> sint ts" "sint ts < 2 ^ 63"
    using sint_ge [of ts] sint_lt [of ts] by simp_all
  then have "ParseInt (show_int (sint ts)) = Some (sint ts)" by (rule ParseInt_show_int)
  with ne show ?thesis
    by (simp add: formatSessionEventCursor_def parseSessionEventCursor_def cut_bar_append
        show_int_no_bar show_int_not_Nil)
qed

lemma cursor_not_Nil: "eid \<noteq> [] \<Longrightarrow> formatSessionEventCursor ts eid \<noteq> []"
  by (simp add: formatSessionEventCursor_def show_int_not_Nil)

subsection \<open>Rows in key order\<close>

type_synonym row_key = "64 word \<times> jsstring"

definition cmp_key :: "(jsstring \<Rightarrow> jsstring \<Rightarrow> int) \<Rightarrow> row_key \<Rightarrow> row_key \<Rightarrow> int" where
  "cmp_key bin k l =
     (if fst k \<noteq> fst l then sint (fst k) - sint (fst l) else bin (snd k) (snd l))"

definition row_key_of :: "event_row \<Rightarrow> row_key" where
  "row_key_of r = (r_occurred_at r, r_event_id r)"

lemma row_compare_key: "row_compare bin x y = cmp_key bin (row_key_of x) (row_key_of y)"
  by (simp add: row_compare_def cmp_key_def row_key_of_def)

lemma cmp_key_le:
  "cmp_key bin k l \<le> 0 \<longleftrightarrow>
     sint (fst k) < sint (fst l) \<or> fst k = fst l \<and> bin (snd k) (snd l) \<le> 0"
  by (auto simp: cmp_key_def signed_word_eqI order_le_less)

sublocale collation \<subseteq> by_key: comparator "cmp_key lc"
proof
  show "cmp_key lc x x = 0" for x by (simp add: cmp_key_def cmp_refl)
  show "sgn (cmp_key lc y x) = - sgn (cmp_key lc x y)" for x y
  proof (cases "fst x = fst y")
    case True
    then show ?thesis by (simp add: cmp_key_def cmp_sgn [of "snd y" "snd x"])
  qed (simp add: cmp_key_def sgn_if)
  show "cmp_key lc x z \<le> 0" if "cmp_key lc x y \<le> 0" "cmp_key lc y z \<le> 0" for x y z
    using that cmp_trans [of "snd x" "snd y" "snd z"] unfolding cmp_key_le by auto
qed

sublocale collation \<subseteq> by_row: comparator "row_compare lc"
  unfolding row_compare_key by (rule by_key.comparator_image)

text \<open>Behind a cursor: nothing is behind no cursor, every row is behind the start.\<close>

definition behind :: "(jsstring \<Rightarrow> jsstring \<Rightarrow> int) \<Rightarrow> jsstring option \<Rightarrow> event_row \<Rightarrow> bool" where
  "behind bin c r = (case c of
     None \<Rightarrow> True
   | Some s \<Rightarrow> (case parseSessionEventCursor s of
                  None \<Rightarrow> False | Some k \<Rightarrow> cmp_key bin k (row_key_of r) < 0))"

definition cursor_ok :: "jsstring option \<Rightarrow> bool" where
  "cursor_ok c \<longleftrightarrow> c = None \<or> (\<exists>ts eid. eid \<noteq> [] \<and> c = Some (formatSessionEventCursor ts eid))"

definition session_rows :: "event_row list \<Rightarrow> jsstring \<Rightarrow> event_row list" where
  "session_rows rows t = filter (\<lambda>r. t \<noteq> [] \<and> r_session_id r = Some t) rows"

definition page_rows ::
    "(jsstring \<Rightarrow> jsstring \<Rightarrow> int) \<Rightarrow> event_row list \<Rightarrow> jsstring \<Rightarrow> jsstring option \<Rightarrow> event_row list" where
  "page_rows bin rows t c = js_sort (row_compare bin) (filter (behind bin c) (session_rows rows t))"

definition row_dto :: "(64 word \<Rightarrow> jsstring) \<Rightarrow> event_row \<Rightarrow> event_record" where
  "row_dto fmt r = toEventDTO fmt (eventRecordFromEventRow r)"

lemma event_id_row_dto [simp]: "event_id (row_dto fmt r) = r_event_id r"
  by (simp add: row_dto_def toEventDTO_def eventRecordFromEventRow_def)

lemma session_filter: "(nullString t \<noteq> None \<and> r_session_id r = nullString t) = (t \<noteq> [] \<and> r_session_id r = Some t)"
  by (auto simp: nullString_def)

lemma behind_Some:
  "eid \<noteq> [] \<Longrightarrow> behind bin (Some (formatSessionEventCursor ts eid)) r \<longleftrightarrow>
     cmp_key bin (ts, eid) (row_key_of r) < 0"
  by (simp add: behind_def cursor_roundtrip)

lemma behind_where:
  assumes "collation bin"
  shows "cmp_key bin (ts, eid) (row_key_of r) < 0 \<longleftrightarrow>
     sint ts < sint (r_occurred_at r) \<or> r_occurred_at r = ts \<and> bin (r_event_id r) eid > 0"
  using comparator.cmp_neg_flip [OF collation.axioms [OF assms], of eid "r_event_id r"]
  by (auto simp: cmp_key_def row_key_of_def not_le)

lemma ParseInt_limit: "ParseInt (show_int 500) = Some 500"
  by (rule ParseInt_show_int) simp_all

lemma query_of_request:
  assumes "cursor_ok c"
  shows "query_get (eventsPage_query (page_request_for c)) ''limit'' = show_int 500"
    and "query_get (eventsPage_query (page_request_for c)) ''cursor'' = opt_default c []"
    and "query_get (eventsPage_query (page_request_for c)) ''after'' = []"
    and "query_get (eventsPage_query (page_request_for c)) ''before'' = []"
  using assms by (auto simp: query_get_def eventsPage_query_def page_request_for_def PAGE_LIMIT_def
      nonempty_def cursor_ok_def cursor_not_Nil)

lemma since_page:
  assumes "collation bin" "cursor_ok c" "parseSessionEventCursor (opt_default c []) = Some (ts, eid)"
  shows "ListSessionEventsSince bin rows (nullString t) (opt_default c [] \<noteq> []) ts eid m =
     sql_limit m (page_rows bin rows t c)"
proof -
  have "(\<not> (opt_default c [] \<noteq> []) \<or> sint ts < sint (r_occurred_at r)
          \<or> r_occurred_at r = ts \<and> bin (r_event_id r) eid > 0) = behind bin c r" for r
    using assms(2) unfolding cursor_ok_def
  proof
    assume "\<exists>ts eid. eid \<noteq> [] \<and> c = Some (formatSessionEventCursor ts eid)"
    then obtain ts' eid' where c: "eid' \<noteq> []" "c = Some (formatSessionEventCursor ts' eid')" by blast
    with assms(3) have "ts = ts'" "eid = eid'" by (simp_all add: cursor_roundtrip)
    with c show ?thesis by (simp add: behind_Some behind_where [OF assms(1)] cursor_not_Nil)
  qed (simp add: behind_def)
  then have "(nullString t \<noteq> None \<and> r_session_id r = nullString t
      \<and> (\<not> (opt_default c [] \<noteq> []) \<or> sint ts < sint (r_occurred_at r)
          \<or> r_occurred_at r = ts \<and> bin (r_event_id r) eid > 0)) =
      ((t \<noteq> [] \<and> r_session_id r = Some t) \<and> behind bin c r)" for r
    by (simp only:) (auto simp: nullString_def)
  then show ?thesis
    by (simp only: ListSessionEventsSince_def page_rows_def session_rows_def filter_filter)
qed

lemma cursor_ok_parses: "cursor_ok c \<Longrightarrow> \<exists>ts eid. parseSessionEventCursor (opt_default c []) = Some (ts, eid)"
  by (auto simp: cursor_ok_def cursor_roundtrip) (simp add: parseSessionEventCursor_def)

lemma handler_page:
  assumes "query_get q ''limit'' = show_int 500" "query_get q ''cursor'' = cur"
    and "query_get q ''after'' = []" "query_get q ''before'' = []"
    and "parseSessionEventCursor cur = Some k" "ListSessionEventsPage bin rows t 500 cur = Inr (rs, nxt)"
  shows "sessionEventsHandler bin fmt (Some rows) t q =
     HttpOk \<lparr>items = map (toEventDTO fmt) rs, next_cursor = nullString nxt\<rparr>"
  using assms by (cases "cur = []") (simp_all add: sessionEventsHandler_def ParseInt_limit Let_def)

lemma hub_page:
  assumes "collation bin" "cursor_ok c" and P_def: "P = page_rows bin (tables n) t c"
  shows "hub_events_page bin fmt tables n t (page_request_for c) =
     Inr \<lparr>items = map (row_dto fmt) (take 500 P),
          next_cursor = (if 500 < length P
             then nullString (formatSessionEventCursor (r_occurred_at (P ! 499)) (r_event_id (P ! 499)))
             else None)\<rparr>"
proof -
  obtain ts eid where k: "parseSessionEventCursor (opt_default c []) = Some (ts, eid)"
    using cursor_ok_parses [OF assms(2)] by blast
  note rows = since_page [OF assms(1,2) k, of "tables n" t, folded assms(3)]
  have len: "(500 < length (take 501 P)) = (500 < length P)" by auto
  have last: "last (map eventRecordFromEventRow (take 500 P)) = eventRecordFromEventRow (P ! 499)"
    if "500 < length P"
  proof -
    have ne: "take 500 P \<noteq> []" using that by auto
    have "last (take 500 P) = P ! 499" using that by (simp only: last_conv_nth [OF ne]) simp
    with ne show ?thesis by (simp add: last_map)
  qed
  have "ListSessionEventsPage bin (tables n) t 500 (opt_default c []) =
     Inr (map eventRecordFromEventRow (take 500 P),
          if 500 < length P
          then formatSessionEventCursor (r_occurred_at (P ! 499)) (r_event_id (P ! 499)) else [])"
    using last by (simp add: ListSessionEventsPage_def k rows Let_def len)
      (simp add: eventRecordFromEventRow_def)
  from handler_page [OF query_of_request [OF assms(2)] k this, of fmt]
  show ?thesis
    by (simp add: hub_events_page_def getJSON_def row_dto_def comp_def) (simp add: nullString_def)
qed

subsection \<open>The tables a sequence of insertions goes through\<close>

definition rows_ok :: "event_row list \<Rightarrow> bool" where
  "rows_ok rows \<longleftrightarrow> distinct (map r_event_id rows) \<and> [] \<notin> r_event_id ` set rows
     \<and> JUndef \<notin> r_raw_json ` set rows"

lemma rows_same_id: "rows_ok rows \<Longrightarrow> q \<in> set rows \<Longrightarrow> r \<in> set rows \<Longrightarrow> r_event_id q = r_event_id r \<Longrightarrow> q = r"
  by (auto simp: rows_ok_def distinct_map dest: inj_onD)

lemma append_event_rows:
  "\<exists>new. snd (AppendEventReturningID hex now r rows) = rows @ new
     \<and> (rows_ok rows \<longrightarrow> rows_ok (rows @ new))"
  by (auto simp: AppendEventReturningID_def Let_def rows_ok_def newID_def)

lemma insert_all_rows:
  "\<exists>new. insert_all rows entries = rows @ new \<and> (rows_ok rows \<longrightarrow> rows_ok (rows @ new))"
proof (induction entries arbitrary: rows)
  case Nil
  show ?case by (simp add: insert_all_def)
next
  case (Cons x entries)
  obtain hex now r where x: "x = (hex, now, r)" by (cases x) auto
  obtain new where new: "snd (AppendEventReturningID hex now r rows) = rows @ new"
      "rows_ok rows \<longrightarrow> rows_ok (rows @ new)"
    using append_event_rows by blast
  from Cons [of "rows @ new"] new show ?case by (auto simp: insert_all_def x)
qed

lemma insert_all_append: "insert_all rows (xs @ ys) = insert_all (insert_all rows xs) ys"
  by (simp add: insert_all_def)

lemma rows_ok_table_at: "rows_ok (table_at batches n)"
  using insert_all_rows [of "[]" "concat (take (Suc n) batches)"]
  by (auto simp: table_at_def rows_ok_def)

lemma table_at_prefix:
  assumes "m \<le> n" shows "\<exists>new. table_at batches n = table_at batches m @ new"
proof -
  have "take (Suc n) batches = take (Suc m) batches @ take (n - m) (drop (Suc m) batches)"
    using assms by (metis Suc_diff_Suc add_Suc diff_Suc_Suc le_add_diff_inverse take_add)
  then show ?thesis
    unfolding table_at_def by (metis concat_append insert_all_append insert_all_rows)
qed

lemma table_at_subset: "m \<le> n \<Longrightarrow> set (table_at batches m) \<subseteq> set (table_at batches n)"
  using table_at_prefix [of m n batches] by auto

lemma table_at_final: "set (table_at batches n) \<subseteq> set (table_at batches (length batches))"
  by (cases "n \<le> length batches") (simp_all add: table_at_subset, simp add: table_at_def)

subsection \<open>A page is a segment\<close>

lemma set_page_rows: "r \<in> set (page_rows bin rows t c) \<longleftrightarrow> r \<in> set (session_rows rows t) \<and> behind bin c r"
  by (auto simp: page_rows_def)

lemma distinct_page_rows: "rows_ok rows \<Longrightarrow> distinct (map r_event_id (page_rows bin rows t c))"
  by (simp add: page_rows_def rows_ok_def session_rows_def distinct_map_filter)

lemma page_row_ids: "rows_ok rows \<Longrightarrow> r \<in> set (page_rows bin rows t c) \<Longrightarrow> r_event_id r \<noteq> []"
  by (auto simp: set_page_rows session_rows_def rows_ok_def) (metis image_eqI)

text \<open>The cursor after a row.\<close>

definition cursor_at :: "event_row \<Rightarrow> jsstring option" where
  "cursor_at r = nullString (formatSessionEventCursor (r_occurred_at r) (r_event_id r))"

lemma cursor_at_Some:
  "r_event_id r \<noteq> [] \<Longrightarrow> cursor_at r = Some (formatSessionEventCursor (r_occurred_at r) (r_event_id r))"
  by (simp add: cursor_at_def nullString_def cursor_not_Nil)

lemma cursor_at_ok: "r_event_id r \<noteq> [] \<Longrightarrow> cursor_ok (cursor_at r) \<and> nonempty (cursor_at r)"
  by (auto simp: cursor_at_Some cursor_ok_def nonempty_def cursor_not_Nil)

lemma behind_cursor_at:
  "r_event_id l \<noteq> [] \<Longrightarrow> behind bin (cursor_at l) r \<longleftrightarrow> row_compare bin l r < 0"
  by (simp add: cursor_at_Some behind_Some row_compare_key row_key_of_def)

context strict_collation
begin

lemma row_compare_zero: "row_compare lc x y = 0 \<Longrightarrow> r_event_id x = r_event_id y"
  using lc_zero by (auto simp: row_compare_def signed_word_eqI split: if_splits)

lemma page_sorted:
  "i \<le> j \<Longrightarrow> j < length (page_rows lc rows t c) \<Longrightarrow>
   row_compare lc (page_rows lc rows t c ! i) (page_rows lc rows t c ! j) \<le> 0"
proof (cases "i = j")
  case True
  then show ?thesis by (simp add: by_row.cmp_refl)
next
  case False
  assume "i \<le> j" "j < length (page_rows lc rows t c)"
  with False show ?thesis
    using by_row.sorted_js_sort unfolding page_rows_def
    by (intro sorted_wrt_nth_less [where P = "\<lambda>x y. row_compare lc x y \<le> 0"]) auto
qed

lemma page_items_not_behind:
  assumes "m < length (page_rows lc rows t c)" "r \<in> set (take (Suc m) (page_rows lc rows t c))"
  shows "\<not> row_compare lc (page_rows lc rows t c ! m) r < 0"
proof -
  from assms obtain i where "i \<le> m" "r = page_rows lc rows t c ! i"
    by (auto simp: in_set_conv_nth less_Suc_eq_le)
  with page_sorted [of i m] assms(1) have "row_compare lc r (page_rows lc rows t c ! m) \<le> 0" by simp
  then show ?thesis by (simp add: by_row.cmp_neg_flip)
qed

lemma page_rest_behind:
  assumes "rows_ok rows" "m < length (page_rows lc rows t c)" "r \<in> set (page_rows lc rows t c)"
  shows "r \<in> set (take (Suc m) (page_rows lc rows t c)) \<or> row_compare lc (page_rows lc rows t c ! m) r < 0"
proof -
  let ?P = "page_rows lc rows t c"
  from assms(3) obtain j where j: "j < length ?P" "r = ?P ! j" by (auto simp: in_set_conv_nth)
  show ?thesis
  proof (cases "j < Suc m")
    case True
    with j show ?thesis by (auto simp: in_set_conv_nth)
  next
    case False
    with j have "row_compare lc (?P ! m) r \<le> 0" using page_sorted [of m j] by simp
    moreover have "row_compare lc (?P ! m) r \<noteq> 0"
    proof
      assume "row_compare lc (?P ! m) r = 0"
      then have "map r_event_id ?P ! m = map r_event_id ?P ! j"
        using row_compare_zero j assms(2) by simp
      with distinct_page_rows [OF assms(1), of lc t c] j(1) assms(2) False show False
        by (simp only: nth_eq_iff_index_eq length_map)
    qed
    ultimately show ?thesis by simp
  qed
qed

lemma behind_mono:
  assumes "behind lc c l" "row_compare lc l r < 0"
  shows "behind lc c r"
  using assms by_key.cmp_le_less_trans [of _ "row_key_of l" "row_key_of r"]
  by (auto simp: behind_def row_compare_key split: option.splits)

end

subsection \<open>The endpoint satisfies the contract\<close>

definition stored_dtos :: "(64 word \<Rightarrow> jsstring) \<Rightarrow> event_row list \<Rightarrow> jsstring \<Rightarrow> event_record set" where
  "stored_dtos fmt rows t = row_dto fmt ` set (session_rows rows t)"

definition dto_behind ::
    "(jsstring \<Rightarrow> jsstring \<Rightarrow> int) \<Rightarrow> (64 word \<Rightarrow> jsstring) \<Rightarrow> event_row list \<Rightarrow> jsstring option
     \<Rightarrow> event_record \<Rightarrow> bool" where
  "dto_behind bin fmt rows c e \<longleftrightarrow> c = None \<or> (\<exists>r\<in>set rows. row_dto fmt r = e \<and> behind bin c r)"

lemma dto_behind_row:
  assumes "rows_ok rows" "r \<in> set rows"
  shows "dto_behind bin fmt rows c (row_dto fmt r) \<longleftrightarrow> behind bin c r"
proof -
  have "q = r" if "q \<in> set rows" "row_dto fmt q = row_dto fmt r" for q
    using that assms event_id_row_dto by (metis rows_ok_def distinct_map inj_onD)
  with assms(2) show ?thesis by (auto simp: dto_behind_def behind_def)
qed

text \<open>The rows of a sequence of tables that only grows.\<close>

locale growing_tables =
  fixes tables :: "nat \<Rightarrow> event_row list" and final :: nat
  assumes tables_ok: "rows_ok (tables n)"
    and tables_grow: "set (tables n) \<subseteq> set (tables (Suc n))"
    and tables_final: "set (tables n) \<subseteq> set (tables final)"

interpretation inserted: growing_tables "table_at batches" "length batches"
  for batches
  by unfold_locales (rule rows_ok_table_at table_at_final table_at_subset le_SucI order_refl)+

locale hub_tables = growing_tables tables final + strict_collation bin
  for tables final and bin :: "jsstring \<Rightarrow> jsstring \<Rightarrow> int" +
  fixes fmt :: "64 word \<Rightarrow> jsstring" and t :: jsstring
begin

abbreviation P :: "nat \<Rightarrow> jsstring option \<Rightarrow> event_row list" where
  "P n c \<equiv> page_rows bin (tables n) t c"

lemma page_eq:
  assumes "cursor_ok c" "hub_events_page bin fmt tables n t (page_request_for c) = Inr page"
  shows "items page = map (row_dto fmt) (take 500 (P n c))"
    and "next_cursor page = (if 500 < length (P n c) then cursor_at (P n c ! 499) else None)"
  using assms hub_page [OF collation_axioms assms(1) refl, of fmt tables n t]
  by (auto simp: cursor_at_def)

lemma in_final: "r \<in> set (session_rows (tables n) t) \<Longrightarrow> r \<in> set (tables final)"
  using tables_final [of n] by (auto simp: session_rows_def)

lemma dto_behind_iff:
  "r \<in> set (session_rows (tables n) t) \<Longrightarrow> dto_behind bin fmt (tables final) c (row_dto fmt r) = behind bin c r"
  using in_final by (intro dto_behind_row) (simp_all add: tables_ok)

end

sublocale hub_tables \<subseteq> pages: keyset_pages "hub_events_page bin fmt tables" t
    "\<lambda>n. stored_dtos fmt (tables n) t" "dto_behind bin fmt (tables final)" cursor_ok final
proof
  show "cursor_ok None" by (simp add: cursor_ok_def)
  show "dto_behind bin fmt (tables final) None e" for e by (simp add: dto_behind_def)
  show "finite (stored_dtos fmt (tables n) t)" for n by (simp add: stored_dtos_def)
  show "stored_dtos fmt (tables n) t \<subseteq> stored_dtos fmt (tables (Suc n)) t" for n
    using tables_grow [of n] by (auto simp: stored_dtos_def session_rows_def)
  show "stored_dtos fmt (tables n) t \<subseteq> stored_dtos fmt (tables final) t" for n
    using tables_final [of n] by (auto simp: stored_dtos_def session_rows_def)
  fix c n
  assume c: "cursor_ok c"
  show "\<exists>page. hub_events_page bin fmt tables n t (page_request_for c) = Inr page"
    using hub_page [OF collation_axioms c refl, of fmt tables n t] by blast
  fix page e
  assume page: "hub_events_page bin fmt tables n t (page_request_for c) = Inr page"
  note eq = page_eq [OF c page]
  have P: "r \<in> set (P n c) \<longleftrightarrow> r \<in> set (session_rows (tables n) t) \<and> behind bin c r" for r
    by (rule set_page_rows)
  show "e \<in> stored_dtos fmt (tables n) t \<and> dto_behind bin fmt (tables final) c e" if "e \<in> set (items page)"
  proof -
    from that obtain r where r: "r \<in> set (P n c)" "e = row_dto fmt r"
      unfolding eq by (auto dest: in_set_takeD)
    with P dto_behind_iff show ?thesis by (auto simp: stored_dtos_def)
  qed
  show "e \<in> set (items page)" if "\<not> nonempty (next_cursor page)"
      "e \<in> stored_dtos fmt (tables n) t" "dto_behind bin fmt (tables final) c e"
  proof -
    have "length (P n c) \<le> 500"
    proof (rule ccontr)
      assume "\<not> length (P n c) \<le> 500"
      then have "P n c ! 499 \<in> set (P n c)" "next_cursor page = cursor_at (P n c ! 499)"
        by (simp_all add: eq)
      with cursor_at_ok page_row_ids [OF tables_ok] that(1) show False by metis
    qed
    with that P show ?thesis by (auto simp: eq stored_dtos_def dto_behind_iff)
  qed
  assume more: "nonempty (next_cursor page)"
  let ?l = "P n c ! 499"
  have len: "500 < length (P n c)" using more by (auto simp: eq nonempty_def split: if_splits)
  then have "?l \<in> set (P n c)" by simp
  with page_row_ids [OF tables_ok] have l: "?l \<in> set (P n c)" "r_event_id ?l \<noteq> []" by blast+
  have nc: "next_cursor page = cursor_at ?l" using len by (simp add: eq)
  have sub: "r \<in> set (session_rows (tables n) t)" if "r \<in> set (take 500 (P n c))" for r
    using that P in_set_takeD by metis
  show "cursor_ok (next_cursor page) \<and> items page \<noteq> []
      \<and> (\<forall>e\<in>set (items page). \<not> dto_behind bin fmt (tables final) (next_cursor page) e)
      \<and> (\<forall>e. dto_behind bin fmt (tables final) (next_cursor page) e \<longrightarrow>
            dto_behind bin fmt (tables final) c e)
      \<and> (\<forall>e\<in>stored_dtos fmt (tables n) t. dto_behind bin fmt (tables final) c e \<longrightarrow>
            dto_behind bin fmt (tables final) (next_cursor page) e \<or> e \<in> set (items page))"
  proof (intro conjI ballI allI impI)
    show "cursor_ok (next_cursor page)" using cursor_at_ok [OF l(2)] by (simp add: nc)
    show "items page \<noteq> []" using len by (auto simp: eq)
    show "\<not> dto_behind bin fmt (tables final) (next_cursor page) e" if "e \<in> set (items page)" for e
    proof -
      from that obtain r where r: "r \<in> set (take 500 (P n c))" "e = row_dto fmt r" by (auto simp: eq(1))
      then have "\<not> row_compare bin ?l r < 0"
        using page_items_not_behind [of 499 "tables n" t c r] len by simp
      with dto_behind_iff [OF sub [OF r(1)]] show ?thesis
        by (simp add: r(2) nc behind_cursor_at [OF l(2)])
    qed
    show "dto_behind bin fmt (tables final) c e" if "dto_behind bin fmt (tables final) (next_cursor page) e" for e
    proof -
      from that obtain r where r: "r \<in> set (tables final)" "row_dto fmt r = e"
          "behind bin (cursor_at ?l) r"
        by (auto simp: dto_behind_def nc cursor_at_Some [OF l(2)])
      from r(3) have "row_compare bin ?l r < 0" by (simp only: behind_cursor_at [OF l(2)])
      with l(1) P have "behind bin c r" using behind_mono by blast
      with r show ?thesis by (auto simp: dto_behind_def)
    qed
    show "dto_behind bin fmt (tables final) (next_cursor page) e \<or> e \<in> set (items page)"
      if "e \<in> stored_dtos fmt (tables n) t" "dto_behind bin fmt (tables final) c e" for e
    proof -
      from that(1) obtain r where r: "r \<in> set (session_rows (tables n) t)" "e = row_dto fmt r"
        by (auto simp: stored_dtos_def)
      with that(2) have "r \<in> set (P n c)" by (simp add: P dto_behind_iff)
      from page_rest_behind [OF tables_ok _ this, of 499] len r show ?thesis
        by (auto simp: eq(1) nc dto_behind_iff [OF r(1)] behind_cursor_at [OF l(2)])
    qed
  qed
qed

context hub_tables
begin

lemma ids_stored: "event_id ` stored_dtos fmt rows t = r_event_id ` set (session_rows rows t)"
  by (simp add: stored_dtos_def image_image)

lemma history_loaded:
  "\<exists>es. loadSessionHistory lc (hub_events_page bin fmt tables) t buffered
       = Some (Inr (mergeSessionEvents lc [es, buffered]))
     \<and> r_event_id ` set (session_rows (tables 0) t) \<subseteq> event_id ` set es
     \<and> event_id ` set es \<subseteq> r_event_id ` set (session_rows (tables final) t)"
  using pages.load_returns [of lc buffered] by (metis ids_stored image_mono)

text \<open>A stored record is in the history as it is, not another record of its identifier.\<close>

lemma stored_in_history:
  assumes "r \<in> set (session_rows (tables 0) t)"
  shows "\<exists>es. loadSessionHistory lc (hub_events_page bin fmt tables) t []
      = Some (Inr es) \<and> List.find (\<lambda>e. event_id e = r_event_id r) es = Some (row_dto fmt r)"
proof -
  from pages.load_returns [of lc "[]"] obtain es where es:
    "loadSessionHistory lc (hub_events_page bin fmt tables) t [] = Some (Inr (mergeSessionEvents lc [es, []]))"
    "stored_dtos fmt (tables 0) t \<subseteq> set es" "set es \<subseteq> stored_dtos fmt (tables final) t" by blast
  have "row_dto fmt r \<in> set es" using es(2) assms by (auto simp: stored_dtos_def)
  then obtain e where e: "List.find (\<lambda>e. event_id e = r_event_id r) es = Some e"
    by (cases "List.find (\<lambda>e. event_id e = r_event_id r) es") (auto simp: find_None_iff)
  then have "event_id e = r_event_id r" "e \<in> set es" by (auto simp: find_Some_iff)
  with es(3) obtain q where q: "q \<in> set (session_rows (tables final) t)" "e = row_dto fmt q"
      "r_event_id q = r_event_id r"
    by (auto simp: stored_dtos_def)
  have "q \<in> set (tables final)" "r \<in> set (tables final)" using in_final q(1) assms by blast+
  with q(3) tables_ok [of final] have "q = r" by (auto simp: rows_ok_def distinct_map dest: inj_onD)
  with e q es(1) show ?thesis by (simp add: find_merge)
qed

end

interpretation units_hub: hub_tables "table_at batches" "length batches" compare_units fmt t
  for batches fmt t
  by unfold_locales

subsection \<open>Properties\<close>

definition sample_stored :: "string \<Rightarrow> 64 word \<Rightarrow> stored_event" where
  "sample_stored i ts = \<lparr>ev_event_id = jstr i, ev_proxy_instance_id = jstr ''proxy-1'',
     ev_client_source_key = jstr ''src'', ev_session_id = jstr ''th'', ev_turn_id = [],
     ev_request_id = [], ev_direction = [], ev_event_type = jstr ''agent_message'', ev_category = [],
     ev_command_call_id = [], ev_tool_call_id = [], ev_occurred_at = ts, ev_raw_json = JObj []\<rparr>"

definition sample_batches :: "(jsstring \<times> 64 word \<times> stored_event) list list" where
  "sample_batches = [[(jstr ''0a'', 7, sample_stored ''evt-1'' 5), (jstr ''0b'', 7, sample_stored [] 0)],
     [(jstr ''0c'', 9, sample_stored ''evt-1'' 9), (jstr ''0d'', 9, sample_stored ''evt-2'' 3)]]"

text \<open>C9. The history is loaded completely: whatever rows are inserted into the hub's table before
  and between the page requests, with whatever timestamps, the paging loop returns, and the result
  holds every event of the thread that was in the table when the loop began and every event that
  the live stream delivered meanwhile, and only events of the thread or of the stream.\<close>

theorem history_load_complete:
  assumes "strict_collation bin"
  shows "\<exists>es. loadSessionHistory lc (hub_events_page bin fmt (table_at batches)) t buffered = Some (Inr es)
    \<and> r_event_id ` set (session_rows (table_at batches 0) t) \<union> event_id ` set buffered
        \<subseteq> event_id ` set es
    \<and> event_id ` set es
        \<subseteq> r_event_id ` set (session_rows (table_at batches (length batches)) t) \<union> event_id ` set buffered
    \<and> distinct (map event_id es)"
proof -
  have "hub_tables (table_at batches) (length batches) bin"
    by (rule hub_tables.intro) (rule inserted.growing_tables_axioms assms)+
  from hub_tables.history_loaded [OF this, of lc fmt t buffered] obtain es where
    "loadSessionHistory lc (hub_events_page bin fmt (table_at batches)) t buffered
       = Some (Inr (mergeSessionEvents lc [es, buffered]))"
    "r_event_id ` set (session_rows (table_at batches 0) t) \<subseteq> event_id ` set es"
    "event_id ` set es \<subseteq> r_event_id ` set (session_rows (table_at batches (length batches)) t)"
    by blast
  then show ?thesis using merge_ids [of lc "[es, buffered]"] distinct_merge by (auto simp: image_Un)
qed

lemma history_load_complete_witness:
  "\<exists>es. loadSessionHistory compare_units
       (hub_events_page compare_units (\<lambda>w. show_int (sint w)) (table_at sample_batches)) (jstr ''th'')
       sample_live = Some (Inr es)
    \<and> {jstr ''evt-1'', jstr ''evt-0b'', jstr ''e3'', jstr ''e2''} \<subseteq> event_id ` set es"
proof -
  have "r_event_id ` set (session_rows (table_at sample_batches 0) (jstr ''th'')) \<union> event_id ` set sample_live
      = {jstr ''evt-1'', jstr ''evt-0b'', jstr ''e3'', jstr ''e2''}"
    by (auto simp: table_at_def sample_batches_def insert_all_def AppendEventReturningID_def
        sample_stored_def session_rows_def nullString_def newID_def sample_live_def jstr_def
        unit_of_char_def Let_def)
  with history_load_complete [OF units.strict_collation_axioms, of compare_units
      "\<lambda>w. show_int (sint w)" sample_batches "jstr ''th''" sample_live]
  show ?thesis by metis
qed

end
