(* ===== verification/History_Hook.thy ===== *)
theory History_Hook
  imports History_Load
begin

section \<open>The session history hook as a state machine\<close>

text \<open>
  \<open>useSessionHistory\<close> of \<^verbatim>\<open>web/src/lib/session-history.ts\<close>. Its state is the React state, the two
  refs, the module's cache and the variables of the effect that runs for the selected thread. The
  effect subscribes to the live stream and starts a backfill at once; live events are buffered
  until the backfill has settled (the handoff), and merged into the state one at a time after it.
  A call of \<open>setState\<close> puts an updater into React's queue; React runs the updaters in order, at the
  latest when it renders. The updater also writes the refs and the cache, so the model has an
  action of its own for running the first queued updater, and it may come at any time.
\<close>

datatype history_status = Idle | Loading | Ready | Broken

record history_state =
  st_threadId :: "jsstring option"
  st_events :: "event_record list"
  st_status :: history_status
  st_error :: "jsstring option"
  st_refreshKey :: nat

definition INITIAL_STATE :: history_state where
  "INITIAL_STATE = \<lparr>st_threadId = None, st_events = [], st_status = Idle, st_error = None,
     st_refreshKey = 0\<rparr>"

type_synonym history_cache = "(jsstring, event_record list) jsmap"

definition initialThreadState :: "history_cache \<Rightarrow> jsstring option \<Rightarrow> nat \<Rightarrow> history_state" where
  "initialThreadState cache t refreshKey =
     (if \<not> nonempty t then INITIAL_STATE\<lparr>st_refreshKey := refreshKey\<rparr>
      else \<lparr>st_threadId = t, st_events = opt_default (map_get cache (the t)) [],
            st_status = Loading, st_error = None, st_refreshKey = refreshKey\<rparr>)"

text \<open>The variables of one run of the effect; \<open>ef_gen\<close> tells the runs apart, so that a backfill
  that settles after the cleanup of its effect (\<open>cancelled\<close>) is recognised.\<close>

record effect =
  ef_gen :: nat
  ef_thread :: jsstring
  cachedEvents :: "event_record list"
  bufferedEvents :: "event_record list"
  handoffComplete :: bool

text \<open>The arguments of \<open>updateEvents\<close>, with the thread of its closure.\<close>

record history_update =
  up_thread :: jsstring
  nextEvents :: "event_record list"
  nextStatus :: history_status
  nextError :: "jsstring option"

record hook =
  react :: history_state
  refreshCounter :: nat
  eventsRef :: "event_record list"
  historyCache :: history_cache
  queue :: "history_update list"
  effect_of :: "effect option"
  next_gen :: nat

definition hook_init :: "history_cache \<Rightarrow> hook" where
  "hook_init cache = \<lparr>react = INITIAL_STATE, refreshCounter = 0, eventsRef = [], historyCache = cache,
     queue = [], effect_of = None, next_gen = 0\<rparr>"

definition visibleState :: "hook \<Rightarrow> jsstring option \<Rightarrow> history_state" where
  "visibleState h t =
     (if st_threadId (react h) = t then react h
      else initialThreadState (historyCache h) t (st_refreshKey (react h)))"

text \<open>What the hook returns: the visible state without the thread it belongs to.\<close>

record public_history =
  ph_events :: "event_record list"
  ph_status :: history_status
  ph_error :: "jsstring option"
  ph_refreshKey :: nat

definition publicState :: "history_state \<Rightarrow> public_history" where
  "publicState s = \<lparr>ph_events = st_events s, ph_status = st_status s, ph_error = st_error s,
     ph_refreshKey = st_refreshKey s\<rparr>"

definition useSessionHistory :: "hook \<Rightarrow> jsstring option \<Rightarrow> public_history" where
  "useSessionHistory h t = publicState (visibleState h t)"

text \<open>A thread that has just been selected, before React has rendered an update for it, shows the events of the
  cache and no error, whatever the thread before it showed.\<close>

lemma newly_selected_thread:
  assumes "st_threadId (react h) \<noteq> Some t" and "t \<noteq> []"
  shows "ph_events (useSessionHistory h (Some t)) = opt_default (map_get (historyCache h) t) []
    \<and> ph_error (useSessionHistory h (Some t)) = None"
  using assms by (simp add: useSessionHistory_def publicState_def visibleState_def initialThreadState_def
      INITIAL_STATE_def nonempty_def Let_def)

subsection \<open>The updater\<close>

definition run_updater :: "history_update \<Rightarrow> hook \<Rightarrow> hook" where
  "run_updater u h =
     (let prev = react h; t = up_thread u;
          previousEvents = (if st_threadId prev = Some t then st_events prev
                            else opt_default (map_get (historyCache h) t) []);
          changed = (\<not> sameEventIds previousEvents (nextEvents u));
          counter = (if changed then refreshCounter h + 1 else refreshCounter h)
      in h\<lparr>refreshCounter := counter,
           eventsRef := nextEvents u,
           historyCache := (if length (nextEvents u) > 0
                            then map_put (historyCache h) t (nextEvents u)
                            else map_del (historyCache h) t),
           react := \<lparr>st_threadId = Some t, st_events = nextEvents u, st_status = nextStatus u,
                     st_error = nextError u,
                     st_refreshKey = (if changed then counter else st_refreshKey prev)\<rparr>\<rparr>)"

definition updateEvents ::
    "jsstring \<Rightarrow> event_record list \<Rightarrow> history_status \<Rightarrow> jsstring option \<Rightarrow> hook \<Rightarrow> hook" where
  "updateEvents t es s err h =
     h\<lparr>queue := queue h @ [\<lparr>up_thread = t, nextEvents = es, nextStatus = s, nextError = err\<rparr>]\<rparr>"

subsection \<open>Actions\<close>

text \<open>The thread id changes (cleanup of the old effect, run of the new one), an event or a parse
  error comes from the stream of the current effect, the backfill of an effect settles, React runs
  the first queued updater.\<close>

datatype hook_action =
    Switch "jsstring option"
  | OnEvent event_record
  | OnParseError jsstring
  | Settled nat "jsstring + event_record list"
  | RunUpdater

fun hook_step :: "(jsstring \<Rightarrow> jsstring \<Rightarrow> int) \<Rightarrow> hook \<Rightarrow> hook_action \<Rightarrow> hook" where
  "hook_step lc h (Switch t) =
     (if \<not> nonempty t then h\<lparr>eventsRef := [], effect_of := None\<rparr>
      else let cached = opt_default (map_get (historyCache h) (the t)) [] in
        h\<lparr>eventsRef := cached,
          effect_of := Some \<lparr>ef_gen = next_gen h, ef_thread = the t, cachedEvents = cached,
                             bufferedEvents = [], handoffComplete = False\<rparr>,
          next_gen := next_gen h + 1\<rparr>)"
| "hook_step lc h (OnEvent e) =
     (case effect_of h of
        None \<Rightarrow> h
      | Some ef \<Rightarrow>
          let h' = h\<lparr>effect_of := Some (ef\<lparr>bufferedEvents := bufferedEvents ef @ [e]\<rparr>)\<rparr> in
          if \<not> handoffComplete ef then h'
          else updateEvents (ef_thread ef) (mergeSessionEvents lc [eventsRef h, [e]]) Ready None h')"
| "hook_step lc h (OnParseError err) =
     (case effect_of h of
        None \<Rightarrow> h
      | Some ef \<Rightarrow>
          updateEvents (ef_thread ef) (mergeSessionEvents lc [eventsRef h, bufferedEvents ef])
            Broken (Some err) h)"
| "hook_step lc h (Settled gen r) =
     (case effect_of h of
        None \<Rightarrow> h
      | Some ef \<Rightarrow>
          if ef_gen ef \<noteq> gen then h
          else let h' = h\<lparr>effect_of := Some (ef\<lparr>handoffComplete := True\<rparr>)\<rparr> in
            (case r of
               Inr events \<Rightarrow>
                 updateEvents (ef_thread ef)
                   (mergeSessionEvents lc [cachedEvents ef, events, bufferedEvents ef]) Ready None h'
             | Inl err \<Rightarrow>
                 updateEvents (ef_thread ef)
                   (mergeSessionEvents lc [cachedEvents ef, bufferedEvents ef]) Broken (Some err) h'))"
| "hook_step lc h RunUpdater =
     (case queue h of [] \<Rightarrow> h | u # us \<Rightarrow> run_updater u (h\<lparr>queue := us\<rparr>))"

text \<open>\<open>since: replayCursor\<close>, where the stream of a thread resumes.\<close>

definition replayCursor :: "hook \<Rightarrow> jsstring \<Rightarrow> jsstring option" where
  "replayCursor h t = latestEventId (opt_default (map_get (historyCache h) t) [])"

text \<open>React renders: every queued updater is run.\<close>

definition render :: "hook \<Rightarrow> hook" where
  "render h = foldl (\<lambda>h u. run_updater u h) (h\<lparr>queue := []\<rparr>) (queue h)"

subsection \<open>Runs in which React renders after every action\<close>

text \<open>The identifiers delivered for the selected thread are collected beside the state.\<close>

inductive prompt_run :: "(jsstring \<Rightarrow> jsstring \<Rightarrow> int) \<Rightarrow> history_cache \<Rightarrow> hook \<Rightarrow> jsstring set \<Rightarrow> bool"
  for lc cache where
  start: "prompt_run lc cache (hook_init cache) {}"
| switch: "prompt_run lc cache h seen \<Longrightarrow>
    prompt_run lc cache (render (hook_step lc h (Switch t)))
      (if nonempty t then event_id ` set (opt_default (map_get (historyCache h) (the t)) []) else {})"
| event: "prompt_run lc cache h seen \<Longrightarrow> effect_of h = Some ef \<Longrightarrow>
    prompt_run lc cache (render (hook_step lc h (OnEvent e))) (insert (event_id e) seen)"
| parse_error: "prompt_run lc cache h seen \<Longrightarrow> effect_of h = Some ef \<Longrightarrow>
    prompt_run lc cache (render (hook_step lc h (OnParseError err))) seen"
| loaded: "prompt_run lc cache h seen \<Longrightarrow> effect_of h = Some ef \<Longrightarrow> \<not> handoffComplete ef \<Longrightarrow>
    prompt_run lc cache (render (hook_step lc h (Settled (ef_gen ef) (Inr es)))) (event_id ` set es \<union> seen)"
| failed: "prompt_run lc cache h seen \<Longrightarrow> effect_of h = Some ef \<Longrightarrow> \<not> handoffComplete ef \<Longrightarrow>
    prompt_run lc cache (render (hook_step lc h (Settled (ef_gen ef) (Inl err)))) seen"
| stale: "prompt_run lc cache h seen \<Longrightarrow> \<forall>ef. effect_of h = Some ef \<longrightarrow> ef_gen ef \<noteq> gen \<Longrightarrow>
    prompt_run lc cache (render (hook_step lc h (Settled gen r))) seen"

text \<open>What such runs maintain: no updater is left, the ref agrees with the state once an updater has
  run for the thread, and whatever was delivered is held.\<close>

definition delivered_held :: "hook \<Rightarrow> jsstring set \<Rightarrow> bool" where
  "delivered_held h seen \<longleftrightarrow>
     queue h = [] \<and> event_id ` set (eventsRef h) \<subseteq> seen \<and>
     (case effect_of h of
        None \<Rightarrow> seen = {}
      | Some ef \<Rightarrow>
          event_id ` set (cachedEvents ef) \<subseteq> seen
          \<and> event_id ` set (bufferedEvents ef) \<subseteq> seen
          \<and> event_id ` set (cachedEvents ef) \<subseteq> event_id ` set (eventsRef h)
          \<and> (if handoffComplete ef
             then st_threadId (react h) = Some (ef_thread ef)
               \<and> st_events (react h) = eventsRef h
               \<and> seen \<subseteq> event_id ` set (eventsRef h)
             else seen \<subseteq> event_id ` set (cachedEvents ef) \<union> event_id ` set (bufferedEvents ef)))"

lemma render_empty: "queue h = [] \<Longrightarrow> render h = h"
  by (simp add: render_def)

lemma render_update:
  "queue h = [] \<Longrightarrow> render (updateEvents t es s err h) =
     run_updater \<lparr>up_thread = t, nextEvents = es, nextStatus = s, nextError = err\<rparr> h"
  by (cases h) (simp add: render_def updateEvents_def)

lemma run_updater_fields [simp]:
  "queue (run_updater u h) = queue h" "effect_of (run_updater u h) = effect_of h"
  "next_gen (run_updater u h) = next_gen h" "eventsRef (run_updater u h) = nextEvents u"
  "st_threadId (react (run_updater u h)) = Some (up_thread u)"
  "st_events (react (run_updater u h)) = nextEvents u"
  "st_status (react (run_updater u h)) = nextStatus u"
  "st_error (react (run_updater u h)) = nextError u"
  by (simp_all add: run_updater_def Let_def)

lemma merge_ids_Un [simp]:
  "event_id ` set (mergeSessionEvents lc cols) = (\<Union>es\<in>set cols. event_id ` set es)"
  by (simp add: merge_ids image_UN)

lemma delivered_held_init: "delivered_held (hook_init cache) {}"
  by (simp add: delivered_held_def hook_init_def)

lemma delivered_held_switch:
  "delivered_held h seen \<Longrightarrow>
   delivered_held (render (hook_step lc h (Switch t)))
     (if nonempty t then event_id ` set (opt_default (map_get (historyCache h) (the t)) []) else {})"
  by (simp add: delivered_held_def render_empty Let_def)

lemma delivered_held_event:
  assumes "delivered_held h seen" "effect_of h = Some ef"
  shows "delivered_held (render (hook_step lc h (OnEvent e))) (insert (event_id e) seen)"
proof (cases "handoffComplete ef")
  case True
  with assms show ?thesis
    by (auto simp: delivered_held_def render_update Let_def)
next
  case False
  with assms show ?thesis
    by (auto simp: delivered_held_def render_empty Let_def)
qed

lemma delivered_held_parse_error:
  "delivered_held h seen \<Longrightarrow> effect_of h = Some ef \<Longrightarrow>
   delivered_held (render (hook_step lc h (OnParseError err))) seen"
  by (auto simp: delivered_held_def render_update)

lemma delivered_held_settled:
  assumes "delivered_held h seen" "effect_of h = Some ef" "\<not> handoffComplete ef"
  shows "delivered_held (render (hook_step lc h (Settled (ef_gen ef) r)))
    (case r of Inl err \<Rightarrow> seen | Inr es \<Rightarrow> event_id ` set es \<union> seen)"
  using assms by (cases r) (auto simp: delivered_held_def render_update Let_def)

lemma stale_step:
  "\<forall>ef. effect_of h = Some ef \<longrightarrow> ef_gen ef \<noteq> gen \<Longrightarrow> hook_step lc h (Settled gen r) = h"
  by (cases "effect_of h") simp_all

lemma prompt_run_held: "prompt_run lc cache h seen \<Longrightarrow> delivered_held h seen"
proof (induction rule: prompt_run.induct)
  case start
  show ?case by (rule delivered_held_init)
next
  case (switch h seen t)
  show ?case by (rule delivered_held_switch [OF switch.IH])
next
  case (event h seen ef e)
  then show ?case by (intro delivered_held_event)
next
  case (parse_error h seen ef err)
  then show ?case by (intro delivered_held_parse_error)
next
  case (loaded h seen ef es)
  then show ?case using delivered_held_settled [of h seen ef lc "Inr es"] by simp
next
  case (failed h seen ef err)
  then show ?case using delivered_held_settled [of h seen ef lc "Inl err"] by simp
next
  case (stale h seen gen r)
  then show ?case by (simp only: stale_step) (simp add: render_empty delivered_held_def)
qed

lemma delivered_held_shown:
  "delivered_held h seen \<Longrightarrow> effect_of h = Some ef \<Longrightarrow> handoffComplete ef \<Longrightarrow>
   event_id ` set (st_events (visibleState h (Some (ef_thread ef)))) = seen"
  by (auto simp: delivered_held_def visibleState_def)

subsection \<open>Every schedule\<close>

definition run_hook :: "(jsstring \<Rightarrow> jsstring \<Rightarrow> int) \<Rightarrow> hook_action list \<Rightarrow> hook" where
  "run_hook lc actions = foldl (hook_step lc) (hook_init []) actions"

definition tidy :: "(jsstring \<Rightarrow> jsstring \<Rightarrow> int) \<Rightarrow> event_record list \<Rightarrow> bool" where
  "tidy lc es \<longleftrightarrow> sorted_wrt (\<lambda>x y. compareEvents lc x y \<le> 0) es \<and> distinct (map event_id es)"

definition hook_ok :: "(jsstring \<Rightarrow> jsstring \<Rightarrow> int) \<Rightarrow> hook \<Rightarrow> bool" where
  "hook_ok lc h \<longleftrightarrow>
     tidy lc (st_events (react h)) \<and> tidy lc (eventsRef h)
     \<and> (\<forall>u\<in>set (queue h). tidy lc (nextEvents u))
     \<and> distinct (map_keys (historyCache h))
     \<and> (\<forall>k es. map_get (historyCache h) k = Some es \<longrightarrow> tidy lc es)
     \<and> st_refreshKey (react h) \<le> refreshCounter h"

lemma tidy_Nil [simp]: "tidy lc []"
  by (simp add: tidy_def)

lemma tidy_merge: "collation lc \<Longrightarrow> tidy lc (mergeSessionEvents lc cols)"
  by (simp add: tidy_def collation.merge_sorted distinct_merge)

lemma hook_ok_init: "hook_ok lc (hook_init [])"
  by (simp add: hook_ok_def hook_init_def INITIAL_STATE_def map_keys_def)

lemma hook_ok_updateEvents:
  "hook_ok lc h \<Longrightarrow> tidy lc es \<Longrightarrow> hook_ok lc (updateEvents t es s err h)"
  by (auto simp: hook_ok_def updateEvents_def)

lemma hook_ok_run_updater:
  "hook_ok lc h \<Longrightarrow> tidy lc (nextEvents u) \<Longrightarrow> hook_ok lc (run_updater u h)"
  by (auto simp: hook_ok_def run_updater_def Let_def map_del_keys)

lemma hook_ok_effect [simp]: "hook_ok lc (h\<lparr>effect_of := ef\<rparr>) = hook_ok lc h"
  by (simp add: hook_ok_def)

lemma tidy_cached: "hook_ok lc h \<Longrightarrow> tidy lc (opt_default (map_get (historyCache h) t) [])"
  by (cases "map_get (historyCache h) t") (simp_all add: hook_ok_def)

text \<open>An invariant of every schedule, whenever the updaters are run.\<close>

lemma hook_ok_step:
  assumes "collation lc" "hook_ok lc h"
  shows "hook_ok lc (hook_step lc h a)"
proof (cases a)
  case (Switch t)
  then show ?thesis
    using assms(2) tidy_cached [OF assms(2), of "the t"] by (simp add: hook_ok_def Let_def)
next
  case (OnEvent e)
  with assms show ?thesis
    by (auto simp: Let_def intro!: hook_ok_updateEvents tidy_merge split: option.split)
next
  case (OnParseError err)
  with assms show ?thesis
    by (auto intro!: hook_ok_updateEvents tidy_merge split: option.split)
next
  case (Settled gen r)
  with assms show ?thesis
    by (auto simp: Let_def intro!: hook_ok_updateEvents tidy_merge split: option.split sum.split)
next
  case RunUpdater
  show ?thesis
  proof (cases "queue h")
    case (Cons u us)
    have "hook_ok lc (h\<lparr>queue := us\<rparr>)" "tidy lc (nextEvents u)"
      using assms(2) Cons by (simp_all add: hook_ok_def)
    with RunUpdater Cons show ?thesis by (simp add: hook_ok_run_updater)
  qed (use assms RunUpdater in simp)
qed

context collation
begin

interpretation hook_steps: fold_invariant "hook_step lc" "hook_ok lc"
  by unfold_locales (rule hook_ok_step [OF collation_axioms])

lemma hook_ok_run: "hook_ok lc (run_hook lc actions)"
  unfolding run_hook_def by (rule hook_steps.foldl_inv [OF hook_ok_init])

end

lemma tidy_visible:
  "hook_ok lc h \<Longrightarrow> tidy lc (st_events (visibleState h t))"
  using tidy_cached [of lc h "the t"]
  by (auto simp: visibleState_def initialThreadState_def INITIAL_STATE_def hook_ok_def)

lemma sameEventIds_map: "sameEventIds xs ys \<longleftrightarrow> map event_id xs = map event_id ys"
proof (induction xs arbitrary: ys)
  case Nil
  show ?case by (auto simp: sameEventIds_def)
next
  case (Cons x xs)
  show ?case using Cons by (cases ys) (auto simp: sameEventIds_def)
qed

subsection \<open>Properties\<close>

definition sample_e :: "string \<Rightarrow> event_record" where
  "sample_e i = sample_event i i ''agent_message'' []"

lemma event_id_sample_e [simp]: "event_id (sample_e i) = jstr i"
  by (simp add: sample_e_def)

lemmas hook_eval = run_hook_def hook_init_def Let_def updateEvents_def render_def run_updater_def
  INITIAL_STATE_def nonempty_def sameEventIds_def map_get_def map_put_def

text \<open>C11. While React renders after every update, no event is lost and none is invented: once the
  backfill of the selected thread has settled, the events shown for it are exactly those that the
  cache, the backfill and the live stream delivered since the thread was selected.\<close>

theorem history_shows_all_delivered:
  assumes "prompt_run lc cache h seen" and "effect_of h = Some ef" and "handoffComplete ef"
  shows "event_id ` set (st_events (visibleState h (Some (ef_thread ef)))) = seen"
  by (rule delivered_held_shown [OF prompt_run_held [OF assms(1)] assms(2,3)])

definition sample_hook :: hook where
  "sample_hook = foldl (\<lambda>h a. render (hook_step compare_units h a)) (hook_init [])
     [Switch (Some (jstr ''th'')), OnEvent (sample_e ''e3''),
      Settled 0 (Inr [sample_e ''e1'', sample_e ''e2'']), OnEvent (sample_e ''e4'')]"

lemma prompt_run_sample:
  "prompt_run compare_units [] sample_hook {jstr ''e1'', jstr ''e2'', jstr ''e3'', jstr ''e4''}
   \<and> effect_of sample_hook = Some \<lparr>ef_gen = 0, ef_thread = jstr ''th'', cachedEvents = [],
       bufferedEvents = [sample_e ''e3'', sample_e ''e4''], handoffComplete = True\<rparr>"
proof -
  let ?lc = compare_units and ?th = "jstr ''th''"
  define h1 where "h1 = render (hook_step ?lc (hook_init []) (Switch (Some ?th)))"
  define h2 where "h2 = render (hook_step ?lc h1 (OnEvent (sample_e ''e3'')))"
  define h3 where "h3 = render (hook_step ?lc h2 (Settled 0 (Inr [sample_e ''e1'', sample_e ''e2''])))"
  let ?ef = "\<lparr>ef_gen = 0, ef_thread = ?th, cachedEvents = [], bufferedEvents = [],
     handoffComplete = False\<rparr>"
  have e1: "effect_of h1 = Some ?ef" "queue h1 = []" by (simp_all add: h1_def hook_eval)
  have e2: "effect_of h2 = Some (?ef\<lparr>bufferedEvents := [sample_e ''e3'']\<rparr>)" "queue h2 = []"
    by (simp_all add: h2_def e1 render_empty Let_def)
  have e3: "effect_of h3 = Some (?ef\<lparr>bufferedEvents := [sample_e ''e3''], handoffComplete := True\<rparr>)"
      "queue h3 = []"
    by (simp_all add: h3_def e2 render_update Let_def)
  have "prompt_run ?lc [] h1 {}"
    using prompt_run.switch [OF prompt_run.start, of ?lc "[]" "Some ?th"]
    by (simp add: h1_def nonempty_def hook_init_def)
  from prompt_run.event [OF this e1(1), of "sample_e ''e3''"] have "prompt_run ?lc [] h2 {jstr ''e3''}"
    by (simp add: h2_def del: hook_step.simps)
  from prompt_run.loaded [OF this e2(1), of "[sample_e ''e1'', sample_e ''e2'']"]
  have "prompt_run ?lc [] h3 {jstr ''e2'', jstr ''e1'', jstr ''e3''}"
    by (simp add: h3_def insert_commute del: hook_step.simps)
  from prompt_run.event [OF this e3(1), of "sample_e ''e4''"]
  have "prompt_run ?lc [] sample_hook (insert (jstr ''e4'') {jstr ''e2'', jstr ''e1'', jstr ''e3''})"
    by (simp add: sample_hook_def h1_def h2_def h3_def del: hook_step.simps)
  moreover have "insert (jstr ''e4'') {jstr ''e2'', jstr ''e1'', jstr ''e3''} =
      {jstr ''e1'', jstr ''e2'', jstr ''e3'', jstr ''e4''}"
    by auto
  moreover have "effect_of sample_hook = effect_of (render (hook_step ?lc h3 (OnEvent (sample_e ''e4''))))"
    by (simp add: sample_hook_def h1_def h2_def h3_def del: hook_step.simps)
  ultimately show ?thesis by (simp add: e3 render_update Let_def)
qed

lemma history_shows_all_delivered_witness:
  "event_id ` set (st_events (visibleState sample_hook (Some (jstr ''th''))))
     = {jstr ''e1'', jstr ''e2'', jstr ''e3'', jstr ''e4''}"
  using history_shows_all_delivered [OF conjunct1 [OF prompt_run_sample] conjunct2 [OF prompt_run_sample]]
  by simp

text \<open>C19. In every schedule, whenever React runs the updaters, the events shown for any thread are
  sorted by time and hold every identifier once, and so are all cached events.\<close>

theorem history_always_tidy:
  assumes "collation lc"
  shows "tidy lc (st_events (visibleState (run_hook lc actions) t))
    \<and> tidy lc (opt_default (map_get (historyCache (run_hook lc actions)) k) [])"
  using collation.hook_ok_run [OF assms] by (auto intro: tidy_visible tidy_cached)

lemma history_always_tidy_witness:
  "tidy compare_units (st_events (visibleState (run_hook compare_units
     [Switch (Some (jstr ''th'')), Settled 0 (Inr [sample_e ''e2'', sample_e ''e1'', sample_e ''e2'']),
      RunUpdater]) (Some (jstr ''th''))))"
  by (rule conjunct1 [OF history_always_tidy [OF units.collation_axioms]])

text \<open>\<open>refreshKey\<close> signals a change: in every schedule, running an updater for the thread that is
  in the state changes the key exactly when it changes the identifiers or their order.\<close>

theorem refresh_key_signals_change:
  assumes "collation lc" and "queue (run_hook lc actions) = u # us"
    and "st_threadId (react (run_hook lc actions)) = Some (up_thread u)"
  shows "st_refreshKey (react (run_hook lc (actions @ [RunUpdater])))
      = st_refreshKey (react (run_hook lc actions))
    \<longleftrightarrow> map event_id (st_events (react (run_hook lc (actions @ [RunUpdater]))))
      = map event_id (st_events (react (run_hook lc actions)))"
proof -
  have "st_refreshKey (react (run_hook lc actions)) \<le> refreshCounter (run_hook lc actions)"
    using collation.hook_ok_run [OF assms(1), of actions] by (simp add: hook_ok_def)
  with assms(2,3) show ?thesis
    by (auto simp: run_hook_def run_updater_def Let_def sameEventIds_map)
qed

lemma refresh_key_signals_change_witness:
  "let as = [Switch (Some (jstr ''th'')), Settled 0 (Inr [sample_e ''e1'']), RunUpdater,
             OnEvent (sample_e ''e2'')] in
   st_refreshKey (react (run_hook compare_units (as @ [RunUpdater])))
     \<noteq> st_refreshKey (react (run_hook compare_units as))"
proof -
  let ?as = "[Switch (Some (jstr ''th'')), Settled 0 (Inr [sample_e ''e1'']), RunUpdater,
     OnEvent (sample_e ''e2'')]"
  let ?h = "run_hook compare_units ?as"
  have m: "mergeSessionEvents compare_units [[], [sample_e ''e1''], []] = [sample_e ''e1'']"
      "mergeSessionEvents compare_units [[sample_e ''e1''], [sample_e ''e2'']] = [sample_e ''e1'', sample_e ''e2'']"
    by (simp_all add: mergeSessionEvents_def sample_e_def sample_event_def dedupe_step_def
        map_get_def map_put_def compareEvents_def jstr_def unit_of_char_def)
  have q: "queue ?h = [\<lparr>up_thread = jstr ''th'', nextEvents = [sample_e ''e1'', sample_e ''e2''],
      nextStatus = Ready, nextError = None\<rparr>]"
    by (simp add: hook_eval m)
  have s: "st_threadId (react ?h) = Some (jstr ''th'')" "st_events (react ?h) = [sample_e ''e1'']"
    by (simp_all add: hook_eval m)
  have "st_events (react (run_hook compare_units (?as @ [RunUpdater]))) = [sample_e ''e1'', sample_e ''e2'']"
    by (simp add: hook_eval m)
  with refresh_key_signals_change [OF units.collation_axioms q] s show ?thesis
    by (simp only: Let_def history_update.simps) simp
qed

text \<open>The ref is not enough when React runs the updaters later than the events come: of two
  events that arrive before the updater of the first one has run, only the second is in the state
  afterwards, although the effect has buffered both. The first one is not shown until the thread is
  selected again or a parse error occurs.\<close>

theorem batched_events_lose_one:
  assumes "effect_of h = Some ef" and "handoffComplete ef" and "queue h = []"
    and "event_id a \<notin> event_id ` set (eventsRef h)" and "event_id a \<noteq> event_id b"
  shows "let h' = foldl (hook_step lc) h [OnEvent a, OnEvent b, RunUpdater, RunUpdater] in
    event_id a \<notin> event_id ` set (st_events (visibleState h' (Some (ef_thread ef))))
    \<and> event_id b \<in> event_id ` set (st_events (visibleState h' (Some (ef_thread ef))))
    \<and> (\<exists>ef'. effect_of h' = Some ef' \<and> a \<in> set (bufferedEvents ef'))"
  using assms by (auto simp: Let_def updateEvents_def visibleState_def image_iff [symmetric]
      simp del: merge_ids_Un simp add: merge_ids)

lemma batched_events_lose_one_witness:
  "event_id (sample_e ''e5'') \<notin> event_id ` set (st_events (visibleState
     (foldl (hook_step compare_units) sample_hook
        [OnEvent (sample_e ''e5''), OnEvent (sample_e ''e6''), RunUpdater, RunUpdater])
     (Some (jstr ''th''))))"
proof -
  have "delivered_held sample_hook {jstr ''e1'', jstr ''e2'', jstr ''e3'', jstr ''e4''}"
    by (rule prompt_run_held [OF conjunct1 [OF prompt_run_sample]])
  then have "queue sample_hook = []"
      "event_id ` set (eventsRef sample_hook) \<subseteq> {jstr ''e1'', jstr ''e2'', jstr ''e3'', jstr ''e4''}"
    by (simp_all add: delivered_held_def)
  then have "queue sample_hook = []" "event_id (sample_e ''e5'') \<notin> event_id ` set (eventsRef sample_hook)"
    by auto
  from batched_events_lose_one [OF conjunct2 [OF prompt_run_sample] _ this, of "sample_e ''e6''" compare_units]
  show ?thesis by (simp add: Let_def del: hook_step.simps foldl.simps)
qed

text \<open>A failed load is forgotten: the next live event makes the state ready and clears the error, although the
  history was never loaded and nothing loads it again.\<close>

lemma failed_load_forgotten:
  assumes "t \<noteq> []"
  shows "let h = run_hook lc [Switch (Some t), Settled 0 (Inl err), RunUpdater, OnEvent e, RunUpdater];
             s = visibleState h (Some t)
         in st_status s = Ready \<and> st_error s = None \<and> st_events s = mergeSessionEvents lc [mergeSessionEvents lc [[], []], [e]]"
  using assms by (simp add: hook_eval visibleState_def)

end
