(* ===== verification/Thread_Selection.thy ===== *)
theory Thread_Selection
  imports Events
begin

section \<open>Which thread is selected\<close>

text \<open>
  \<^verbatim>\<open>web/src/lib/thread-selection.ts\<close> and the selection logic of
  \<^verbatim>\<open>web/src/components/workbench/session-workbench.tsx\<close>: the thread named by the location hash is
  selected when a source lists it, otherwise the first thread of the first source that has one,
  which is then written into the hash. \<open>sessionsBySource\<close> is an object: an association list in
  the order in which its properties are enumerated.
\<close>

type_synonym sessions_by_source = "(jsstring, session list) jsmap"

record selection =
  sel_threadId :: "jsstring option"
  shouldWriteHash :: bool

text \<open>\<open>sessionsBySource[key] ?? []\<close>.\<close>

definition sessions_of :: "sessions_by_source \<Rightarrow> jsstring \<Rightarrow> session list" where
  "sessions_of m key = opt_default (map_get m key) []"

definition hasThread :: "client_source list \<Rightarrow> sessions_by_source \<Rightarrow> jsstring \<Rightarrow> bool" where
  "hasThread sources m threadId \<longleftrightarrow>
     list_ex (\<lambda>s. list_ex (\<lambda>x. s_thread_id x = threadId) (sessions_of m (cs_source_key s))) sources"

fun firstAvailableThread :: "client_source list \<Rightarrow> sessions_by_source \<Rightarrow> jsstring option" where
  "firstAvailableThread [] m = None"
| "firstAvailableThread (s # ss) m =
     (case sessions_of m (cs_source_key s) of
        x # _ \<Rightarrow> Some (s_thread_id x)
      | [] \<Rightarrow> firstAvailableThread ss m)"

definition truthy_id :: "jsstring option \<Rightarrow> bool" where
  "truthy_id t \<longleftrightarrow> t \<noteq> None \<and> t \<noteq> Some []"

definition resolveThreadSelection ::
    "jsstring option \<Rightarrow> client_source list \<Rightarrow> sessions_by_source \<Rightarrow> selection" where
  "resolveThreadSelection hash sources m =
     (if truthy_id hash \<and> hasThread sources m (the hash)
      then \<lparr>sel_threadId = hash, shouldWriteHash = False\<rparr>
      else let fallback = firstAvailableThread sources m in
        \<lparr>sel_threadId = fallback, shouldWriteHash = truthy_id fallback \<and> fallback \<noteq> hash\<rparr>)"

lemma first_available_listed:
  "firstAvailableThread sources m = Some t \<Longrightarrow> hasThread sources m t"
  by (induction sources) (auto simp: hasThread_def split: list.splits)

lemma first_available_None:
  "firstAvailableThread sources m = None \<longleftrightarrow> (\<forall>s\<in>set sources. sessions_of m (cs_source_key s) = [])"
  by (induction sources) (auto split: list.splits)

lemma first_available_first:
  "firstAvailableThread sources m = Some t \<Longrightarrow>
   \<exists>pre s post x xs. sources = pre @ s # post \<and> (\<forall>p\<in>set pre. sessions_of m (cs_source_key p) = [])
     \<and> sessions_of m (cs_source_key s) = x # xs \<and> s_thread_id x = t"
proof (induction sources)
  case (Cons s ss)
  show ?case
  proof (cases "sessions_of m (cs_source_key s)")
    case Nil
    with Cons obtain pre s' post x xs where "ss = pre @ s' # post"
      "\<forall>p\<in>set pre. sessions_of m (cs_source_key p) = []"
      "sessions_of m (cs_source_key s') = x # xs" "s_thread_id x = t"
      by auto
    with Nil show ?thesis by (intro exI [of _ "s # pre"]) force
  next
    case (Cons x xs)
    with \<open>firstAvailableThread (s # ss) m = Some t\<close> show ?thesis by (intro exI [of _ "[]"]) auto
  qed
qed simp

subsection \<open>The workbench\<close>

text \<open>\<open>resolveSelectedSession\<close>: the detail when it is the thread's, else the first listed session.\<close>

definition detail_session_for :: "session_detail option \<Rightarrow> jsstring \<Rightarrow> session option" where
  "detail_session_for d t = (case d of
     Some sd \<Rightarrow> if s_thread_id (session_of sd) = t then Some (session_of sd) else None
   | None \<Rightarrow> None)"

definition resolveSelectedSession ::
    "jsstring option \<Rightarrow> sessions_by_source \<Rightarrow> session_detail option \<Rightarrow> session option" where
  "resolveSelectedSession threadId m d =
     (if \<not> truthy_id threadId then None
      else opt_or (detail_session_for d (the threadId))
             (List.find (\<lambda>x. s_thread_id x = the threadId) (concat (map snd m))))"

definition resolveSelectedSource ::
    "session_detail option \<Rightarrow> session option \<Rightarrow> client_source list \<Rightarrow> client_source option" where
  "resolveSelectedSource d s sources = (case s of
     None \<Rightarrow> None
   | Some x \<Rightarrow>
       (case d of
          Some sd \<Rightarrow> if s_thread_id (session_of sd) = s_thread_id x then Some (client_source_of sd)
                     else List.find (\<lambda>c. cs_source_key c = s_source_key x) sources
        | None \<Rightarrow> List.find (\<lambda>c. cs_source_key c = s_source_key x) sources))"

text \<open>\<open>detailForSelectedThread\<close>: the fetched detail, or one put together from the lists.\<close>

definition detailForSelectedThread ::
    "jsstring option \<Rightarrow> session_detail option \<Rightarrow> session option \<Rightarrow> client_source option
     \<Rightarrow> event_record list \<Rightarrow> session_detail option" where
  "detailForSelectedThread threadId d s src events =
     (if \<not> truthy_id threadId then None
      else if (case d of None \<Rightarrow> False | Some sd \<Rightarrow> Some (s_thread_id (session_of sd)) = threadId) then d
      else (case (s, src) of
              (Some x, Some c) \<Rightarrow>
                Some \<lparr>session_of = x, client_source_of = c, recent_events = events\<rparr>
            | _ \<Rightarrow> None))"

datatype sidebar_state = SidebarLoading | SidebarError | SidebarEmpty | SidebarReady

definition sidebarState :: "bool \<Rightarrow> bool \<Rightarrow> bool \<Rightarrow> bool \<Rightarrow> client_source list \<Rightarrow> sidebar_state" where
  "sidebarState sourcesPending sessionsPending sourcesError sessionsError sources =
     (if sourcesPending \<or> length sources > 0 \<and> sessionsPending then SidebarLoading
      else if sourcesError \<or> sessionsError then SidebarError
      else if length sources = 0 then SidebarEmpty else SidebarReady)"

text \<open>The label of a session in the sidebar: \<open>session.title?.trim() || session.thread_id\<close>.\<close>

definition session_label :: "session \<Rightarrow> jsstring" where
  "session_label s = (case s_title s of
     Some t \<Rightarrow> if trim t \<noteq> [] then trim t else s_thread_id s
   | None \<Rightarrow> s_thread_id s)"

subsection \<open>Properties\<close>

definition sample_source :: "string \<Rightarrow> client_source" where
  "sample_source k = (client_source_of sample_detail)\<lparr>cs_source_key := jstr k\<rparr>"

definition sample_session :: "string \<Rightarrow> string \<Rightarrow> session" where
  "sample_session k t = (session_of sample_detail)\<lparr>s_thread_id := jstr t, s_source_key := jstr k\<rparr>"

text \<open>The selection follows the hash when a source lists its thread, and otherwise is the first
  session of the first source that has one; nothing is selected only when no source has a
  session.\<close>

theorem resolveThreadSelection_spec:
  "let t = sel_threadId (resolveThreadSelection hash sources m) in
     (truthy_id hash \<and> hasThread sources m (the hash) \<and> t = hash)
   \<or> (\<not> (truthy_id hash \<and> hasThread sources m (the hash))
      \<and> (\<exists>pre s post x xs. sources = pre @ s # post
           \<and> list_all (\<lambda>p. sessions_of m (cs_source_key p) = []) pre
           \<and> sessions_of m (cs_source_key s) = x # xs \<and> t = Some (s_thread_id x)))
   \<or> (t = None \<and> list_all (\<lambda>s. sessions_of m (cs_source_key s) = []) sources)"
proof (cases "truthy_id hash \<and> hasThread sources m (the hash)")
  case True
  then show ?thesis by (simp add: resolveThreadSelection_def Let_def)
next
  case False
  then have t: "sel_threadId (resolveThreadSelection hash sources m) = firstAvailableThread sources m"
    by (auto simp: resolveThreadSelection_def Let_def)
  show ?thesis
  proof (cases "firstAvailableThread sources m")
    case None
    with False t show ?thesis by (simp add: first_available_None list_all_iff Let_def)
  next
    case (Some x)
    from first_available_first [OF this] False t Some show ?thesis
      by (fastforce simp: list_all_iff Let_def)
  qed
qed

text \<open>Writing the selected thread into the hash is stable: once the hash holds it, resolving again
  selects the same thread and writes nothing, so the effect that writes the hash runs once and does
  not loop.\<close>

theorem selection_stabilises:
  assumes "shouldWriteHash (resolveThreadSelection hash sources m)"
  shows "resolveThreadSelection (sel_threadId (resolveThreadSelection hash sources m)) sources m =
    \<lparr>sel_threadId = sel_threadId (resolveThreadSelection hash sources m), shouldWriteHash = False\<rparr>"
proof -
  have t: "sel_threadId (resolveThreadSelection hash sources m) = firstAvailableThread sources m"
      "truthy_id (firstAvailableThread sources m)"
    using assms by (auto simp: resolveThreadSelection_def Let_def split: if_splits)
  then obtain x where x: "firstAvailableThread sources m = Some x" by (auto simp: truthy_id_def)
  from first_available_listed [OF x] t(2) show ?thesis
    by (simp only: t(1)) (simp add: resolveThreadSelection_def x)
qed

lemma selection_stabilises_witness:
  "let sources = [sample_source ''a'', sample_source ''b''];
       m = [(jstr ''b'', [sample_session ''b'' ''t1'', sample_session ''b'' ''t2''])];
       r = resolveThreadSelection (Some (jstr ''gone'')) sources m
   in sel_threadId r = Some (jstr ''t1'') \<and>
      resolveThreadSelection (sel_threadId r) sources m = \<lparr>sel_threadId = sel_threadId r, shouldWriteHash = False\<rparr>"
proof -
  let ?sources = "[sample_source ''a'', sample_source ''b'']"
  let ?m = "[(jstr ''b'', [sample_session ''b'' ''t1'', sample_session ''b'' ''t2''])]"
  have r: "resolveThreadSelection (Some (jstr ''gone'')) ?sources ?m =
      \<lparr>sel_threadId = Some (jstr ''t1''), shouldWriteHash = True\<rparr>"
    by (simp add: resolveThreadSelection_def hasThread_def sessions_of_def truthy_id_def
        sample_source_def sample_session_def map_get_def)
  have "shouldWriteHash (resolveThreadSelection (Some (jstr ''gone'')) ?sources ?m)" by (simp add: r)
  from selection_stabilises [OF this] r show ?thesis by simp
qed

text \<open>The header never shows another thread: when the detail that was fetched belongs to another
  thread (the selection has changed and the query has not), the detail used for the projection
  still is one of the selected thread.\<close>

theorem detail_is_of_selected_thread:
  assumes "detailForSelectedThread threadId d (resolveSelectedSession threadId m d)
      (resolveSelectedSource d (resolveSelectedSession threadId m d) sources) events = Some sd"
  shows "threadId = Some (s_thread_id (session_of sd))"
proof -
  have "s_thread_id x = the threadId" if "resolveSelectedSession threadId m d = Some x" for x
    using that
    by (auto simp: resolveSelectedSession_def detail_session_for_def opt_or_def find_Some_iff
        split: if_splits option.splits)
  with assms show ?thesis
    by (auto simp: detailForSelectedThread_def truthy_id_def split: if_splits option.splits)
qed

lemma detail_is_of_selected_thread_witness:
  "s_thread_id (session_of (the (detailForSelectedThread (Some (jstr ''t2'')) (Some sample_detail)
      (Some (sample_session ''b'' ''t2'')) (Some (sample_source ''b'')) []))) = jstr ''t2''"
proof -
  let ?m = "[(jstr ''b'', [sample_session ''b'' ''t1'', sample_session ''b'' ''t2''])]"
  have s: "resolveSelectedSession (Some (jstr ''t2'')) ?m (Some sample_detail) = Some (sample_session ''b'' ''t2'')"
    by (simp add: resolveSelectedSession_def detail_session_for_def truthy_id_def sample_detail_def
        sample_session_def)
  have c: "resolveSelectedSource (Some sample_detail) (Some (sample_session ''b'' ''t2'')) [sample_source ''b''] =
      Some (sample_source ''b'')"
    by (simp add: resolveSelectedSource_def sample_detail_def sample_session_def sample_source_def)
  have d: "detailForSelectedThread (Some (jstr ''t2'')) (Some sample_detail)
      (Some (sample_session ''b'' ''t2'')) (Some (sample_source ''b'')) [] =
      Some \<lparr>session_of = sample_session ''b'' ''t2'', client_source_of = sample_source ''b'', recent_events = []\<rparr>"
    by (simp add: detailForSelectedThread_def truthy_id_def sample_detail_def)
  have "Some (jstr ''t2'') = Some (s_thread_id (session_of \<lparr>session_of = sample_session ''b'' ''t2'',
      client_source_of = sample_source ''b'', recent_events = []\<rparr>))"
    by (rule detail_is_of_selected_thread [of _ "Some sample_detail" ?m "[sample_source ''b'']" "[]"])
      (simp only: s c d)
  with d show ?thesis by simp
qed

end
