(* ===== verification/Hash_Thread.thy ===== *)
theory Hash_Thread
  imports Text_Decode
begin

section \<open>The thread id in the location hash\<close>

text \<open>
  \<^verbatim>\<open>web/src/lib/use-hash-thread-id.ts\<close> with the two functions of the language it rests on,
  \<open>encodeURIComponent\<close> and \<open>decodeURIComponent\<close>. Both can raise a \<open>URIError\<close>, modelled by \<open>None\<close>:
  the first on a lone surrogate, the second on a malformed escape. The hash the browser returns is
  the one that was set, since the encoded form holds no character that a fragment escapes.
\<close>

subsection \<open>Code points of a string\<close>

fun code_points :: "nat list \<Rightarrow> nat list option" where
  "code_points [] = Some []"
| "code_points (u # us) =
     (if u < 0xD800 \<or> 0xE000 \<le> u then map_option (Cons u) (code_points us)
      else if u < 0xDC00 then
        (case us of
           v # vs \<Rightarrow> if 0xDC00 \<le> v \<and> v < 0xE000
             then map_option (Cons (0x10000 + (u - 0xD800) * 1024 + (v - 0xDC00))) (code_points vs)
             else None
         | [] \<Rightarrow> None)
      else None)"

subsection \<open>\<open>encodeURIComponent\<close>\<close>

text \<open>The characters that are not escaped: letters, digits and the marks.\<close>

definition unreserved :: "nat \<Rightarrow> bool" where
  "unreserved p \<longleftrightarrow> (0x41 \<le> p \<and> p \<le> 0x5A) \<or> (0x61 \<le> p \<and> p \<le> 0x7A) \<or> (0x30 \<le> p \<and> p \<le> 0x39)
     \<or> p \<in> set [0x2D, 0x5F, 0x2E, 0x21, 0x7E, 0x2A, 0x27, 0x28, 0x29]"

definition hex_digit :: "nat \<Rightarrow> nat" where
  "hex_digit n = (if n < 10 then 0x30 + n else 0x41 + (n - 10))"

definition percent :: "nat \<Rightarrow> nat list" where
  "percent b = [0x25, hex_digit (b div 16), hex_digit (b mod 16)]"

definition encode_point :: "nat \<Rightarrow> nat list" where
  "encode_point p = (if unreserved p then [p] else concat (map percent (utf8_bytes p)))"

definition encodeURIComponent :: "jsstring \<Rightarrow> jsstring option" where
  "encodeURIComponent s =
     map_option (\<lambda>ps. map word_of_nat (concat (map encode_point ps))) (code_points (map unat s))"

subsection \<open>\<open>decodeURIComponent\<close>\<close>

definition hex_value :: "nat \<Rightarrow> nat option" where
  "hex_value c =
     (if 0x30 \<le> c \<and> c \<le> 0x39 then Some (c - 0x30)
      else if 0x41 \<le> c \<and> c \<le> 0x46 then Some (c - 0x41 + 10)
      else if 0x61 \<le> c \<and> c \<le> 0x66 then Some (c - 0x61 + 10)
      else None)"

text \<open>Code units that are not escaped (\<open>Inl\<close>) and escaped octets (\<open>Inr\<close>).\<close>

fun octets :: "nat list \<Rightarrow> (nat + nat) list option" where
  "octets [] = Some []"
| "octets (c # cs) =
     (if c \<noteq> 0x25 then map_option (Cons (Inl c)) (octets cs)
      else (case cs of
              h # l # r \<Rightarrow> (case (hex_value h, hex_value l) of
                  (Some a, Some b) \<Rightarrow> map_option (Cons (Inr (16 * a + b))) (octets r)
                | _ \<Rightarrow> None)
            | _ \<Rightarrow> None))"

text \<open>The number of octets of the sequence that a leading octet starts.\<close>

definition sequence_length :: "nat \<Rightarrow> nat" where
  "sequence_length b =
     (if 0xC0 \<le> b \<and> b < 0xE0 then 2 else if 0xE0 \<le> b \<and> b < 0xF0 then 3
      else if 0xF0 \<le> b \<and> b < 0xF8 then 4 else 0)"

fun decode_octets :: "(nat + nat) list \<Rightarrow> nat list option" where
  "decode_octets [] = Some []"
| "decode_octets (Inl u # ts) = map_option (Cons u) (decode_octets ts)"
| "decode_octets (Inr b # ts) =
     (if b < 0x80 then map_option (Cons b) (decode_octets ts)
      else let n = sequence_length b - 1 in
        if 0 < n \<and> n \<le> length ts \<and> list_all (\<lambda>t. \<not> isl t) (take n ts)
        then (case utf8_points (b # map projr (take n ts)) of
                Some [p] \<Rightarrow> map_option (append (utf16_units p)) (decode_octets (drop n ts))
              | _ \<Rightarrow> None)
        else None)"

definition decodeURIComponent :: "jsstring \<Rightarrow> jsstring option" where
  "decodeURIComponent s =
     (case octets (map unat s) of
        None \<Rightarrow> None
      | Some ts \<Rightarrow> map_option (map word_of_nat) (decode_octets ts))"

declare decode_octets.simps(3) [simp del] octets.simps(2) [simp del] code_points.simps(2) [simp del]

subsection \<open>The hook\<close>

definition PREFIX :: jsstring where
  "PREFIX = jstr ''#thread=''"

record hash_state =
  location_hash :: jsstring
  hash_value :: "jsstring option"

text \<open>\<open>readHash\<close>: \<open>None\<close> is the \<open>URIError\<close>, \<open>Some None\<close> is \<open>null\<close>.\<close>

definition readHash :: "jsstring \<Rightarrow> jsstring option option" where
  "readHash raw =
     (if take (length PREFIX) raw \<noteq> PREFIX then Some None
      else map_option (\<lambda>v. if v \<noteq> [] then Some v else None)
             (decodeURIComponent (drop (length PREFIX) raw)))"

definition hash_init :: "jsstring \<Rightarrow> hash_state option" where
  "hash_init raw = map_option (\<lambda>v. \<lparr>location_hash = raw, hash_value = v\<rparr>) (readHash raw)"

definition onHashChange :: "hash_state \<Rightarrow> hash_state option" where
  "onHashChange st = map_option (\<lambda>v. st\<lparr>hash_value := v\<rparr>) (readHash (location_hash st))"

definition set_hash :: "jsstring option \<Rightarrow> hash_state \<Rightarrow> hash_state option" where
  "set_hash nxt st =
     (case nxt of
        None \<Rightarrow> Some \<lparr>location_hash = [], hash_value = None\<rparr>
      | Some t \<Rightarrow>
          if t = [] then Some \<lparr>location_hash = [], hash_value = Some []\<rparr>
          else map_option (\<lambda>enc. \<lparr>location_hash = PREFIX @ enc, hash_value = Some t\<rparr>)
                 (encodeURIComponent t))"

subsection \<open>Decoding inverts encoding\<close>

lemma code_points_units: "scalar p \<Longrightarrow> code_points (utf16_units p @ us) = map_option (Cons p) (code_points us)"
proof (cases "p < 0x10000")
  case True
  assume "scalar p"
  with True show ?thesis by (auto simp: utf16_units.simps code_points.simps(2) scalar_def)
next
  case False
  assume "scalar p"
  define q where "q = p - 0x10000"
  have p: "p = q + 0x10000" "q < 0x100000" using False \<open>scalar p\<close> by (auto simp: q_def scalar_def)
  then have "q div 1024 < 0x400" by (simp add: less_mult_imp_div_less)
  moreover have "q mod 1024 < 0x400" "q div 1024 * 1024 + q mod 1024 = q" by simp_all
  moreover have "utf16_units p = [0xD800 + q div 1024, 0xDC00 + q mod 1024]"
    using False by (simp add: utf16_units.simps [of p] q_def)
  ultimately show ?thesis using p(1) by (simp add: code_points.simps(2))
qed

lemma code_points_concat:
  "list_all scalar ps \<Longrightarrow> code_points (concat (map utf16_units ps)) = Some ps"
  by (induction ps) (simp_all add: code_points_units)

lemma unat_units: "list_all (\<lambda>n. n < 0x10000) ns \<Longrightarrow> map (\<lambda>n. unat (word_of_nat n :: code_unit)) ns = ns"
  by (induction ns) (simp_all add: unat_of_nat)

lemma units_small: "scalar p \<Longrightarrow> list_all (\<lambda>n. n < 0x10000) (utf16_units p)"
proof (cases "p = 0")
  case True
  then show ?thesis by (simp add: utf16_units.simps [of 0])
next
  case False
  assume "scalar p"
  from utf16_units_bound [OF this False] show ?thesis by (simp add: list_all_iff)
qed

lemma encode_js_of_points:
  assumes "list_all scalar ps"
  shows "encodeURIComponent (js_of_points ps) = Some (map word_of_nat (concat (map encode_point ps)))"
proof -
  have "list_all (\<lambda>n. n < 0x10000) (concat (map utf16_units ps))"
    using assms units_small by (induction ps) simp_all
  then have "map unat (js_of_points ps) = concat (map utf16_units ps)"
    by (simp add: js_of_points_def comp_def unat_units)
  with assms show ?thesis by (simp add: encodeURIComponent_def code_points_concat)
qed

lemma map_option_append:
  "map_option ((@) []) x = x" "map_option ((@) (a # as)) x = map_option (Cons a) (map_option ((@) as) x)"
  by (cases x; simp)+

lemma hex_value_digit: "n < 16 \<Longrightarrow> hex_value (hex_digit n) = Some n"
  by (auto simp: hex_value_def hex_digit_def)

lemma octets_percent: "b < 256 \<Longrightarrow> octets (percent b @ cs) = map_option (Cons (Inr b)) (octets cs)"
proof -
  assume "b < 256"
  then have "b div 16 < 16" by (simp add: less_mult_imp_div_less)
  then show ?thesis by (simp add: percent_def octets.simps(2) hex_value_digit)
qed

lemma octets_percents:
  "\<forall>b\<in>set bs. b < 256 \<Longrightarrow> octets (concat (map percent bs) @ cs) = map_option (append (map Inr bs)) (octets cs)"
  by (induction bs) (simp_all add: octets_percent map_option_append)

definition point_octets :: "nat \<Rightarrow> (nat + nat) list" where
  "point_octets p = (if unreserved p then [Inl p] else map Inr (utf8_bytes p))"

lemma octets_encode_point:
  "scalar p \<Longrightarrow> octets (encode_point p @ cs) = map_option (append (point_octets p)) (octets cs)"
proof (cases "unreserved p")
  case True
  then have "p \<noteq> 0x25" by (auto simp: unreserved_def)
  with True show ?thesis
    by (simp add: encode_point_def point_octets_def octets.simps(2) map_option_append)
next
  case False
  assume "scalar p"
  from octets_percents [OF utf8_bytes_lt [OF this], of cs] False show ?thesis
    by (simp add: encode_point_def point_octets_def)
qed

lemma octets_encode:
  "list_all scalar ps \<Longrightarrow> octets (concat (map encode_point ps)) = Some (concat (map point_octets ps))"
  by (induction ps) (simp_all add: octets_encode_point)

lemma sequence_length_bytes:
  "scalar p \<Longrightarrow> 0x80 \<le> p \<Longrightarrow> 0x80 \<le> hd (utf8_bytes p) \<and> sequence_length (hd (utf8_bytes p)) = length (utf8_bytes p)
     \<and> 2 \<le> length (utf8_bytes p)"
proof -
  assume "scalar p" "0x80 \<le> p"
  then have "p < 0x110000" by (auto simp: scalar_def)
  then have "p div 262144 < 5" by (simp add: less_mult_imp_div_less)
  moreover have "p < 0x10000 \<Longrightarrow> p div 4096 < 16" "p < 0x800 \<Longrightarrow> p div 64 < 32"
    by (simp_all add: less_mult_imp_div_less)
  ultimately show ?thesis
    using \<open>0x80 \<le> p\<close> by (auto simp: utf8_bytes.simps [of p] sequence_length_def)
qed

lemma decode_point_octets:
  assumes "scalar p"
  shows "decode_octets (point_octets p @ ts) = map_option (append (utf16_units p)) (decode_octets ts)"
proof (cases "p < 0x80")
  case True
  then show ?thesis
    by (simp add: point_octets_def utf8_bytes.simps [of p] utf16_units.simps [of p] decode_octets.simps(3)
        map_option_append)
next
  case False
  then have nu: "\<not> unreserved p" by (auto simp: unreserved_def)
  obtain b bs where b: "utf8_bytes p = b # bs"
    using sequence_length_bytes [OF assms] False by (cases "utf8_bytes p") auto
  then have len: "0x80 \<le> b" "sequence_length b - 1 = length bs" "0 < length bs"
    using sequence_length_bytes [OF assms] False by auto
  have "utf8_points (b # bs) = Some [p]"
    using utf8_points_bytes [OF assms, of "[]"] by (simp add: b)
  moreover have "map (\<lambda>x. projr (Inr x :: nat + nat)) bs = bs" by simp
  ultimately show ?thesis
    using len by (simp add: point_octets_def nu b decode_octets.simps(3) Let_def list_all_iff comp_def)
qed

lemma decode_points:
  "list_all scalar ps \<Longrightarrow> decode_octets (concat (map point_octets ps)) = Some (concat (map utf16_units ps))"
  by (induction ps) (simp_all add: decode_point_octets)

lemma encode_point_small: "scalar p \<Longrightarrow> list_all (\<lambda>n. n < 0x10000) (encode_point p)"
proof -
  have hex: "hex_digit n < 0x10000" if "n < 16" for n using that by (simp add: hex_digit_def)
  assume "scalar p"
  then have "\<forall>b\<in>set (utf8_bytes p). b div 16 < 16"
    using utf8_bytes_lt by (auto intro: less_mult_imp_div_less)
  then show ?thesis
    using hex \<open>scalar p\<close> by (auto simp: encode_point_def percent_def list_all_iff unreserved_def)
qed

lemma decode_encode:
  assumes "list_all scalar ps"
  shows "decodeURIComponent (map word_of_nat (concat (map encode_point ps))) = Some (js_of_points ps)"
proof -
  have "list_all (\<lambda>n. n < 0x10000) (concat (map encode_point ps))"
    using assms encode_point_small by (induction ps) simp_all
  then have "map unat (map (word_of_nat :: nat \<Rightarrow> code_unit) (concat (map encode_point ps)))
      = concat (map encode_point ps)"
    by (simp only: map_map comp_def unat_units)
  then show ?thesis
    by (simp add: decodeURIComponent_def octets_encode [OF assms] decode_points [OF assms] js_of_points_def
        del: map_map map_concat)
qed

subsection \<open>Properties\<close>

lemma set_hash_points:
  assumes "list_all scalar ps" and "ps \<noteq> []"
  shows "\<exists>st'. set_hash (Some (js_of_points ps)) st = Some st'
    \<and> hash_value st' = Some (js_of_points ps)
    \<and> onHashChange st' = Some st' \<and> hash_init (location_hash st') = Some st'"
proof -
  have ne: "js_of_points ps \<noteq> []"
    using assms(2) by (cases ps) (auto simp: js_of_points_def utf16_units.simps)
  let ?enc = "map word_of_nat (concat (map encode_point ps)) :: jsstring"
  have "readHash (PREFIX @ ?enc) = Some (Some (js_of_points ps))"
    using ne decode_encode [OF assms(1)] by (simp add: readHash_def del: map_map map_concat)
  then show ?thesis
    using ne by (simp add: set_hash_def encode_js_of_points [OF assms(1)] onHashChange_def hash_init_def)
qed

text \<open>C36. Deep links restore the thread: for every non-empty, well-formed identifier, selecting it
  succeeds, and both the hash change it causes and a reload of the page read the same identifier
  back from the hash.\<close>

theorem hash_restores_thread:
  assumes "list_all scalar ps" and "ps \<noteq> []"
  shows "\<exists>st'. set_hash (Some (js_of_points ps)) st = Some st'
    \<and> hash_value st' = Some (js_of_points ps)
    \<and> onHashChange st' = Some st' \<and> hash_init (location_hash st') = Some st'"
  by (rule set_hash_points [OF assms])

lemma hash_restores_thread_witness:
  "\<exists>st'. set_hash (Some (js_of_points [0x61, 0x2F, 0xE9, 0x1F600])) \<lparr>location_hash = [], hash_value = None\<rparr> = Some st'
    \<and> hash_init (location_hash st') = Some st'"
proof -
  have "list_all scalar [0x61, 0x2F, 0xE9, 0x1F600]" by (simp add: scalar_def)
  from hash_restores_thread [OF this, of "\<lparr>location_hash = [], hash_value = None\<rparr>"]
  show ?thesis by blast
qed

text \<open>A hash with a malformed escape is not read as "no thread": reading it raises, during the
  first render as well as in the listener.\<close>

theorem malformed_hash_raises:
  "hash_init (PREFIX @ jstr ''%'') = None
   \<and> onHashChange \<lparr>location_hash = PREFIX @ jstr ''%E9'', hash_value = v\<rparr> = None"
  by (simp add: hash_init_def onHashChange_def readHash_def decodeURIComponent_def jstr_def
      unit_of_char_def octets.simps(2) decode_octets.simps(3) hex_value_def sequence_length_def)

end
