(* ===== verification/Readonly_Runtime.thy ===== *)
theory Readonly_Runtime
  imports Messages
begin

section \<open>The read-only assistant runtime\<close>

text \<open>
  \<^verbatim>\<open>web/src/lib/readonly-assistant-runtime.ts\<close>: the messages handed to the assistant-ui library and
  the facade put around its runtime. Each facade object is a table of members: a member raises,
  returns a rejected promise, is bound to the member of the underlying object, reads a field of it,
  masks its state, or wraps an object reached through it into a facade again. The library's runtime
  is a parameter: a store of its own with a call and a navigation function. What the code reads when
  it builds an object of the facade (its fields, and the thread, threads and composer below it) is
  read in the state of that moment, which the object carries; reading a field changes nothing.
\<close>

datatype facade = RuntimeF | ThreadListF | ThreadListItemF | ThreadF | MessageF | ComposerF
  | EditComposerF | PartF | AttachmentF

datatype policy =
    Throws string
  | Rejects string
  | Forward
  | Reads
  | Masks
  | Wraps facade
  | Captures facade string
  | WrapsSelf

definition runtime_methods :: "(string \<times> policy) list" where
  "runtime_methods =
     [(''threads'', Captures ThreadListF ''threads''), (''thread'', Captures ThreadF ''thread''),
      (''threadList'', Captures ThreadListF ''threads''),
      (''switchToNewThread'', Throws ''runtime.switchToNewThread''),
      (''switchToThread'', Throws ''runtime.switchToThread''),
      (''registerModelContextProvider'', Forward),
      (''registerModelConfigProvider'', Forward), (''reset'', Throws ''runtime.reset'')]"

definition threadList_methods :: "(string \<times> policy) list" where
  "threadList_methods =
     [(''getState'', Forward), (''subscribe'', Forward), (''main'', Wraps ThreadF),
      (''getById'', Wraps ThreadF), (''mainItem'', Wraps ThreadListItemF),
      (''getItemById'', Wraps ThreadListItemF),
      (''getItemByIndex'', Wraps ThreadListItemF),
      (''getArchivedItemByIndex'', Wraps ThreadListItemF),
      (''switchToThread'', Rejects ''threadList.switchToThread''),
      (''switchToNewThread'', Rejects ''threadList.switchToNewThread''),
      (''getLoadThreadsPromise'', Forward)]"

definition threadListItem_methods :: "(string \<times> policy) list" where
  "threadListItem_methods =
     [(''path'', Reads), (''getState'', Forward),
      (''initialize'', Rejects ''threadListItem.initialize''),
      (''generateTitle'', Rejects ''threadListItem.generateTitle''),
      (''switchTo'', Rejects ''threadListItem.switchTo''),
      (''rename'', Rejects ''threadListItem.rename''),
      (''archive'', Rejects ''threadListItem.archive''),
      (''unarchive'', Rejects ''threadListItem.unarchive''),
      (''delete'', Rejects ''threadListItem.delete''),
      (''detach'', Throws ''threadListItem.detach''), (''subscribe'', Forward),
      (''unstable_on'', Forward), (''__internal_getRuntime'', WrapsSelf)]"

definition thread_methods :: "(string \<times> policy) list" where
  "thread_methods =
     [(''path'', Reads), (''composer'', Captures ComposerF ''composer''), (''getState'', Masks),
      (''append'', Throws ''thread.append''),
      (''startRun'', Throws ''thread.startRun''),
      (''resumeRun'', Throws ''thread.resumeRun''),
      (''unstable_resumeRun'', Throws ''thread.unstable_resumeRun''),
      (''exportExternalState'', Forward),
      (''importExternalState'', Throws ''thread.importExternalState''),
      (''unstable_loadExternalState'', Throws ''thread.unstable_loadExternalState''),
      (''subscribe'', Forward), (''cancelRun'', Throws ''thread.cancelRun''),
      (''getModelContext'', Forward), (''getModelConfig'', Forward), (''export'', Forward),
      (''import'', Throws ''thread.import''), (''reset'', Throws ''thread.reset''),
      (''getMessageByIndex'', Wraps MessageF), (''getMessageById'', Wraps MessageF),
      (''stopSpeaking'', Throws ''thread.stopSpeaking''),
      (''connectVoice'', Throws ''thread.connectVoice''),
      (''disconnectVoice'', Throws ''thread.disconnectVoice''),
      (''getVoiceVolume'', Forward), (''subscribeVoiceVolume'', Forward),
      (''muteVoice'', Throws ''thread.muteVoice''),
      (''unmuteVoice'', Throws ''thread.unmuteVoice''), (''unstable_on'', Forward)]"

definition message_methods :: "(string \<times> policy) list" where
  "message_methods =
     [(''path'', Reads), (''composer'', Captures ComposerF ''composer''), (''getState'', Forward),
      (''reload'', Throws ''message.reload''), (''speak'', Throws ''message.speak''),
      (''stopSpeaking'', Throws ''message.stopSpeaking''),
      (''submitFeedback'', Throws ''message.submitFeedback''),
      (''switchToBranch'', Throws ''message.switchToBranch''),
      (''unstable_getCopyText'', Forward), (''subscribe'', Forward),
      (''getMessagePartByIndex'', Wraps PartF),
      (''getMessagePartByToolCallId'', Wraps PartF),
      (''getAttachmentByIndex'', Wraps AttachmentF)]"

definition composer_methods :: "(string \<times> policy) list" where
  "composer_methods =
     [(''path'', Reads), (''type'', Reads), (''getState'', Masks),
      (''addAttachment'', Rejects ''composer.addAttachment''),
      (''setText'', Throws ''composer.setText''),
      (''setRole'', Throws ''composer.setRole''),
      (''setRunConfig'', Throws ''composer.setRunConfig''),
      (''reset'', Rejects ''composer.reset''),
      (''clearAttachments'', Rejects ''composer.clearAttachments''),
      (''send'', Throws ''composer.send''), (''cancel'', Throws ''composer.cancel''),
      (''subscribe'', Forward), (''getAttachmentByIndex'', Wraps AttachmentF),
      (''startDictation'', Throws ''composer.startDictation''),
      (''stopDictation'', Throws ''composer.stopDictation''),
      (''setQuote'', Throws ''composer.setQuote''), (''unstable_on'', Forward)]"

definition part_methods :: "(string \<times> policy) list" where
  "part_methods =
     [(''path'', Reads), (''getState'', Forward), (''subscribe'', Forward),
      (''addToolResult'', Throws ''messagePart.addToolResult''),
      (''resumeToolCall'', Throws ''messagePart.resumeToolCall'')]"

definition attachment_methods :: "(string \<times> policy) list" where
  "attachment_methods =
     [(''path'', Reads), (''source'', Reads), (''getState'', Forward),
      (''subscribe'', Forward), (''remove'', Rejects ''attachment.remove'')]"

text \<open>A composer that has \<open>beginEdit\<close> keeps the member, as one that raises.\<close>

fun methods_of :: "facade \<Rightarrow> (string \<times> policy) list" where
  "methods_of RuntimeF = runtime_methods"
| "methods_of ThreadListF = threadList_methods"
| "methods_of ThreadListItemF = threadListItem_methods"
| "methods_of ThreadF = thread_methods"
| "methods_of MessageF = message_methods"
| "methods_of ComposerF = composer_methods"
| "methods_of EditComposerF = composer_methods @ [(''beginEdit'', Throws ''composer.beginEdit'')]"
| "methods_of PartF = part_methods"
| "methods_of AttachmentF = attachment_methods"

subsection \<open>Masked state\<close>

text \<open>\<open>\{ ...record, key: value \}\<close>.\<close>

definition with_prop :: "js \<Rightarrow> string \<Rightarrow> js \<Rightarrow> js" where
  "with_prop r k v = JObj (map_put (own_props r) (jstr k) v)"

definition masked_capabilities :: "string list" where
  "masked_capabilities =
     [''edit'', ''reload'', ''cancel'', ''speech'', ''dictation'', ''voice'', ''attachments'',
      ''feedback'', ''switchToBranch'', ''switchBranchDuringRun'', ''unstable_copy'', ''queue'']"

definition thread_state_mask :: "js \<Rightarrow> js" where
  "thread_state_mask s =
     with_prop (with_prop s ''isDisabled'' (JBool True)) ''capabilities''
       (foldl (\<lambda>r k. with_prop r k (JBool False)) (JObj (own_props (field s ''capabilities'')))
          masked_capabilities)"

definition composer_state_mask :: "js \<Rightarrow> js" where
  "composer_state_mask s = with_prop s ''canCancel'' (JBool False)"

definition mask_of :: "facade \<Rightarrow> js \<Rightarrow> js" where
  "mask_of f = (if f = ThreadF then thread_state_mask else composer_state_mask)"

subsection \<open>Calls through the facade\<close>

text \<open>The underlying runtime: calling a member of an object, the object a member leads to, and the value of a
  field.\<close>

record ('o, 's) backend =
  call_member :: "'o \<Rightarrow> string \<Rightarrow> js list \<Rightarrow> 's \<Rightarrow> js \<times> 's"
  follow :: "'o \<Rightarrow> string \<Rightarrow> js list \<Rightarrow> 's \<Rightarrow> 'o"
  read_field :: "'o \<Rightarrow> string \<Rightarrow> 's \<Rightarrow> js"
  has_beginEdit :: "'o \<Rightarrow> bool"

text \<open>An object of the facade: its kind, the object it was built for, and the state it was built in.\<close>

type_synonym ('o, 's) facade_object = "facade \<times> 'o \<times> 's"

datatype ('o, 's) outcome =
    Thrown jsstring
  | Rejected jsstring
  | Returned js
  | Wrapped "('o, 's) facade_object"
  | NotAMember

definition readonly_error :: "string \<Rightarrow> jsstring" where
  "readonly_error operation =
     jstr ''Readonly assistant runtime does not allow '' @ jstr operation @ jstr ''.''"

text \<open>\<open>createReadonlyComposer\<close> looks for \<open>beginEdit\<close>.\<close>

definition facade_for :: "('o, 's) backend \<Rightarrow> facade \<Rightarrow> 'o \<Rightarrow> facade" where
  "facade_for be f o' = (if f = ComposerF \<and> has_beginEdit be o' then EditComposerF else f)"

definition facade_call ::
    "('o, 's) backend \<Rightarrow> ('o, 's) facade_object \<Rightarrow> string \<Rightarrow> js list \<Rightarrow> 's \<Rightarrow> ('o, 's) outcome \<times> 's" where
  "facade_call be x m as s =
     (case x of (f, ob, built) \<Rightarrow>
      (case map_of (methods_of f) m of
         None \<Rightarrow> (NotAMember, s)
       | Some (Throws op) \<Rightarrow> (Thrown (readonly_error op), s)
       | Some (Rejects op) \<Rightarrow> (Rejected (readonly_error op), s)
       | Some Forward \<Rightarrow> (case call_member be ob m as s of (r, s') \<Rightarrow> (Returned r, s'))
       | Some Reads \<Rightarrow> (Returned (read_field be ob m built), s)
       | Some Masks \<Rightarrow> (case call_member be ob m as s of (r, s') \<Rightarrow> (Returned (mask_of f r), s'))
       | Some (Wraps g) \<Rightarrow>
           let child = follow be ob m as s in (Wrapped (facade_for be g child, child, s), s)
       | Some (Captures g n) \<Rightarrow>
           let child = follow be ob n [] built in (Wrapped (facade_for be g child, child, built), s)
       | Some WrapsSelf \<Rightarrow> (Wrapped (f, ob, s), s)))"

text \<open>What a client can do with the facade: call members, starting from the objects it was given
  and going on with the objects it gets back. The facade was built in the state \<open>s0\<close>.\<close>

inductive client_run ::
    "('o, 's) backend \<Rightarrow> 'o \<Rightarrow> 's \<Rightarrow> ('o, 's) facade_object set \<Rightarrow> 's \<Rightarrow> bool" for be base s0 where
  start: "client_run be base s0 {(RuntimeF, base, s0)} s0"
| call: "client_run be base s0 known s \<Longrightarrow> x \<in> known \<Longrightarrow> facade_call be x m as s = (r, s') \<Longrightarrow>
    client_run be base s0 (case r of Wrapped y \<Rightarrow> insert y known | _ \<Rightarrow> known) s'"

text \<open>The members that reach the underlying runtime.\<close>

definition reading_members :: "string list" where
  "reading_members =
     [''registerModelContextProvider'', ''registerModelConfigProvider'', ''getState'', ''subscribe'',
      ''getLoadThreadsPromise'', ''unstable_on'', ''exportExternalState'', ''getModelContext'',
      ''getModelConfig'', ''export'', ''getVoiceVolume'', ''subscribeVoiceVolume'',
      ''unstable_getCopyText'']"

definition reaches :: "policy \<Rightarrow> bool" where
  "reaches p = (case p of Forward \<Rightarrow> True | Masks \<Rightarrow> True | _ \<Rightarrow> False)"

lemma members_reading:
  "list_all (\<lambda>(m, p). reaches p \<longrightarrow> m \<in> set reading_members) (methods_of f)"
  by (cases f) (simp_all add: reaches_def reading_members_def runtime_methods_def
      threadList_methods_def threadListItem_methods_def thread_methods_def message_methods_def
      composer_methods_def part_methods_def attachment_methods_def)

lemma reaches_reading: "map_of (methods_of f) m = Some p \<Longrightarrow> reaches p \<Longrightarrow> m \<in> set reading_members"
  using members_reading [of f] map_of_SomeD [of "methods_of f" m p] by (auto simp: list_all_iff)

lemma facade_call_state:
  assumes "facade_call be (f, ob, built) m as s = (r, s')"
  shows "s' = s \<or> (m \<in> set reading_members \<and> s' = snd (call_member be ob m as s))"
proof (cases "map_of (methods_of f) m")
  case None
  with assms show ?thesis by (simp add: facade_call_def)
next
  case (Some p)
  show ?thesis
  proof (cases "reaches p")
    case True
    with Some reaches_reading assms show ?thesis
      by (auto simp: facade_call_def reaches_def split: policy.splits prod.splits)
  next
    case False
    with Some assms show ?thesis
      by (auto simp: facade_call_def reaches_def Let_def split: policy.splits prod.splits)
  qed
qed

subsection \<open>The messages of the runtime\<close>

datatype content =
    TextContent jsstring
  | ReasoningContent jsstring
  | DataContent jsstring part

record 'd thread_message =
  tm_id :: jsstring
  tm_role :: role
  tm_createdAt :: 'd
  tm_content :: "content list"
  tm_status :: js
  tm_metadata :: js
  tm_attachments :: js

fun part_type :: "part \<Rightarrow> string" where
  "part_type (TextPart a b c d) = ''text''"
| "part_type (ReasoningPart a b c) = ''reasoning''"
| "part_type (LifecyclePart a b c d) = ''lifecycle''"
| "part_type (PlanPart a b c d e) = ''plan''"
| "part_type (ApprovalPart a b c d e f) = ''approval''"
| "part_type (ToolPart a b) = ''tool''"
| "part_type (McpMethodPart a b c d) = ''mcp_method''"
| "part_type (UnknownPart a b c d) = ''unknown''"

fun toThreadMessagePart :: "part \<Rightarrow> content" where
  "toThreadMessagePart (TextPart t ph mc ids) = TextContent t"
| "toThreadMessagePart (ReasoningPart t v ids) = ReasoningContent t"
| "toThreadMessagePart p = DataContent (jstr (''data-codex-'' @ part_type p)) p"

text \<open>\<open>new Date(createdAt)\<close> is the parameter \<open>date\<close>.\<close>

definition js_record :: "(string \<times> js) list \<Rightarrow> js" where
  "js_record ps = JObj (map (\<lambda>(k, v). (jstr k, v)) ps)"

definition toThreadMessages :: "(jsstring \<Rightarrow> 'd) \<Rightarrow> message list \<Rightarrow> 'd thread_message list" where
  "toThreadMessages date ms = map (\<lambda>m.
     let custom = (''custom'', js_record [(''readonly'', JBool True)]) in
     \<lparr>tm_id = msg_id m, tm_role = msg_role m, tm_createdAt = date (createdAt m),
      tm_content = map toThreadMessagePart (parts m),
      tm_status = (if msg_role m = Assistant
        then js_record [(''type'', JStr (jstr ''complete'')), (''reason'', JStr (jstr ''stop''))]
        else JUndef),
      tm_metadata = js_record (if msg_role m = Assistant
        then [(''unstable_state'', JNull), (''unstable_annotations'', JArr []),
              (''unstable_data'', JArr []), (''steps'', JArr []), custom]
        else [custom]),
      tm_attachments = (if msg_role m = Assistant then JUndef else JArr [])\<rparr>) ms"

record 'd runtime_config =
  rc_messages :: "'d thread_message list"
  isRunning :: bool
  affordances :: "(string \<times> bool) list"
  capabilities :: "(string \<times> bool) list"

definition READONLY_ASSISTANT_AFFORDANCES :: "(string \<times> bool) list" where
  "READONLY_ASSISTANT_AFFORDANCES =
     [(''composer'', False), (''edit'', False), (''reload'', False), (''branchSwitch'', False),
      (''attachments'', False)]"

definition buildReadonlyRuntimeConfig :: "(jsstring \<Rightarrow> 'd) \<Rightarrow> message list \<Rightarrow> 'd runtime_config" where
  "buildReadonlyRuntimeConfig date ms =
     \<lparr>rc_messages = toThreadMessages date ms, isRunning = False,
      affordances = READONLY_ASSISTANT_AFFORDANCES,
      capabilities = [(''edit'', False), (''reload'', False), (''switchToBranch'', False),
        (''attachments'', False)]\<rparr>"

lemma ids_toThreadMessages: "map tm_id (toThreadMessages date ms) = map msg_id ms"
  by (simp add: toThreadMessages_def Let_def comp_def)

subsection \<open>Properties\<close>

text \<open>C35. Nothing a client does with the read-only runtime changes the conversation: whatever members
  of whatever facade objects it calls, with whatever arguments, in whatever order, the view of the
  underlying state is the one it started with. The underlying runtime has to keep the view only in
  the listed reading members; all others are never reached.\<close>

theorem readonly_runtime_preserves_view:
  assumes "client_run be base s0 known s"
    and "\<forall>ob m as s. m \<in> set reading_members \<longrightarrow> view (snd (call_member be ob m as s)) = view s"
  shows "view s = view s0"
  using assms(1)
proof induction
  case (call known s x m as r s')
  obtain f ob built where "x = (f, ob, built)" by (cases x) auto
  with call.hyps(3) have "facade_call be (f, ob, built) m as s = (r, s')" by simp
  then have "s' = s \<or> (m \<in> set reading_members \<and> s' = snd (call_member be ob m as s))"
    by (rule facade_call_state)
  with call.IH assms(2) show ?case by auto
qed simp

definition sample_backend :: "(nat, nat \<times> nat) backend" where
  "sample_backend = \<lparr>call_member = \<lambda>ob m as s. (JUndef,
       if m = ''append'' then (fst s + 1, snd s) else (fst s, snd s + 1)),
     follow = \<lambda>ob m as s. ob + 1, read_field = \<lambda>ob m s. JUndef, has_beginEdit = \<lambda>ob. True\<rparr>"

lemma readonly_runtime_preserves_view_witness:
  "\<exists>known. client_run sample_backend 0 (0, 0) known (0, 1) \<and> fst (0::nat, 1::nat) = fst (0::nat, 0::nat)"
proof -
  have t: "facade_call sample_backend (RuntimeF, 0, (0, 0)) ''thread'' [] (0, 0) = (Wrapped (ThreadF, 1, (0, 0)), (0, 0))"
    by (simp add: facade_call_def runtime_methods_def sample_backend_def facade_for_def)
  have g: "facade_call sample_backend (ThreadF, 1, (0, 0)) ''getState'' [] (0, 0)
      = (Returned (thread_state_mask JUndef), (0, 1))"
    by (simp add: facade_call_def thread_methods_def sample_backend_def mask_of_def)
  have "client_run sample_backend 0 (0, 0) (insert (ThreadF, 1, (0, 0)) {(RuntimeF, 0, (0, 0))}) (0, 0)"
    using client_run.call [OF client_run.start _ t] by simp
  from client_run.call [OF this _ g]
  have run: "client_run sample_backend 0 (0, 0) (insert (ThreadF, 1, (0, 0)) {(RuntimeF, 0, (0, 0))}) (0, 1)" by simp
  have "fst (0::nat, 1::nat) = fst (0::nat, 0::nat)"
    by (rule readonly_runtime_preserves_view [OF run])
      (simp add: sample_backend_def reading_members_def)
  with run show ?thesis by blast
qed

fun facade_name :: "facade \<Rightarrow> string" where
  "facade_name RuntimeF = ''runtime''"
| "facade_name ThreadListF = ''threadList''"
| "facade_name ThreadListItemF = ''threadListItem''"
| "facade_name ThreadF = ''thread''"
| "facade_name MessageF = ''message''"
| "facade_name ComposerF = ''composer''"
| "facade_name EditComposerF = ''composer''"
| "facade_name PartF = ''messagePart''"
| "facade_name AttachmentF = ''attachment''"

text \<open>A refused operation is reported under its own name: the error of every member that raises or
  rejects names the object and the member, and no object defines a member twice.\<close>

theorem refusals_name_the_member:
  "distinct (map fst (methods_of f))
   \<and> list_all (\<lambda>(m, p). case p of
        Throws op \<Rightarrow> op = facade_name f @ ''.'' @ m
      | Rejects op \<Rightarrow> op = facade_name f @ ''.'' @ m
      | _ \<Rightarrow> True) (methods_of f)"
  by (cases f) (simp_all add: runtime_methods_def threadList_methods_def threadListItem_methods_def
      thread_methods_def message_methods_def composer_methods_def part_methods_def
      attachment_methods_def)

lemma field_put: "field (JObj (map_put ps (jstr x) v)) k = (if k = x then v else field (JObj ps) k)"
  by (simp add: field_def map_put_def update_conv')

lemma field_with_false:
  "field (foldl (\<lambda>r k. with_prop r k (JBool False)) (JObj ps) ks) k =
     (if k \<in> set ks then JBool False else field (JObj ps) k)"
  by (induction ks arbitrary: ps) (simp_all add: with_prop_def field_put)

text \<open>The state of the thread shows every capability as switched off, whatever the underlying
  runtime reports, the thread as disabled, and every other property as it is.\<close>

theorem thread_state_is_disabled:
  "list_all (\<lambda>k. field (field (thread_state_mask s) ''capabilities'') k = JBool False) masked_capabilities
   \<and> field (thread_state_mask s) ''isDisabled'' = JBool True
   \<and> (k = ''capabilities'' \<or> k = ''isDisabled''
      \<or> field (thread_state_mask s) k = field (JObj (own_props s)) k)"
  using field_with_false [of "own_props (field s ''capabilities'')" masked_capabilities]
  by (auto simp: thread_state_mask_def with_prop_def field_put list_all_iff)

end
