(* ===== verification/Workbench_View.thy ===== *)
theory Workbench_View
  imports Thread_Properties
begin

section \<open>What the components compute\<close>

text \<open>
  The functions inside the components of \<^verbatim>\<open>web/src/components\<close> and \<^verbatim>\<open>web/src/lib/utils.ts\<close> that
  decide what is shown: previews, the filters and the expanded rows of the raw event table, the
  keys and labels of message parts, the metadata rows, the titles. The markup around them is not
  modelled. \<open>JSON.stringify\<close> and \<open>toLowerCase\<close> on arbitrary text are parameters.
\<close>

subsection \<open>Previews\<close>

definition ellipsis :: jsstring where
  "ellipsis = [0x2026]"

definition truncate_text :: "jsstring \<Rightarrow> nat \<Rightarrow> jsstring" where
  "truncate_text s maxLen =
     (if s = [] then [] else if length s > maxLen then take maxLen s @ ellipsis else s)"

text \<open>\<open>stringify\<close> raises (\<open>Inl\<close>), or returns a string or \<open>undefined\<close>.\<close>

definition compactPayloadPreview ::
    "(js \<Rightarrow> unit + jsstring option) \<Rightarrow> (js \<Rightarrow> jsstring) \<Rightarrow> js \<Rightarrow> nat \<Rightarrow> jsstring" where
  "compactPayloadPreview stringify toString v maxLen =
     (let s = (case v of
                 JStr t \<Rightarrow> Some t
               | _ \<Rightarrow> (case stringify v of Inr t \<Rightarrow> t | Inl _ \<Rightarrow> Some (toString v)))
      in truncate_text (opt_default s []) maxLen)"

definition prettyPayload ::
    "(js \<Rightarrow> unit + jsstring option) \<Rightarrow> (js \<Rightarrow> jsstring) \<Rightarrow> js \<Rightarrow> jsstring option" where
  "prettyPayload stringify2 toString v =
     (case stringify2 v of Inr t \<Rightarrow> t | Inl _ \<Rightarrow> Some (toString v))"

lemma length_truncate: "length (truncate_text s n) \<le> n + 1"
  by (simp add: truncate_text_def ellipsis_def)

subsection \<open>The raw event table\<close>

record table_state =
  typeFilter :: jsstring
  requestFilter :: jsstring
  turnFilter :: jsstring
  expanded :: "jsstring list"

definition table_init :: table_state where
  "table_init = \<lparr>typeFilter = [], requestFilter = [], turnFilter = [], expanded = []\<rparr>"

text \<open>One of the three tests: \<open>needle && !(value ?? "").toLowerCase().includes(needle)\<close> rejects.\<close>

definition filter_accepts :: "(jsstring \<Rightarrow> jsstring) \<Rightarrow> jsstring \<Rightarrow> jsstring option \<Rightarrow> bool" where
  "filter_accepts lower f v =
     (let needle = lower (trim f) in
      needle = [] \<or> js_includes (lower (opt_default v [])) needle)"

definition row_accepted :: "(jsstring \<Rightarrow> jsstring) \<Rightarrow> table_state \<Rightarrow> event_record \<Rightarrow> bool" where
  "row_accepted lower st e \<longleftrightarrow>
     filter_accepts lower (typeFilter st) (event_type e)
     \<and> filter_accepts lower (requestFilter st) (request_id e)
     \<and> filter_accepts lower (turnFilter st) (turn_id e)"

definition filtered_rows :: "(jsstring \<Rightarrow> jsstring) \<Rightarrow> table_state \<Rightarrow> event_record list \<Rightarrow> event_record list" where
  "filtered_rows lower st events = filter (row_accepted lower st) events"

definition toggle :: "jsstring \<Rightarrow> table_state \<Rightarrow> table_state" where
  "toggle i st = st\<lparr>expanded := (if i \<in> set (expanded st) then removeAll i (expanded st)
                                else expanded st @ [i])\<rparr>"

text \<open>The rows of the table: an event, and its detail when it is expanded.\<close>

definition table_rows :: "(jsstring \<Rightarrow> jsstring) \<Rightarrow> table_state \<Rightarrow> event_record list \<Rightarrow> (event_record \<times> bool) list" where
  "table_rows lower st events =
     map (\<lambda>e. (e, event_id e \<in> set (expanded st))) (filtered_rows lower st events)"

definition detail_rows :: "event_record \<Rightarrow> (string \<times> jsstring) list" where
  "detail_rows e = List.map_filter (\<lambda>(k, v). case v of
       Some x \<Rightarrow> if length x > 0 then Some (k, x) else None
     | None \<Rightarrow> None)
     [(''event_id'', Some (event_id e)), (''category'', Some (category e)),
      (''thread_id'', thread_id e), (''source_key'', Some (source_key e)),
      (''proxy_instance_id'', Some (proxy_instance_id e)),
      (''command_call_id'', command_call_id e), (''tool_call_id'', tool_call_id e)]"

lemma expanded_toggle:
  "set (expanded (toggle i st)) = (if i \<in> set (expanded st) then set (expanded st) - {i}
                                   else insert i (set (expanded st)))"
  by (auto simp: toggle_def)

subsection \<open>Parts of a message\<close>

fun part_title :: "part \<Rightarrow> js" where
  "part_title (LifecyclePart a t c d) = t"
| "part_title (PlanPart t b c d e) = JStr t"
| "part_title (ApprovalPart t b c d e f) = JStr t"
| "part_title (ToolPart tp b) = JStr (tool_title tp)"
| "part_title (McpMethodPart a t c d) = JStr t"
| "part_title (UnknownPart a t c d) = JStr t"
| "part_title p = JUndef"

fun kind_text :: "part \<Rightarrow> string" where
  "kind_text (TextPart a b c d) = ''text''"
| "kind_text (ReasoningPart a b c) = ''reasoning''"
| "kind_text (LifecyclePart a b c d) = ''lifecycle''"
| "kind_text (PlanPart a b c d e) = ''plan''"
| "kind_text (ApprovalPart a b c d e f) = ''approval''"
| "kind_text (ToolPart a b) = ''tool''"
| "kind_text (McpMethodPart a b c d) = ''mcp_method''"
| "kind_text (UnknownPart a b c d) = ''unknown''"

fun variant_text :: "reasoning_variant \<Rightarrow> string" where
  "variant_text Reasoning = ''reasoning''"
| "variant_text RawContent = ''raw_content''"

text \<open>\<open>partKey\<close>; the title is put into the key as the template literal does, by \<open>toString\<close>.\<close>

fun partKey :: "(js \<Rightarrow> jsstring) \<Rightarrow> jsstring \<Rightarrow> part \<Rightarrow> jsstring" where
  "partKey toString m (TextPart t ph mc ids) = m @ jstr ''-text-'' @ join (jstr ''-'') ids"
| "partKey toString m (ReasoningPart t v ids) =
     m @ jstr ''-reasoning-'' @ jstr (variant_text v) @ jstr ''-'' @ t"
| "partKey toString m p = m @ jstr ''-'' @ jstr (kind_text p) @ jstr ''-'' @ toString (part_title p)"

fun partLabel :: "part \<Rightarrow> js" where
  "partLabel (TextPart t ph mc ids) = JStr (jstr ''Text'')"
| "partLabel (ReasoningPart t v ids) =
     JStr (if v = RawContent then jstr ''Raw reasoning'' else jstr ''Reasoning'')"
| "partLabel p = part_title p"

definition hasMemoryCitationEntries :: "js \<Rightarrow> bool" where
  "hasMemoryCitationEntries v \<longleftrightarrow> list (asRecord v) ''entries'' \<noteq> []"

definition memoryCitationLabel :: "js \<Rightarrow> jsstring" where
  "memoryCitationLabel v =
     (let count = length (list (asRecord v) ''entries'') in
      if count = 1 then jstr ''1 memory citation''
      else show_int (int count) @ jstr '' memory citations'')"

subsection \<open>Session header and metadata\<close>

definition header_title :: "session \<Rightarrow> jsstring" where
  "header_title s = (case s_title s of
     Some t \<Rightarrow> if trim t \<noteq> [] then trim t else jstr ''thread '' @ s_thread_id s
   | None \<Rightarrow> jstr ''thread '' @ s_thread_id s)"

definition header_badges :: "session \<Rightarrow> jsstring list" where
  "header_badges s = filter (\<lambda>b. b \<noteq> []) (List.map_filter id [model s, s_status s])"

text \<open>The rows of the metadata panel; a missing value is shown as a dash.\<close>

definition metadata_rows :: "session option \<Rightarrow> client_source option \<Rightarrow> (string \<times> jsstring) list option" where
  "metadata_rows s c = (case (s, c) of
     (Some x, Some y) \<Rightarrow>
       Some (map (\<lambda>(k, v). (k, opt_default v [0x2014]))
         [(''Thread id'', Some (s_thread_id x)), (''Model'', model x), (''CWD'', s_cwd x),
          (''Approval policy'', approval_policy x), (''Sandbox'', sandbox x),
          (''First seen'', Some (first_seen x)), (''Last seen'', Some (last_seen x)),
          (''Client'', Some (client_name y)), (''PID'', Some (show_int (pid y))),
          (''Protocol'', protocol_version y), (''Executable'', executable y),
          (''CWD'', cs_cwd y)])
   | _ \<Rightarrow> None)"

subsection \<open>Properties\<close>

lemma js_includes_trans: "js_includes s t \<Longrightarrow> js_includes t u \<Longrightarrow> js_includes s u"
  unfolding js_includes_iff by (metis append.assoc)

lemma js_includes_refl: "js_includes s s"
  unfolding js_includes_iff by (metis append_Nil append_Nil2)

lemma filter_accepts_narrow:
  assumes "js_includes (lower (trim f')) (lower (trim f))" "filter_accepts lower f' v"
  shows "filter_accepts lower f v"
proof (cases "lower (trim f') = []")
  case True
  with assms(1) have "lower (trim f) = []" by simp
  then show ?thesis by (simp add: filter_accepts_def)
next
  case False
  with assms show ?thesis by (auto simp: filter_accepts_def Let_def dest: js_includes_trans)
qed

text \<open>Typing more into a filter only narrows the table: when each needle contains the previous one,
  the rows are those rows of the previous table that pass the new filters, in the same order, and
  the rows that stay keep their open or closed state.\<close>

theorem filters_only_narrow:
  assumes "js_includes (lower (trim (typeFilter st'))) (lower (trim (typeFilter st)))"
    and "js_includes (lower (trim (requestFilter st'))) (lower (trim (requestFilter st)))"
    and "js_includes (lower (trim (turnFilter st'))) (lower (trim (turnFilter st)))"
    and "expanded st' = expanded st"
  shows "table_rows lower st' es = filter (\<lambda>(e, open). row_accepted lower st' e) (table_rows lower st es)"
proof -
  have "row_accepted lower st e" if "row_accepted lower st' e" for e
    using that assms(1-3) filter_accepts_narrow unfolding row_accepted_def by blast
  then have "filtered_rows lower st' es = filter (row_accepted lower st') (filtered_rows lower st es)"
    by (auto simp: filtered_rows_def intro!: filter_cong)
  then show ?thesis by (simp add: table_rows_def assms(4) filter_map comp_def)
qed

lemma filters_only_narrow_witness:
  "let st = table_init\<lparr>typeFilter := jstr ''exec''\<rparr>; st' = table_init\<lparr>typeFilter := jstr '' Exec_''\<rparr> in
   table_rows toLowerCase st' sample_events =
     filter (\<lambda>(e, open). row_accepted toLowerCase st' e) (table_rows toLowerCase st sample_events)"
proof -
  have "toLowerCase (trim (jstr '' Exec_'')) = jstr ''exec_''" "toLowerCase (trim (jstr ''exec'')) = jstr ''exec''"
    by (simp_all add: trim_def is_ws_def js_whitespace_def toLowerCase_def lower_unit_def jstr_def
        unit_of_char_def)
  moreover have "js_includes (jstr ''exec_'') (jstr ''exec'')" by (simp add: jstr_def)
  ultimately show ?thesis
    unfolding Let_def by (intro filters_only_narrow) (simp_all add: table_init_def js_includes_refl)
qed

text \<open>A click on a row opens or closes that row and no other, and a second click undoes the
  first.\<close>

theorem toggle_one_row:
  "table_rows lower (toggle i st) es
     = map (\<lambda>(e, open). (e, if event_id e = i then \<not> open else open)) (table_rows lower st es)
   \<and> table_rows lower (toggle i (toggle i st)) es = table_rows lower st es"
proof -
  have "filtered_rows lower (toggle j st) es = filtered_rows lower st es" for j st
    by (simp add: filtered_rows_def row_accepted_def [abs_def] toggle_def)
  then show ?thesis by (auto simp: table_rows_def expanded_toggle)
qed

text \<open>Two commands with the same text.\<close>

definition twice_ls :: "event_record list" where
  "twice_ls =
     [sample_event ''e1'' ''t1'' ''exec_command_begin''
        [(''call_id'', JStr (jstr ''c1'')), (''command'', JArr [JStr (jstr ''ls'')])],
      sample_event ''e2'' ''t2'' ''exec_command_begin''
        [(''call_id'', JStr (jstr ''c2'')), (''command'', JArr [JStr (jstr ''ls'')])]]"

lemma twice_ls_parts:
  "map (\<lambda>m. (msg_id m, parts m)) (messages (projectReadonlyAssistantThread compare_units sample_detail twice_ls))
   = [(jstr ''assistant-e1'',
       map (\<lambda>i. ToolPart ((tool0 ExecCommand (jstr ''ls'') Running)
           \<lparr>command := Some [jstr ''ls''], tool_output := None, interactions := None\<rparr>) [jstr i])
         [''e1'', ''e2''])]"
  by code_simp

text \<open>The React keys of the parts of one message need not be distinct: two commands with the same
  text, one after the other, become two parts of one message with the same key, whatever the
  titles are turned into.\<close>

theorem part_keys_collide:
  "\<exists>m. messages (projectReadonlyAssistantThread compare_units sample_detail twice_ls) = [m]
     \<and> length (parts m) = 2
     \<and> \<not> distinct (map (partKey toString (msg_id m)) (parts m))"
proof -
  obtain m where m: "messages (projectReadonlyAssistantThread compare_units sample_detail twice_ls) = [m]"
    using twice_ls_parts by (auto simp: map_eq_Cons_conv)
  from twice_ls_parts show ?thesis unfolding m by (intro exI [of _ m]) auto
qed

end
