(* ===== verification/Hub_Broker.thy ===== *)
theory Hub_Broker
  imports Hub_Store
begin

section \<open>The hub: the broker and the streaming handler\<close>

text \<open>
  \<open>Broker\<close> of \<^verbatim>\<open>internal/hub/broker.go\<close> and \<open>streamHandler\<close> of \<^verbatim>\<open>internal/hub/http/sse.go\<close> as a
  step relation over their goroutines: every critical section of the broker's mutex is one step,
  and so is every send to a channel (made after the mutex was released), every event a handler
  writes, and the two halves of the closure that \<open>Subscribe\<close> returns (\<open>delete\<close> under the mutex,
  then \<open>close\<close>). Connections are named by their channel. The order in which \<open>Publish\<close> visits the
  channels is the iteration order of a Go map, which is arbitrary. A send on a closed channel
  panics; the HTTP server recovers it, so it ends that call of \<open>Publish\<close> and nothing else.
\<close>

record broker_event =
  be_event_id :: jsstring
  be_proxy_instance_id :: jsstring
  be_client_source_key :: jsstring
  be_session_id :: jsstring
  be_turn_id :: jsstring
  be_request_id :: jsstring
  be_direction :: jsstring
  be_category :: jsstring
  be_event_type :: jsstring
  be_command_call_id :: jsstring
  be_tool_call_id :: jsstring
  be_timestamp :: jsstring
  be_payload :: js

record broker =
  subscribers :: "nat set"
  ring :: "broker_event list"
  ringCap :: nat

definition NewBroker :: "int \<Rightarrow> broker" where
  "NewBroker cap = \<lparr>subscribers = {}, ring = [], ringCap = (if cap \<le> 0 then 256 else nat cap)\<rparr>"

text \<open>\<open>Publish\<close> up to the release of the mutex.\<close>

definition publish_ring :: "broker_event \<Rightarrow> broker \<Rightarrow> broker" where
  "publish_ring ev b =
     (let r = ring b @ [ev] in
      b\<lparr>ring := (if length r > ringCap b then drop (length r - ringCap b) r else r)\<rparr>)"

text \<open>The loop of \<open>Subscribe\<close> over the ring.\<close>

fun replay_loop :: "jsstring \<Rightarrow> bool \<Rightarrow> broker_event list \<Rightarrow> broker_event list" where
  "replay_loop after found [] = []"
| "replay_loop after found (ev # evs) =
     (if found then ev # replay_loop after found evs
      else replay_loop after (be_event_id ev = after) evs)"

definition subscribe_replay :: "jsstring \<Rightarrow> broker \<Rightarrow> broker_event list" where
  "subscribe_replay after b = (if after \<noteq> [] then replay_loop after False (ring b) else [])"

subsection \<open>Goroutines\<close>

text \<open>A connection: its channel (capacity 32), and the handler that writes it out. \<open>Leaving\<close> is a
  handler that has returned from its loop and not yet run the deferred \<open>unsub\<close>.\<close>

datatype phase = Serving | Leaving | Deleted | Closed

record conn =
  chan_queue :: "broker_event list"
  replay_left :: "broker_event list"
  written :: "broker_event list"
  conn_phase :: phase

definition chan_cap :: nat where
  "chan_cap = 32"

text \<open>A call of \<open>Publish\<close> after the mutex: the channels of its snapshot it has not visited.\<close>

datatype publish = Sending broker_event "nat list" | Returned | Panicked

record hub =
  hub_broker :: broker
  conns :: "nat \<Rightarrow> conn option"
  publishes :: "publish list"

definition new_hub :: "int \<Rightarrow> hub" where
  "new_hub cap = \<lparr>hub_broker = NewBroker cap, conns = (\<lambda>_. None), publishes = []\<rparr>"

definition set_conn :: "nat \<Rightarrow> conn \<Rightarrow> hub \<Rightarrow> hub" where
  "set_conn c k h = h\<lparr>conns := (conns h)(c := Some k)\<rparr>"

text \<open>\<open>select \{ case ch <- ev: default: \}\<close>.\<close>

definition try_send :: "broker_event \<Rightarrow> conn \<Rightarrow> conn" where
  "try_send ev k = (if length (chan_queue k) < chan_cap then k\<lparr>chan_queue := chan_queue k @ [ev]\<rparr> else k)"

datatype hub_action =
    Publish broker_event "nat list"
  | Send nat
  | Finish nat
  | Subscribe nat jsstring
  | WriteReplay nat
  | WriteLive nat
  | Leave nat
  | UnsubDelete nat
  | UnsubClose nat

inductive hub_step :: "hub \<Rightarrow> hub_action \<Rightarrow> hub \<Rightarrow> bool" where
  publish: "distinct order \<Longrightarrow> set order = subscribers (hub_broker h) \<Longrightarrow>
    hub_step h (Publish ev order)
      (h\<lparr>hub_broker := publish_ring ev (hub_broker h),
         publishes := publishes h @ [Sending ev order]\<rparr>)"
| send: "i < length (publishes h) \<Longrightarrow> publishes h ! i = Sending ev (c # cs) \<Longrightarrow>
    conns h c = Some k \<Longrightarrow> conn_phase k \<noteq> Closed \<Longrightarrow>
    hub_step h (Send i)
      (set_conn c (try_send ev k) (h\<lparr>publishes := (publishes h)[i := Sending ev cs]\<rparr>))"
| send_panics: "i < length (publishes h) \<Longrightarrow> publishes h ! i = Sending ev (c # cs) \<Longrightarrow>
    conns h c = Some k \<Longrightarrow> conn_phase k = Closed \<Longrightarrow>
    hub_step h (Send i) (h\<lparr>publishes := (publishes h)[i := Panicked]\<rparr>)"
| returns: "i < length (publishes h) \<Longrightarrow> publishes h ! i = Sending ev [] \<Longrightarrow>
    hub_step h (Finish i) (h\<lparr>publishes := (publishes h)[i := Returned]\<rparr>)"
| subscribe: "conns h c = None \<Longrightarrow>
    hub_step h (Subscribe c after)
      (set_conn c \<lparr>chan_queue = [], replay_left = subscribe_replay after (hub_broker h), written = [],
                   conn_phase = Serving\<rparr>
        (h\<lparr>hub_broker := (hub_broker h)\<lparr>subscribers := insert c (subscribers (hub_broker h))\<rparr>\<rparr>))"
| write_replay: "conns h c = Some k \<Longrightarrow> conn_phase k = Serving \<Longrightarrow> replay_left k = ev # evs \<Longrightarrow>
    hub_step h (WriteReplay c)
      (set_conn c (k\<lparr>replay_left := evs, written := written k @ [ev]\<rparr>) h)"
| write_live: "conns h c = Some k \<Longrightarrow> conn_phase k = Serving \<Longrightarrow> replay_left k = [] \<Longrightarrow>
    chan_queue k = ev # evs \<Longrightarrow>
    hub_step h (WriteLive c) (set_conn c (k\<lparr>chan_queue := evs, written := written k @ [ev]\<rparr>) h)"
| leave: "conns h c = Some k \<Longrightarrow> conn_phase k = Serving \<Longrightarrow>
    hub_step h (Leave c) (set_conn c (k\<lparr>conn_phase := Leaving\<rparr>) h)"
| unsub_delete: "conns h c = Some k \<Longrightarrow> conn_phase k = Leaving \<Longrightarrow>
    hub_step h (UnsubDelete c)
      (set_conn c (k\<lparr>conn_phase := Deleted\<rparr>)
        (h\<lparr>hub_broker := (hub_broker h)\<lparr>subscribers := subscribers (hub_broker h) - {c}\<rparr>\<rparr>))"
| unsub_close: "conns h c = Some k \<Longrightarrow> conn_phase k = Deleted \<Longrightarrow>
    hub_step h (UnsubClose c) (set_conn c (k\<lparr>conn_phase := Closed\<rparr>) h)"

inductive_cases hub_stepE: "hub_step h a h'"

text \<open>Runs from a given hub whose steps all satisfy a side condition.\<close>

inductive runs :: "(hub \<Rightarrow> hub_action \<Rightarrow> bool) \<Rightarrow> hub \<Rightarrow> hub_action list \<Rightarrow> hub \<Rightarrow> bool"
    for P :: "hub \<Rightarrow> hub_action \<Rightarrow> bool" and h0 :: hub where
  runs_Nil: "runs P h0 [] h0"
| runs_snoc: "runs P h0 as h \<Longrightarrow> hub_step h a h' \<Longrightarrow> P h a \<Longrightarrow> runs P h0 (as @ [a]) h'"

lemmas runs_induct = runs.induct [consumes 1, case_names Nil snoc]

abbreviation anything :: "hub \<Rightarrow> hub_action \<Rightarrow> bool" where
  "anything \<equiv> \<lambda>_ _. True"

fun published :: "hub_action list \<Rightarrow> broker_event list" where
  "published [] = []"
| "published (Publish ev order # as) = ev # published as"
| "published (a # as) = published as"

lemma published_append [simp]: "published (as @ bs) = published as @ published bs"
  by (induction as rule: published.induct) simp_all

lemma runs_mono: "runs P h0 as h \<Longrightarrow> (\<And>h a. P h a \<Longrightarrow> Q h a) \<Longrightarrow> runs Q h0 as h"
  by (induction rule: runs_induct) (auto intro: runs.intros)

subsection \<open>The ring is the tail of what was published\<close>

definition tail_of :: "nat \<Rightarrow> 'a list \<Rightarrow> 'a list" where
  "tail_of n xs = drop (length xs - n) xs"

lemma length_tail_of [simp]: "length (tail_of n xs) = min n (length xs)"
  by (auto simp: tail_of_def)

lemma tail_of_snoc: "0 < n \<Longrightarrow>
  (let r = tail_of n xs @ [x] in if length r > n then drop (length r - n) r else r) = tail_of n (xs @ [x])"
  by (auto simp: tail_of_def Let_def min_def Suc_diff_le)

lemma tail_of_split: "\<exists>front. xs = front @ tail_of n xs"
  unfolding tail_of_def by (metis append_take_drop_id)

definition ring_size :: "int \<Rightarrow> nat" where
  "ring_size cap = (if cap \<le> 0 then 256 else nat cap)"

lemma ring_size_pos [simp]: "0 < ring_size cap"
  by (simp add: ring_size_def)

lemma set_conn_simps [simp]:
  "hub_broker (set_conn c k h) = hub_broker h" "publishes (set_conn c k h) = publishes h"
  "conns (set_conn c k h) d = (if d = c then Some k else conns h d)"
  by (simp_all add: set_conn_def)

lemma try_send_simps [simp]:
  "conn_phase (try_send ev k) = conn_phase k" "written (try_send ev k) = written k"
  "replay_left (try_send ev k) = replay_left k"
  by (simp_all add: try_send_def)

lemma publish_ring_simps [simp]:
  "subscribers (publish_ring ev b) = subscribers b" "ringCap (publish_ring ev b) = ringCap b"
  by (simp_all add: publish_ring_def Let_def)

lemma ring_publish_ring:
  "0 < n \<Longrightarrow> ringCap b = n \<Longrightarrow> ring b = tail_of n xs \<Longrightarrow>
   ring (publish_ring ev b) = tail_of n (xs @ [ev])"
  by (auto simp: publish_ring_def tail_of_snoc [of n xs ev, symmetric] Let_def)

lemma hub_step_ring:
  assumes "hub_step h a h'"
  shows "ringCap (hub_broker h') = ringCap (hub_broker h)"
    and "ring (hub_broker h') = (case a of
      Publish ev order \<Rightarrow> ring (publish_ring ev (hub_broker h)) | _ \<Rightarrow> ring (hub_broker h))"
  using assms by (cases rule: hub_step.cases; simp)+

lemma run_ring:
  assumes "runs P (new_hub cap) as h"
  shows "ringCap (hub_broker h) = ring_size cap
    \<and> ring (hub_broker h) = tail_of (ring_size cap) (published as)"
  using assms
proof (induction rule: runs_induct)
  case Nil
  show ?case by (simp add: new_hub_def NewBroker_def ring_size_def tail_of_def)
next
  case (snoc as h a h')
  note step = hub_step_ring [OF snoc.hyps(2)]
  from snoc.IH have cap: "ringCap (hub_broker h) = ring_size cap"
    and ring: "ring (hub_broker h) = tail_of (ring_size cap) (published as)" by auto
  show ?case
  proof (cases a)
    case (Publish ev order)
    with step cap ring show ?thesis by (simp add: ring_publish_ring)
  qed (use step cap ring in auto)
qed

subsection \<open>Bounds\<close>

definition conns_ok :: "hub \<Rightarrow> bool" where
  "conns_ok h \<longleftrightarrow> (\<forall>c k. conns h c = Some k \<longrightarrow> length (chan_queue k) \<le> chan_cap)"

lemma conns_ok_step: "hub_step h a h' \<Longrightarrow> conns_ok h \<Longrightarrow> conns_ok h'"
  by (induction rule: hub_step.induct)
    (auto simp: conns_ok_def try_send_def split: if_splits, (metis Suc_leD length_Cons)?)

lemma run_conns_ok: "runs P (new_hub cap) as h \<Longrightarrow> conns_ok h"
proof (induction rule: runs_induct)
  case Nil
  show ?case by (simp add: new_hub_def conns_ok_def)
qed (rule conns_ok_step)

subsection \<open>Snapshots\<close>

text \<open>
  What holds in every reachable hub: the channels a publisher has still to visit are known and
  distinct, and a serving connection is registered.
\<close>

definition snapshot_ok :: "hub \<Rightarrow> publish \<Rightarrow> bool" where
  "snapshot_ok h p = (case p of Sending ev cs \<Rightarrow> distinct cs \<and> (\<forall>c\<in>set cs. conns h c \<noteq> None) | _ \<Rightarrow> True)"

definition hub_ok :: "hub \<Rightarrow> bool" where
  "hub_ok h \<longleftrightarrow> (\<forall>p\<in>set (publishes h). snapshot_ok h p)
     \<and> (\<forall>c. c \<in> subscribers (hub_broker h) \<longrightarrow> conns h c \<noteq> None)
     \<and> (\<forall>c k. conns h c = Some k \<longrightarrow> conn_phase k = Serving \<longrightarrow> c \<in> subscribers (hub_broker h))"

lemma snapshot_ok_mono:
  "snapshot_ok h p \<Longrightarrow> (\<And>c. conns h c \<noteq> None \<Longrightarrow> conns h' c \<noteq> None) \<Longrightarrow> snapshot_ok h' p"
  by (auto simp: snapshot_ok_def split: publish.splits)

lemma set_update: "x \<in> set (xs[i := v]) \<Longrightarrow> x = v \<or> x \<in> set xs"
  using set_update_subset_insert [of xs i v] by auto

lemma conns_step: "hub_step h a h' \<Longrightarrow> conns h c \<noteq> None \<Longrightarrow> conns h' c \<noteq> None"
  by (induction rule: hub_step.induct) auto

lemma publishes_step:
  "hub_step h a h' \<Longrightarrow> p \<in> set (publishes h') \<Longrightarrow>
     p \<in> set (publishes h) \<or> p = Returned \<or> p = Panicked
     \<or> (\<exists>ev c cs. p = Sending ev cs \<and> Sending ev (c # cs) \<in> set (publishes h))
     \<or> (\<exists>ev cs. p = Sending ev cs \<and> distinct cs \<and> set cs = subscribers (hub_broker h))"
  by (induction rule: hub_step.induct) (auto dest!: set_update, (metis nth_mem)+)

lemma hub_ok_step: "hub_step h a h' \<Longrightarrow> hub_ok h \<Longrightarrow> hub_ok h'"
proof -
  assume st: "hub_step h a h'" and ok: "hub_ok h"
  have "snapshot_ok h' p" if "p \<in> set (publishes h')" for p
  proof (rule snapshot_ok_mono [of h])
    show "snapshot_ok h p"
      using publishes_step [OF st that] ok by (fastforce simp: hub_ok_def snapshot_ok_def)
  qed (rule conns_step [OF st])
  moreover from st ok have "\<forall>c. c \<in> subscribers (hub_broker h') \<longrightarrow> conns h' c \<noteq> None"
    by (cases rule: hub_step.cases) (auto simp: hub_ok_def)
  moreover from st ok have
    "\<forall>c k. conns h' c = Some k \<longrightarrow> conn_phase k = Serving \<longrightarrow> c \<in> subscribers (hub_broker h')"
    by (cases rule: hub_step.cases) (auto simp: hub_ok_def)
  ultimately show ?thesis by (simp add: hub_ok_def)
qed

lemma run_hub_ok: "runs P (new_hub cap) as h \<Longrightarrow> hub_ok h"
proof (induction rule: runs_induct)
  case Nil
  show ?case by (simp add: new_hub_def NewBroker_def hub_ok_def)
qed (rule hub_ok_step)

subsection \<open>Delivery\<close>

text \<open>What a connection has written or will write, and the events still on their way to it.\<close>

definition stream :: "conn \<Rightarrow> broker_event list" where
  "stream k = written k @ replay_left k @ chan_queue k"

fun on_way :: "nat \<Rightarrow> publish \<Rightarrow> broker_event list" where
  "on_way c (Sending ev cs) = (if c \<in> set cs then [ev] else [])"
| "on_way c p = []"

definition in_flight :: "nat \<Rightarrow> hub \<Rightarrow> broker_event list" where
  "in_flight c h = concat (map (on_way c) (publishes h))"

text \<open>No send panics, and none to the connection finds its channel full.\<close>

definition lossless :: "nat \<Rightarrow> hub \<Rightarrow> hub_action \<Rightarrow> bool" where
  "lossless c h a = (case a of
     Send i \<Rightarrow> (case publishes h ! i of
         Sending ev (d # cs) \<Rightarrow> (case conns h d of
             Some k \<Rightarrow> conn_phase k \<noteq> Closed \<and> (d = c \<longrightarrow> length (chan_queue k) < chan_cap)
           | None \<Rightarrow> True)
       | _ \<Rightarrow> True)
   | _ \<Rightarrow> True)"

text \<open>Calls of \<open>Publish\<close> do not overlap.\<close>

fun is_sending :: "publish \<Rightarrow> bool" where
  "is_sending (Sending ev cs) = True"
| "is_sending p = False"

definition serial :: "hub \<Rightarrow> hub_action \<Rightarrow> bool" where
  "serial h a = (case a of Publish ev order \<Rightarrow> \<not> list_ex is_sending (publishes h) | _ \<Rightarrow> True)"

lemma on_way_idle: "\<not> is_sending p \<Longrightarrow> on_way c p = []"
  by (cases p) simp_all

lemma update_split:
  "i < length ps \<Longrightarrow> ps ! i = p \<Longrightarrow> \<exists>xs ys. ps = xs @ p # ys \<and> (\<forall>q. ps[i := q] = xs @ q # ys)"
  by (metis id_take_nth_drop upd_conv_take_nth_drop)

text \<open>One step of a connection that is serving afterwards: the stream and what is on the way gain
  what is published; in the multiset sense always, as lists when publications do not overlap.\<close>

definition sending_count :: "hub \<Rightarrow> nat" where
  "sending_count h = length (filter is_sending (publishes h))"

lemma sending_count_idle: "sending_count h = 0 \<Longrightarrow> in_flight c h = []"
  by (auto simp: sending_count_def in_flight_def filter_empty_conv on_way_idle)

lemma sending_unique:
  assumes "publishes h = xs @ Sending ev cs # ys" and "sending_count h \<le> 1"
  shows "concat (map (on_way c) xs) = []" "concat (map (on_way c) ys) = []"
  using assms by (auto simp: sending_count_def filter_empty_conv on_way_idle)

lemma sending_count_step:
  assumes "hub_step h a h'" and "serial h a" and "sending_count h \<le> 1"
  shows "sending_count h' \<le> 1"
  using assms(1)
proof (cases rule: hub_step.cases)
  case (publish order ev)
  with assms(2) show ?thesis
    by (simp add: serial_def sending_count_def list_ex_iff filter_empty_conv)
next
  case (send i ev c cs k)
  with update_split [OF send(3,4)] assms(3) show ?thesis by (auto simp: sending_count_def)
next
  case (send_panics i ev c cs k)
  with update_split [OF send_panics(3,4)] assms(3) show ?thesis by (auto simp: sending_count_def)
next
  case (returns i ev)
  with update_split [OF returns(3,4)] assms(3) show ?thesis by (auto simp: sending_count_def)
qed (use assms(3) in \<open>auto simp: sending_count_def\<close>)

lemma deliver_step:
  assumes st: "hub_step h a h'" and ok: "hub_ok h" and ll: "lossless c h a"
    and k': "conns h' c = Some k'" "conn_phase k' = Serving" and old: "conns h c \<noteq> None"
  obtains k where "conns h c = Some k" "conn_phase k = Serving"
    and "mset (stream k' @ in_flight c h') = mset (stream k @ in_flight c h @ published [a])"
    and "sending_count h \<le> 1 \<Longrightarrow> serial h a \<Longrightarrow>
      stream k' @ in_flight c h' = stream k @ in_flight c h @ published [a]"
  using st
proof (cases rule: hub_step.cases)
  case (publish order ev)
  with ok k' have "c \<in> set order" by (auto simp: hub_ok_def)
  with publish k' show ?thesis
    by (intro that [of k']) (auto simp: in_flight_def)
next
  case (send i ev d cs k)
  obtain xs ys where ps: "publishes h = xs @ Sending ev (d # cs) # ys"
      "\<forall>q. (publishes h)[i := q] = xs @ q # ys"
    using update_split [OF send(3,4)] by blast
  from ps(1) ok have dist: "d \<notin> set cs" by (auto simp: hub_ok_def snapshot_ok_def)
  show ?thesis
  proof (cases "d = c")
    case True
    with send k' ll have "length (chan_queue k) < chan_cap" "k' = k\<lparr>chan_queue := chan_queue k @ [ev]\<rparr>"
      by (auto simp: lossless_def try_send_def)
    with True send k' ps dist show ?thesis
      by (intro that [of k]) (auto simp: in_flight_def stream_def sending_unique [OF ps(1)])
  next
    case False
    with send k' ps show ?thesis by (intro that [of k']) (auto simp: in_flight_def)
  qed
next
  case (send_panics i ev d cs k)
  with ll show ?thesis by (simp add: lossless_def)
next
  case (returns i ev)
  with update_split [OF returns(3,4)] k' show ?thesis
    by (intro that [of k']) (auto simp: in_flight_def)
next
  case (subscribe d after)
  with old k' show ?thesis by (intro that [of k']) (auto simp: in_flight_def split: if_splits)
next
  case (write_replay d k ev evs)
  with k' show ?thesis
    by (intro that [of "if d = c then k else k'"]) (auto simp: in_flight_def stream_def split: if_splits)
next
  case (write_live d k ev evs)
  with k' show ?thesis
    by (intro that [of "if d = c then k else k'"]) (auto simp: in_flight_def stream_def split: if_splits)
qed (use k' in \<open>intro that [of k'], auto simp: in_flight_def split: if_splits\<close>)

lemma subscribe_step:
  assumes "hub_step h (Subscribe c after) h'" and "hub_ok h"
  shows "conns h' c = Some \<lparr>chan_queue = [], replay_left = subscribe_replay after (hub_broker h),
      written = [], conn_phase = Serving\<rparr>" and "in_flight c h' = []"
proof -
  from assms(1) have free: "conns h c = None" by (cases rule: hub_step.cases)
  from assms(1) show "conns h' c = Some \<lparr>chan_queue = [], replay_left = subscribe_replay after (hub_broker h),
      written = [], conn_phase = Serving\<rparr>"
    by (cases rule: hub_step.cases) simp
  have "on_way c p = []" if "p \<in> set (publishes h)" for p
    by (cases p; use that free assms(2) in \<open>force simp: hub_ok_def snapshot_ok_def\<close>)
  with assms(1) show "in_flight c h' = []"
    by (cases rule: hub_step.cases) (simp add: in_flight_def)
qed

text \<open>The run of a connection from its subscription on.\<close>

lemma run_hub_ok_from: "runs P h0 as h \<Longrightarrow> hub_ok h0 \<Longrightarrow> hub_ok h"
  by (induction rule: runs_induct) (auto intro: hub_ok_step)

lemma run_sending_count:
  "runs P h0 as h \<Longrightarrow> (\<And>h a. P h a \<Longrightarrow> serial h a) \<Longrightarrow> sending_count h0 \<le> 1 \<Longrightarrow> sending_count h \<le> 1"
  by (induction rule: runs_induct) (blast intro: sending_count_step)+

lemma run_conns: "runs P h0 as h \<Longrightarrow> conns h0 c \<noteq> None \<Longrightarrow> conns h c \<noteq> None"
  by (induction rule: runs_induct) (auto dest: conns_step)

lemma run_delivers:
  assumes "runs (lossless c) h0 as h" and "hub_ok h0" and "conns h0 c = Some k0"
    and "conns h c = Some k" and "conn_phase k = Serving"
  shows "mset (stream k @ in_flight c h) = mset (stream k0 @ in_flight c h0 @ published as)"
  using assms(1,4,5)
proof (induction arbitrary: k rule: runs_induct)
  case Nil
  with assms(3) show ?case by simp
next
  case (snoc as h a h')
  have "hub_ok h" "conns h c \<noteq> None"
    using snoc.hyps(1) assms(2,3) by (auto intro: run_hub_ok_from dest: run_conns)
  then obtain k1 where k1: "conns h c = Some k1" "conn_phase k1 = Serving"
    "mset (stream k @ in_flight c h') = mset (stream k1 @ in_flight c h @ published [a])"
    using deliver_step [OF snoc.hyps(2) _ snoc.hyps(3) snoc.prems] by blast
  from snoc.IH [OF k1(1,2)] k1(3) show ?case by simp
qed

lemma run_delivers_in_order:
  assumes "runs (\<lambda>h a. lossless c h a \<and> serial h a) h0 as h" and "hub_ok h0"
    and "conns h0 c = Some k0" and "sending_count h0 \<le> 1"
    and "conns h c = Some k" and "conn_phase k = Serving"
  shows "stream k @ in_flight c h = stream k0 @ in_flight c h0 @ published as"
  using assms(1,5,6)
proof (induction arbitrary: k rule: runs_induct)
  case Nil
  with assms(3) show ?case by simp
next
  case (snoc as h a h')
  have "hub_ok h" "conns h c \<noteq> None"
    using snoc.hyps(1) assms(2,3) by (auto intro: run_hub_ok_from dest: run_conns)
  moreover have "sending_count h \<le> 1"
    by (rule run_sending_count [OF snoc.hyps(1) _ assms(4)]) simp
  moreover have "lossless c h a" "serial h a" using snoc.hyps(3) by auto
  ultimately obtain k1 where k1: "conns h c = Some k1" "conn_phase k1 = Serving"
    "stream k @ in_flight c h' = stream k1 @ in_flight c h @ published [a]"
    using deliver_step [OF snoc.hyps(2) _ _ snoc.prems] by blast
  from snoc.IH [OF k1(1,2)] k1(3) show ?case by simp
qed

subsection \<open>The steps as a function\<close>

definition at_conn :: "hub \<Rightarrow> nat \<Rightarrow> (conn \<Rightarrow> hub option) \<Rightarrow> hub option" where
  "at_conn h c f = (case conns h c of None \<Rightarrow> None | Some k \<Rightarrow> f k)"

definition move :: "phase \<Rightarrow> phase \<Rightarrow> nat \<Rightarrow> hub \<Rightarrow> hub option" where
  "move p q c h = at_conn h c (\<lambda>k. if conn_phase k = p then Some (set_conn c (k\<lparr>conn_phase := q\<rparr>) h) else None)"

fun hub_exec :: "hub_action \<Rightarrow> hub \<Rightarrow> hub option" where
  "hub_exec (Publish ev order) h =
     (if distinct order \<and> set order = subscribers (hub_broker h)
      then Some (h\<lparr>hub_broker := publish_ring ev (hub_broker h),
                   publishes := publishes h @ [Sending ev order]\<rparr>)
      else None)"
| "hub_exec (Send i) h =
     (if i < length (publishes h)
      then (case publishes h ! i of
              Sending ev (c # cs) \<Rightarrow> at_conn h c (\<lambda>k. Some
                (if conn_phase k = Closed then h\<lparr>publishes := (publishes h)[i := Panicked]\<rparr>
                 else set_conn c (try_send ev k) (h\<lparr>publishes := (publishes h)[i := Sending ev cs]\<rparr>)))
            | _ \<Rightarrow> None)
      else None)"
| "hub_exec (Finish i) h =
     (if i < length (publishes h)
      then (case publishes h ! i of
              Sending ev [] \<Rightarrow> Some (h\<lparr>publishes := (publishes h)[i := Returned]\<rparr>)
            | _ \<Rightarrow> None)
      else None)"
| "hub_exec (Subscribe c after) h =
     (if conns h c = None
      then Some (set_conn c \<lparr>chan_queue = [], replay_left = subscribe_replay after (hub_broker h),
                   written = [], conn_phase = Serving\<rparr>
        (h\<lparr>hub_broker := (hub_broker h)\<lparr>subscribers := insert c (subscribers (hub_broker h))\<rparr>\<rparr>))
      else None)"
| "hub_exec (WriteReplay c) h = at_conn h c (\<lambda>k.
     if conn_phase k \<noteq> Serving then None
     else (case replay_left k of [] \<Rightarrow> None
           | ev # evs \<Rightarrow> Some (set_conn c (k\<lparr>replay_left := evs, written := written k @ [ev]\<rparr>) h)))"
| "hub_exec (WriteLive c) h = at_conn h c (\<lambda>k.
     if conn_phase k \<noteq> Serving \<or> replay_left k \<noteq> [] then None
     else (case chan_queue k of [] \<Rightarrow> None
           | ev # evs \<Rightarrow> Some (set_conn c (k\<lparr>chan_queue := evs, written := written k @ [ev]\<rparr>) h)))"
| "hub_exec (Leave c) h = move Serving Leaving c h"
| "hub_exec (UnsubDelete c) h = map_option
     (\<lambda>h. h\<lparr>hub_broker := (hub_broker h)\<lparr>subscribers := subscribers (hub_broker h) - {c}\<rparr>\<rparr>)
     (move Leaving Deleted c h)"
| "hub_exec (UnsubClose c) h = move Deleted Closed c h"

lemmas hub_exec_defs = at_conn_def move_def

lemma hub_exec_sound: "hub_exec a h = Some h' \<Longrightarrow> hub_step h a h'"
proof (cases a)
  case (UnsubDelete c)
  assume "hub_exec a h = Some h'"
  with UnsubDelete obtain k where k: "conns h c = Some k" "conn_phase k = Leaving"
    and h': "h' = set_conn c (k\<lparr>conn_phase := Deleted\<rparr>)
        (h\<lparr>hub_broker := (hub_broker h)\<lparr>subscribers := subscribers (hub_broker h) - {c}\<rparr>\<rparr>)"
    by (auto simp: hub_exec_defs set_conn_def split: option.splits if_splits)
  from unsub_delete [OF k] show ?thesis by (simp add: UnsubDelete h')
qed (auto simp: hub_exec_defs intro: hub_step.intros
      split: option.splits if_splits publish.splits list.splits)

lemma hub_exec_complete: "hub_step h a h' \<Longrightarrow> hub_exec a h = Some h'"
  by (induction rule: hub_step.induct) (simp_all add: hub_exec_defs set_conn_def)

lemma hub_step_iff_exec: "hub_step h a h' \<longleftrightarrow> hub_exec a h = Some h'"
  using hub_exec_sound hub_exec_complete by blast

fun hub_run :: "(hub \<Rightarrow> hub_action \<Rightarrow> bool) \<Rightarrow> hub \<Rightarrow> hub_action list \<Rightarrow> hub option" where
  "hub_run P h [] = Some h"
| "hub_run P h (a # as) =
     (if P h a then (case hub_exec a h of None \<Rightarrow> None | Some h' \<Rightarrow> hub_run P h' as) else None)"

lemma runs_trans: "runs P h1 bs h2 \<Longrightarrow> runs P h0 as h1 \<Longrightarrow> runs P h0 (as @ bs) h2"
proof (induction rule: runs_induct)
  case (snoc bs h a h')
  then show ?case using runs_snoc [of P h0 "as @ bs" h a h'] by simp
qed simp

lemma hub_run_sound: "hub_run P h as = Some h' \<Longrightarrow> runs P h as h'"
proof (induction P h as rule: hub_run.induct)
  case (2 P h a as)
  then obtain h1 where h1: "P h a" "hub_exec a h = Some h1" "hub_run P h1 as = Some h'"
    by (auto split: if_splits option.splits)
  have "runs P h ([] @ [a]) h1"
    by (rule runs_snoc [OF runs_Nil]) (simp_all add: h1 hub_step_iff_exec)
  with 2(1) [OF h1(1,2,3)] runs_trans [of P h1 as h' h "[a]"] show ?case by simp
qed (simp add: runs_Nil)

end
