(* ===== verification/Sse.thy ===== *)
theory Sse
  imports Events
begin

section \<open>The live stream\<close>

text \<open>
  \<^verbatim>\<open>web/src/lib/sse.ts\<close>: the address of the stream and the callbacks a subscription makes. What the
  event source library reports (opened, message, closed, failed) is the input; \<open>JSON.parse\<close> and the
  serialisation of \<open>URLSearchParams\<close> are parameters. \<open>META\<close> is the table of
  \<^verbatim>\<open>web/src/components/connection-status.tsx\<close>.
\<close>

datatype connection_state = Connecting | Live | Disconnected

record stream_options =
  opt_sourceKey :: "jsstring option"
  opt_threadId :: "jsstring option"
  opt_since :: "jsstring option"

definition param :: "string \<Rightarrow> jsstring option \<Rightarrow> (jsstring \<times> jsstring) list" where
  "param k v = (case v of None \<Rightarrow> [] | Some s \<Rightarrow> if s \<noteq> [] then [(jstr k, s)] else [])"

definition stream_params :: "stream_options \<Rightarrow> (jsstring \<times> jsstring) list" where
  "stream_params q = param ''source_key'' (opt_sourceKey q) @ param ''thread_id'' (opt_threadId q)
     @ param ''since'' (opt_since q)"

definition buildStreamURL :: "((jsstring \<times> jsstring) list \<Rightarrow> jsstring) \<Rightarrow> stream_options \<Rightarrow> jsstring" where
  "buildStreamURL serialise q =
     jstr ''/api/v1/stream''
     @ (if length (stream_params q) > 0 then jstr ''?'' @ serialise (stream_params q) else [])"

datatype wire = WOpen | WMessage jsstring | WClose | WError

datatype callback = StatusChange connection_state | DeliverEvent event_record | ParseFailed

text \<open>What \<open>onopen\<close>, \<open>onmessage\<close>, \<open>onclose\<close> and \<open>onerror\<close> call. \<open>raises\<close> says for which events the
  caller's handler throws; the exception is caught with those of the parser.\<close>

fun on_wire :: "(jsstring \<Rightarrow> event_record option) \<Rightarrow> (event_record \<Rightarrow> bool) \<Rightarrow> wire \<Rightarrow> callback list" where
  "on_wire parse raises WOpen = [StatusChange Live]"
| "on_wire parse raises (WMessage d) =
     (if d = [] then []
      else (case parse d of
              None \<Rightarrow> [ParseFailed]
            | Some e \<Rightarrow> if raises e then [DeliverEvent e, ParseFailed] else [DeliverEvent e]))"
| "on_wire parse raises WClose = [StatusChange Disconnected]"
| "on_wire parse raises WError = [StatusChange Disconnected]"

text \<open>The callbacks of a subscription that is aborted after the given inputs.\<close>

definition subscribeEvents ::
    "(jsstring \<Rightarrow> event_record option) \<Rightarrow> (event_record \<Rightarrow> bool) \<Rightarrow> wire list \<Rightarrow> callback list" where
  "subscribeEvents parse raises ws =
     StatusChange Connecting # concat (map (on_wire parse raises) ws) @ [StatusChange Disconnected]"

definition META :: "connection_state \<Rightarrow> jsstring \<times> string" where
  "META c = (case c of
     Connecting \<Rightarrow> (jstr ''Connecting'' @ [0x2026], ''secondary'')
   | Live \<Rightarrow> (jstr ''Live'', ''default'')
   | Disconnected \<Rightarrow> (jstr ''Disconnected'', ''destructive''))"

fun delivered :: "callback list \<Rightarrow> event_record list" where
  "delivered [] = []"
| "delivered (DeliverEvent e # cs) = e # delivered cs"
| "delivered (c # cs) = delivered cs"

fun messages_of :: "wire list \<Rightarrow> jsstring list" where
  "messages_of [] = []"
| "messages_of (WMessage d # ws) = (if d = [] then messages_of ws else d # messages_of ws)"
| "messages_of (w # ws) = messages_of ws"

lemma delivered_append: "delivered (xs @ ys) = delivered xs @ delivered ys"
  by (induction xs rule: delivered.induct) simp_all

lemma delivered_wire:
  "delivered (concat (map (on_wire parse raises) ws)) = List.map_filter parse (messages_of ws)"
  by (induction ws rule: messages_of.induct)
    (auto simp: delivered_append map_filter_Cons List.map_filter_def split: option.splits)

text \<open>The stream hands over every event once and in order: the events given to the caller are
  exactly the parsed messages that are not empty, also when the handler throws, when a message
  cannot be parsed and across reconnections, and the last status reported is the disconnection.\<close>

theorem stream_delivers_in_order:
  "delivered (subscribeEvents parse raises ws) = List.map_filter parse (messages_of ws)
   \<and> last (subscribeEvents parse raises ws) = StatusChange Disconnected"
  by (simp add: subscribeEvents_def delivered_append delivered_wire)

end
