(* ===== verification/Hub_Live.thy ===== *)
theory Hub_Live
  imports Hub_Broker Hub_Paging Sse
begin

section \<open>From the ingestion of an event to the stream\<close>

text \<open>
  \<open>eventsHandler\<close> of \<^verbatim>\<open>internal/hub/http/ingest.go\<close>: an event is stored and then published, and
  \<open>writeSSE\<close> of \<^verbatim>\<open>internal/hub/http/sse.go\<close> writes it to every stream. The browser gets an event
  twice, from the stream and from the history; the properties relate the two records, and say what
  a stream that is resumed after an event delivers. \<open>time.Parse\<close>, \<open>time.Format\<close> and \<open>json.Marshal\<close>
  are parameters.
\<close>

record ingest_event =
  in_event_id :: jsstring
  in_proxy_instance_id :: jsstring
  in_client_source_key :: jsstring
  in_session_id :: jsstring
  in_turn_id :: jsstring
  in_request_id :: jsstring
  in_direction :: jsstring
  in_category :: jsstring
  in_event_type :: jsstring
  in_command_call_id :: jsstring
  in_tool_call_id :: jsstring
  in_timestamp :: jsstring
  in_payload :: js

definition parseTimestampMs :: "(jsstring \<Rightarrow> 64 word option) \<Rightarrow> jsstring \<Rightarrow> 64 word" where
  "parseTimestampMs parse ts = (if ts = [] then 0 else opt_default (parse ts) 0)"

text \<open>\<open>unixMillisToISO\<close>.\<close>

definition unixMillisToISO :: "(64 word \<Rightarrow> jsstring) \<Rightarrow> 64 word \<Rightarrow> jsstring" where
  "unixMillisToISO fmt ms = (if ms = 0 then [] else fmt ms)"

definition ingest_record :: "(jsstring \<Rightarrow> 64 word option) \<Rightarrow> 64 word \<Rightarrow> ingest_event \<Rightarrow> stored_event" where
  "ingest_record parse now body =
     (let t = parseTimestampMs parse (in_timestamp body) in
      \<lparr>ev_event_id = in_event_id body, ev_proxy_instance_id = in_proxy_instance_id body,
       ev_client_source_key = in_client_source_key body, ev_session_id = in_session_id body,
       ev_turn_id = in_turn_id body, ev_request_id = in_request_id body,
       ev_direction = in_direction body, ev_event_type = in_event_type body,
       ev_category = in_category body, ev_command_call_id = in_command_call_id body,
       ev_tool_call_id = in_tool_call_id body, ev_occurred_at = (if t = 0 then now else t),
       ev_raw_json = in_payload body\<rparr>)"

definition broker_event_of :: "(64 word \<Rightarrow> jsstring) \<Rightarrow> ingest_event \<Rightarrow> stored_event \<Rightarrow> broker_event" where
  "broker_event_of fmt body r =
     \<lparr>be_event_id = ev_event_id r, be_proxy_instance_id = ev_proxy_instance_id r,
      be_client_source_key = ev_client_source_key r, be_session_id = ev_session_id r,
      be_turn_id = ev_turn_id r, be_request_id = ev_request_id r, be_direction = ev_direction r,
      be_category = in_category body, be_event_type = ev_event_type r,
      be_command_call_id = in_command_call_id body, be_tool_call_id = in_tool_call_id body,
      be_timestamp = unixMillisToISO fmt (ev_occurred_at r), be_payload = ev_raw_json r\<rparr>"

text \<open>The handler: \<open>Inl\<close> is the response 500 of a failed insertion, \<open>Inr\<close> the event to publish.
  The sessions and calls it also derives are in \<open>Hub_Sessions\<close>.\<close>

definition eventsHandler ::
    "(jsstring \<Rightarrow> 64 word option) \<Rightarrow> (64 word \<Rightarrow> jsstring) \<Rightarrow> jsstring \<Rightarrow> 64 word \<Rightarrow> ingest_event
     \<Rightarrow> event_row list \<Rightarrow> (jsstring + broker_event) \<times> event_row list" where
  "eventsHandler parse fmt hex now body rows =
     (let r = ingest_record parse now body in
      case AppendEventReturningID hex now r rows of
        (Inl err, rows') \<Rightarrow> (Inl (jstr ''store error: '' @ err), rows')
      | (Inr eid, rows') \<Rightarrow> (Inr (broker_event_of fmt body (r\<lparr>ev_event_id := eid\<rparr>)), rows'))"

text \<open>The record the browser parses from the data of a frame: \<open>omitempty\<close> leaves empty properties out
  (an absent \<open>source_key\<close> is the empty string here; the dashboard does not read it from an event).\<close>

definition wire_event :: "broker_event \<Rightarrow> event_record" where
  "wire_event b =
     \<lparr>event_id = be_event_id b, timestamp = be_timestamp b,
      proxy_instance_id = be_proxy_instance_id b, source_key = be_client_source_key b,
      thread_id = nullString (be_session_id b), turn_id = nullString (be_turn_id b),
      request_id = nullString (be_request_id b), direction = be_direction b,
      category = be_category b, event_type = nullString (be_event_type b),
      command_call_id = nullString (be_command_call_id b),
      tool_call_id = nullString (be_tool_call_id b), payload = be_payload b\<rparr>"

lemma event_id_wire [simp]: "event_id (wire_event b) = be_event_id b"
  by (simp add: wire_event_def)

text \<open>\<open>writeSSE\<close>: the lines of a frame, up to the empty line that ends it.\<close>

definition writeSSE :: "(broker_event \<Rightarrow> jsstring) \<Rightarrow> broker_event \<Rightarrow> jsstring" where
  "writeSSE marshal ev =
     jstr ''id: '' @ be_event_id ev @ [0x0A] @ jstr ''event: '' @ be_event_type ev @ [0x0A]
     @ jstr ''data: '' @ marshal ev @ [0x0A, 0x0A]"

text \<open>The lines of a text.\<close>

fun lines :: "jsstring \<Rightarrow> jsstring list" where
  "lines [] = [[]]"
| "lines (c # cs) = (if c = 0x0A then [] # lines cs
     else (case lines cs of [] \<Rightarrow> [[c]] | l # ls \<Rightarrow> (c # l) # ls))"

lemma lines_append: "0x0A \<notin> set l \<Longrightarrow> lines (l @ 0x0A # rest) = l # lines rest"
  by (induction l) auto

text \<open>A frame is its three fields as long as neither the identifier nor the type of the event holds a
  line feed (\<open>json.Marshal\<close> never writes one); a type that does adds fields of its own.\<close>

lemma frame_lines:
  assumes "0x0A \<notin> set (be_event_id ev)" and "0x0A \<notin> set (be_event_type ev)"
    and "0x0A \<notin> set (marshal ev)"
  shows "lines (writeSSE marshal ev) =
    [jstr ''id: '' @ be_event_id ev, jstr ''event: '' @ be_event_type ev, jstr ''data: '' @ marshal ev, [], []]"
proof -
  have "0x0A \<notin> set (jstr ''id: '' @ be_event_id ev)" "0x0A \<notin> set (jstr ''event: '' @ be_event_type ev)"
    "0x0A \<notin> set (jstr ''data: '' @ marshal ev)"
    using assms by (auto simp: jstr_def unit_of_char_def)
  note l = this [THEN lines_append]
  show ?thesis
    using l(1) [of "jstr ''event: '' @ be_event_type ev @ 0x0A # jstr ''data: '' @ marshal ev @ [0x0A, 0x0A]"]
      l(2) [of "jstr ''data: '' @ marshal ev @ [0x0A, 0x0A]"] l(3) [of "[0x0A]"]
    by (simp add: writeSSE_def)
qed

lemma frame_injection:
  "be_event_type ev = jstr ''a'' @ 0x0A # jstr ''data: x'' \<Longrightarrow> 0x0A \<notin> set (be_event_id ev) \<Longrightarrow>
   jstr ''data: x'' \<in> set (lines (writeSSE marshal ev))"
proof -
  assume ty: "be_event_type ev = jstr ''a'' @ 0x0A # jstr ''data: x''"
    and eid: "0x0A \<notin> set (be_event_id ev)"
  have "0x0A \<notin> set (jstr ''id: '' @ be_event_id ev)" "0x0A \<notin> set (jstr ''event: a'')"
    "0x0A \<notin> set (jstr ''data: x'')"
    using eid by (auto simp: jstr_def unit_of_char_def)
  note l = this [THEN lines_append]
  have "lines (writeSSE marshal ev) = (jstr ''id: '' @ be_event_id ev) # jstr ''event: a'' # jstr ''data: x''
      # lines (jstr ''data: '' @ marshal ev @ [0x0A, 0x0A])"
    using l(1) [of "jstr ''event: a'' @ 0x0A # jstr ''data: x'' @ 0x0A # jstr ''data: '' @ marshal ev @ [0x0A, 0x0A]"]
      l(2) [of "jstr ''data: x'' @ 0x0A # jstr ''data: '' @ marshal ev @ [0x0A, 0x0A]"]
      l(3) [of "jstr ''data: '' @ marshal ev @ [0x0A, 0x0A]"]
    by (simp add: writeSSE_def ty jstr_def)
  then show ?thesis by simp
qed

subsection \<open>The two records of an event\<close>

lemma opt_default_nullString [simp]: "opt_default (nullString s) [] = s"
  by (simp add: nullString_def)

lemma handler_row:
  assumes "eventsHandler parse fmt hex now body rows = (Inr b, rows')" and "now \<noteq> 0"
  obtains r where "rows' = rows @ [r]" "r_event_id r = be_event_id b"
    and "row_dto fmt r = (wire_event b)
      \<lparr>direction := (if in_direction body = [] then jstr ''codex_to_upstream'' else in_direction body),
       category := category (row_dto fmt r)\<rparr>"
    and "in_category body \<noteq> [] \<Longrightarrow> category (row_dto fmt r) = in_category body"
proof -
  let ?s = "ingest_record parse now body"
  let ?id = "if ev_event_id ?s = [] then newID ''evt'' hex else ev_event_id ?s"
  let ?r = "\<lparr>r_event_id = ?id, r_proxy_instance_id = ev_proxy_instance_id ?s,
             r_client_source_key = nullString (ev_client_source_key ?s),
             r_session_id = nullString (ev_session_id ?s), r_turn_id = nullString (ev_turn_id ?s),
             r_request_id = nullString (ev_request_id ?s),
             r_direction = (if ev_direction ?s = [] then jstr ''codex_to_upstream'' else ev_direction ?s),
             r_event_type = ev_event_type ?s, r_occurred_at = ev_occurred_at ?s,
             r_raw_json = ev_raw_json ?s, r_category = ev_category ?s,
             r_command_call_id = nullString (ev_command_call_id ?s),
             r_tool_call_id = nullString (ev_tool_call_id ?s)\<rparr>"
  have t: "ev_occurred_at ?s \<noteq> 0" using assms(2) by (simp add: ingest_record_def Let_def)
  from assms(1) t have b: "b = broker_event_of fmt body (?s\<lparr>ev_event_id := ?id\<rparr>)"
    and rows: "rows' = rows @ [?r]"
    by (auto simp: eventsHandler_def AppendEventReturningID_def Let_def split: if_splits)
  show ?thesis
  proof (rule that [of ?r])
    show "rows' = rows @ [?r]" by (rule rows)
  next
    show "r_event_id ?r = be_event_id b" by (simp add: b broker_event_of_def)
  next
    show "row_dto fmt ?r = (wire_event b)
      \<lparr>direction := (if in_direction body = [] then jstr ''codex_to_upstream'' else in_direction body),
       category := category (row_dto fmt ?r)\<rparr>"
      using t
      by (simp add: row_dto_def toEventDTO_def eventRecordFromEventRow_def b broker_event_of_def
          wire_event_def unixMillisToISO_def ingest_record_def Let_def)
  next
    show "in_category body \<noteq> [] \<Longrightarrow> category (row_dto fmt ?r) = in_category body"
      by (simp add: row_dto_def toEventDTO_def eventRecordFromEventRow_def ingest_record_def Let_def)
  qed
qed

subsection \<open>A sample hub\<close>

definition sample_broker_event :: "string \<Rightarrow> string \<Rightarrow> broker_event" where
  "sample_broker_event i th = \<lparr>be_event_id = jstr i, be_proxy_instance_id = jstr ''proxy-1'',
     be_client_source_key = jstr ''src'', be_session_id = jstr th, be_turn_id = [],
     be_request_id = [], be_direction = jstr ''codex_to_upstream'', be_category = jstr ''codex_event'',
     be_event_type = jstr ''agent_message'', be_command_call_id = [], be_tool_call_id = [],
     be_timestamp = jstr ''t1'', be_payload = JObj []\<rparr>"

lemma sample_broker_event_id [simp]: "be_event_id (sample_broker_event i th) = jstr i"
  by (simp add: sample_broker_event_def)

lemma sample_broker_event_inject [simp]:
  "sample_broker_event i th = sample_broker_event j th' \<longleftrightarrow> i = j \<and> th = th'"
  by (simp add: sample_broker_event_def)

lemmas hub_eval = new_hub_def NewBroker_def set_conn_def publish_ring_def hub_exec_defs Let_def
  serial_def lossless_def subscribe_replay_def try_send_def chan_cap_def

definition sample_ingest :: ingest_event where
  "sample_ingest = \<lparr>in_event_id = [], in_proxy_instance_id = jstr ''proxy-1'',
     in_client_source_key = jstr ''src'', in_session_id = jstr ''th'', in_turn_id = [],
     in_request_id = [], in_direction = jstr ''local'', in_category = jstr ''codex_event'',
     in_event_type = jstr ''agent_message'', in_command_call_id = [], in_tool_call_id = [],
     in_timestamp = [], in_payload = JObj []\<rparr>"

lemma subscribe_replay_at:
  assumes "ring b = front @ e # post" and "be_event_id e \<notin> be_event_id ` set front"
    and "be_event_id e \<noteq> []"
  shows "subscribe_replay (be_event_id e) b = post"
proof -
  have found: "replay_loop a True xs = xs" for a xs by (induction xs) simp_all
  have "replay_loop (be_event_id e) False (front @ e # post) = post"
    using assms(2) by (induction front) (auto simp: found)
  with assms(1,3) show ?thesis by (simp add: subscribe_replay_def)
qed

lemma tail_of_last:
  "length post < n \<Longrightarrow> \<exists>front. tail_of n (pre @ e # post) = front @ e # post \<and> set front \<subseteq> set pre"
proof -
  assume "length post < n"
  then have k: "length (pre @ e # post) - n \<le> length pre" by simp
  have "drop k (pre @ e # post) = drop k pre @ e # post" if "k \<le> length pre" for k
    using that by simp
  from this [OF k] show ?thesis unfolding tail_of_def using set_drop_subset by metis
qed

lemma resumed_stream:
  assumes "runs serial (new_hub cap) as h1" and "published as = pre @ e # post"
    and "length post < ring_size cap" and "distinct (map be_event_id (published as))"
    and "be_event_id e \<noteq> []" and "hub_step h1 (Subscribe c (be_event_id e)) h2"
    and "runs (\<lambda>h a. lossless c h a \<and> serial h a) h2 bs h3"
    and "conns h3 c = Some k" and "conn_phase k = Serving"
  shows "written k @ replay_left k @ chan_queue k @ in_flight c h3 = post @ published bs"
proof -
  have ok: "hub_ok h1" by (rule run_hub_ok [OF assms(1)])
  note sub = subscribe_step [OF assms(6) ok]
  obtain front where "ring (hub_broker h1) = front @ e # post" "set front \<subseteq> set pre"
    using run_ring [OF assms(1)] tail_of_last [OF assms(3), of pre e] assms(2) by auto
  moreover from this(2) have "be_event_id e \<notin> be_event_id ` set front" using assms(2,4) by auto
  ultimately have replay: "subscribe_replay (be_event_id e) (hub_broker h1) = post"
    using subscribe_replay_at assms(5) by blast
  have "sending_count h1 \<le> 1"
    by (rule run_sending_count [OF assms(1)]) (simp_all add: new_hub_def sending_count_def)
  then have "sending_count h2 \<le> 1"
    by (rule sending_count_step [OF assms(6), rotated]) (simp add: serial_def)
  from run_delivers_in_order [OF assms(7) hub_ok_step [OF assms(6) ok] sub(1) this assms(8,9)]
  show ?thesis by (simp add: stream_def sub(2) replay)
qed

definition sample_before :: "hub_action list" where
  "sample_before = [Publish (sample_broker_event ''e1'' ''th'') [], Finish 0,
     Publish (sample_broker_event ''e2'' ''th'') [], Finish 1]"

definition sample_after :: "hub_action list" where
  "sample_after = [Publish (sample_broker_event ''e3'' ''th'') [7], Send 2, WriteReplay 7, WriteLive 7]"

definition sample_hub :: "nat \<Rightarrow> hub" where
  "sample_hub n = the (hub_run anything (new_hub 4)
     (take n (sample_before @ [Subscribe 7 (jstr ''e1'')] @ sample_after)))"

lemmas sample_hub_eval = sample_hub_def sample_before_def sample_after_def hub_eval

lemma sample_hub_runs:
  "hub_run serial (new_hub 4) sample_before = Some (sample_hub 4)"
  "hub_exec (Subscribe 7 (jstr ''e1'')) (sample_hub 4) = Some (sample_hub 5)"
  "hub_run (\<lambda>h a. lossless 7 h a \<and> serial h a) (sample_hub 5) sample_after = Some (sample_hub 9)"
  "conns (sample_hub 9) 7 = Some \<lparr>chan_queue = [], replay_left = [],
     written = [sample_broker_event ''e2'' ''th'', sample_broker_event ''e3'' ''th''],
     conn_phase = Serving\<rparr>"
  by (simp_all add: sample_hub_eval)

lemma in_flight_sample: "in_flight 7 (sample_hub 9) = []"
  by (simp add: in_flight_def sample_hub_eval)

subsection \<open>Properties\<close>

text \<open>C33. The hub's memory is bounded however publishers, subscribers and writers interleave: the ring
  is exactly the tail of what was published, of at most the configured length, and no channel
  holds more than 32 events.\<close>

theorem hub_memory_bounded:
  assumes "runs anything (new_hub cap) as h"
  shows "ring (hub_broker h) = tail_of (ring_size cap) (published as)
    \<and> length (ring (hub_broker h)) \<le> ring_size cap
    \<and> (\<forall>c k. conns h c = Some k \<longrightarrow> length (chan_queue k) \<le> 32)"
  using run_ring [OF assms] run_conns_ok [OF assms] by (auto simp: conns_ok_def chan_cap_def)

lemma hub_memory_bounded_witness:
  "ring (hub_broker (the (hub_run anything (new_hub 1)
       [Subscribe 0 [], Publish (sample_broker_event ''e1'' ''th'') [0],
        Publish (sample_broker_event ''e2'' ''th'') [0], Send 1, Send 0])))
     = [sample_broker_event ''e2'' ''th'']"
proof -
  let ?as = "[Subscribe 0 [], Publish (sample_broker_event ''e1'' ''th'') [0],
        Publish (sample_broker_event ''e2'' ''th'') [0], Send 1, Send 0]"
  have h: "hub_run anything (new_hub 1) ?as = Some (the (hub_run anything (new_hub 1) ?as))"
    by (simp add: hub_eval)
  from hub_memory_bounded [OF hub_run_sound [OF h]] show ?thesis
    by (simp add: tail_of_def ring_size_def del: hub_run.simps)
qed

text \<open>C10. A stream that is resumed misses nothing: when a browser subscribes again after the last
  event it has seen and that event is still in the ring, what the connection has written, has
  queued and has on its way is exactly, in order and without repetition, what was published after
  that event, provided that publications do not overlap, the channel never overflows and no
  publisher meets a closed channel.\<close>

theorem stream_resumes_without_gap:
  assumes "runs serial (new_hub cap) as h1" and "published as = pre @ e # post"
    and "length post < ring_size cap" and "distinct (map be_event_id (published as))"
    and "be_event_id e \<noteq> []" and "hub_step h1 (Subscribe c (be_event_id e)) h2"
    and "runs (\<lambda>h a. lossless c h a \<and> serial h a) h2 bs h3"
    and "conns h3 c = Some k" and "conn_phase k = Serving"
  shows "written k @ replay_left k @ chan_queue k @ in_flight c h3 = post @ published bs"
  by (rule resumed_stream [OF assms])

lemma stream_resumes_without_gap_witness:
  "written (the (conns (sample_hub 9) 7)) @ in_flight 7 (sample_hub 9)
     = [sample_broker_event ''e2'' ''th'', sample_broker_event ''e3'' ''th'']"
proof -
  let ?k = "the (conns (sample_hub 9) 7)"
  have "written ?k @ replay_left ?k @ chan_queue ?k @ in_flight 7 (sample_hub 9)
      = [sample_broker_event ''e2'' ''th''] @ published sample_after"
    by (rule stream_resumes_without_gap [OF hub_run_sound [OF sample_hub_runs(1)],
        of "[]" "sample_broker_event ''e1'' ''th''" _ 7 "sample_hub 5"])
      (simp_all add: hub_run_sound sample_hub_runs hub_step_iff_exec ring_size_def sample_before_def
        del: hub_exec.simps hub_run.simps)
  then show ?thesis by (simp add: sample_hub_runs(4) sample_after_def)
qed

lemma handler_agrees:
  assumes "eventsHandler parse fmt hex now body rows = (Inr b, rows')" and "now \<noteq> 0"
    and "in_category body \<noteq> []" and "in_direction body \<noteq> []"
  shows "\<exists>r. rows' = rows @ [r] \<and> row_dto fmt r = wire_event b"
proof -
  obtain r where r: "rows' = rows @ [r]"
    "row_dto fmt r = (wire_event b)
      \<lparr>direction := (if in_direction body = [] then jstr ''codex_to_upstream'' else in_direction body),
       category := category (row_dto fmt r)\<rparr>"
    "in_category body \<noteq> [] \<Longrightarrow> category (row_dto fmt r) = in_category body"
    using handler_row [OF assms(1,2), of thesis] by blast
  from assms(1) have "be_category b = in_category body" "be_direction b = in_direction body"
    by (auto simp: eventsHandler_def broker_event_of_def ingest_record_def Let_def
        split: prod.splits sum.splits)
  with r(2,3) assms(3,4) have "row_dto fmt r = wire_event b" by (simp add: wire_event_def)
  with r(1) show ?thesis by blast
qed

text \<open>C20. The live record and the stored record of an event agree: an event that names its direction and
  its category is written to the streams as exactly the record that the history later returns for
  it, whatever identifier and time the hub fills in.\<close>

theorem live_and_history_agree:
  assumes "eventsHandler parse fmt hex now body rows = (Inr b, rows')" and "now \<noteq> 0"
    and "in_category body \<noteq> []" and "in_direction body \<noteq> []"
  shows "\<exists>r. rows' = rows @ [r] \<and> row_dto fmt r = wire_event b"
  by (rule handler_agrees [OF assms])

lemma live_and_history_agree_witness:
  "\<exists>r. snd (eventsHandler (\<lambda>_. None) (\<lambda>w. show_int (sint w)) (jstr ''0a'') 7 sample_ingest []) = [r]
     \<and> event_id (row_dto (\<lambda>w. show_int (sint w)) r) = jstr ''evt-0a''"
proof -
  let ?fmt = "\<lambda>w. show_int (sint w)" and ?run = "\<lambda>fmt. eventsHandler (\<lambda>_. None) fmt (jstr ''0a'') 7 sample_ingest []"
  obtain b rows' where run: "?run ?fmt = (Inr b, rows')" and b: "be_event_id b = jstr ''evt-0a''"
    by (auto simp: eventsHandler_def AppendEventReturningID_def ingest_record_def sample_ingest_def
        broker_event_of_def newID_def jstr_append [symmetric] Let_def)
  have "\<exists>r. rows' = [] @ [r] \<and> row_dto ?fmt r = wire_event b"
    by (rule live_and_history_agree [OF run]) (simp_all add: sample_ingest_def)
  then obtain r where "rows' = [r]" "row_dto ?fmt r = wire_event b" by auto
  from this(1) arg_cong [OF this(2), of event_id] have r: "rows' = [r]" "r_event_id r = be_event_id b"
    by simp_all
  with run b show ?thesis by simp
qed

text \<open>Publications that overlap can lose an event for good: there is a run in which no channel
  overflows and no publisher panics, yet a browser that resumes its stream after the last event it
  has received is never sent the event published before that one.\<close>

theorem overlapping_publications_lose_one:
  "\<exists>as h k k'. runs (\<lambda>h a. lossless 0 h a \<and> lossless 1 h a) (new_hub 4) as h
     \<and> published as = [sample_broker_event ''e1'' ''th'', sample_broker_event ''e2'' ''th'']
     \<and> conns h 0 = Some k \<and> written k = [sample_broker_event ''e2'' ''th''] \<and> conn_phase k = Leaving
     \<and> Subscribe 1 (be_event_id (last (written k))) \<in> set as
     \<and> conns h 1 = Some k' \<and> conn_phase k' = Serving \<and> stream k' @ in_flight 1 h = []"
proof -
  let ?as = "[Subscribe 0 [], Publish (sample_broker_event ''e1'' ''th'') [0],
    Publish (sample_broker_event ''e2'' ''th'') [0], Send 1, WriteLive 0, Leave 0,
    Subscribe 1 (jstr ''e2''), Send 0, Finish 0, Finish 1]"
  let ?h = "the (hub_run (\<lambda>h a. lossless 0 h a \<and> lossless 1 h a) (new_hub 4) ?as)"
  have run: "hub_run (\<lambda>h a. lossless 0 h a \<and> lossless 1 h a) (new_hub 4) ?as = Some ?h"
    and k0: "conns ?h 0 = Some \<lparr>chan_queue = [sample_broker_event ''e1'' ''th''], replay_left = [],
      written = [sample_broker_event ''e2'' ''th''], conn_phase = Leaving\<rparr>"
    and k1: "conns ?h 1 = Some \<lparr>chan_queue = [], replay_left = [], written = [], conn_phase = Serving\<rparr>"
    and fl: "in_flight 1 ?h = []"
    by (simp_all add: hub_eval in_flight_def)
  show ?thesis
    by (rule exI [of _ ?as], rule exI [of _ ?h])
      (use hub_run_sound [OF run] k0 k1 fl in \<open>simp add: stream_def del: hub_run.simps\<close>)
qed

text \<open>Closing one stream can lose an event for another: the deferred closure removes the channel
  under the mutex and closes it afterwards, so a publisher that took its snapshot before sends on
  a closed channel; its panic ends the call, and the channels it had not visited never get the
  event, although they are served and have room.\<close>

theorem closing_stream_loses_event:
  "\<exists>as h k. runs anything (new_hub 4) as h
     \<and> published as = [sample_broker_event ''e1'' ''th''] \<and> publishes h = [Panicked]
     \<and> conns h 1 = Some k \<and> conn_phase k = Serving \<and> stream k @ in_flight 1 h = []"
proof -
  let ?as = "[Subscribe 0 [], Subscribe 1 [], Publish (sample_broker_event ''e1'' ''th'') [0, 1],
    Leave 0, UnsubDelete 0, UnsubClose 0, Send 0]"
  let ?h = "the (hub_run anything (new_hub 4) ?as)"
  have run: "hub_run anything (new_hub 4) ?as = Some ?h" and "publishes ?h = [Panicked]"
    and "conns ?h 1 = Some \<lparr>chan_queue = [], replay_left = [], written = [], conn_phase = Serving\<rparr>"
    and "in_flight 1 ?h = []"
    by (simp_all add: hub_eval in_flight_def insert_commute)
  then show ?thesis
    by (intro exI [of _ ?as] exI [of _ ?h])
      (use hub_run_sound [OF run] in \<open>simp add: stream_def del: hub_run.simps\<close>)
qed

end
