(* ===== verification/View_Tree.thy ===== *)
theory View_Tree
  imports Events
begin

section \<open>What a component renders\<close>

text \<open>
  The elements the components of \<^verbatim>\<open>web/src/components\<close> return, as trees. An element has a name (an
  HTML tag or the name of a component that is not under \<^verbatim>\<open>web/src/components\<close> or is a styled
  wrapper of \<^verbatim>\<open>web/src/components/ui\<close>), attributes (\<open>key\<close> among them), what a click or a change
  on it does, and children. Of the class names only those that depend on the state are kept, as
  the attribute \<open>class\<close>. What the handlers do is the datatype \<open>ui_action\<close>, shared by all components.
\<close>

datatype ui_action =
    SelectThread jsstring
  | RetryQueries
  | RetryDetail
  | ToggleRow jsstring
  | EditTypeFilter
  | EditRequestFilter
  | EditTurnFilter
  | OpenTab jsstring
  | ResetBoundary

datatype node =
    El string "(string \<times> jsstring) list" "ui_action option" "node list"
  | Txt jsstring

abbreviation el :: "string \<Rightarrow> node list \<Rightarrow> node" where
  "el t cs \<equiv> El t [] None cs"

abbreviation lit :: "string \<Rightarrow> node" where
  "lit s \<equiv> Txt (jstr s)"

text \<open>\<open>cond && element\<close> among the children of an element.\<close>

definition cond :: "bool \<Rightarrow> node \<Rightarrow> node list" where
  "cond b n = (if b then [n] else [])"

text \<open>An attribute whose value may be \<open>undefined\<close>.\<close>

definition opt_attr :: "string \<Rightarrow> jsstring option \<Rightarrow> (string \<times> jsstring) list" where
  "opt_attr k v = (case v of None \<Rightarrow> [] | Some s \<Rightarrow> [(k, s)])"

definition bool_text :: "bool \<Rightarrow> jsstring" where
  "bool_text b = (if b then jstr ''true'' else jstr ''false'')"

text \<open>\<open>badge variant text\<close>: the component \<^verbatim>\<open>Badge\<close>.\<close>

definition badge :: "string \<Rightarrow> jsstring \<Rightarrow> node" where
  "badge var t = El ''Badge'' [(''variant'', jstr var)] None [Txt t]"

subsection \<open>Reading a tree\<close>

fun children :: "node \<Rightarrow> node list" where
  "children (El t as h cs) = cs"
| "children (Txt s) = []"

fun attr :: "string \<Rightarrow> node \<Rightarrow> jsstring option" where
  "attr k (El t as h cs) = map_of as k"
| "attr k (Txt s) = None"

text \<open>The node and everything below it, in document order.\<close>

fun nodes :: "node \<Rightarrow> node list" where
  "nodes (El t as h cs) = El t as h cs # concat (map nodes cs)"
| "nodes (Txt s) = [Txt s]"

fun text_content :: "node \<Rightarrow> jsstring" where
  "text_content (El t as h cs) = concat (map text_content cs)"
| "text_content (Txt s) = s"

fun handler :: "node \<Rightarrow> (ui_action \<times> node) option" where
  "handler (El t as h cs) = map_option (\<lambda>a. (a, El t as h cs)) h"
| "handler (Txt s) = None"

text \<open>The elements one can act on, with their actions.\<close>

definition handlers :: "node \<Rightarrow> (ui_action \<times> node) list" where
  "handlers n = List.map_filter handler (nodes n)"

definition handlers_in :: "node list \<Rightarrow> (ui_action \<times> node) list" where
  "handlers_in ns = concat (map handlers ns)"

lemma handlers_simps [simp]:
  "handlers (Txt s) = []"
  "handlers (El t as None cs) = handlers_in cs"
  "handlers (El t as (Some a) cs) = (a, El t as (Some a) cs) # handlers_in cs"
proof -
  have "List.map_filter handler (concat (map nodes cs)) = handlers_in cs" for cs
    by (induction cs) (simp_all add: handlers_in_def handlers_def List.map_filter_def)
  then show "handlers (El t as None cs) = handlers_in cs"
    "handlers (El t as (Some a) cs) = (a, El t as (Some a) cs) # handlers_in cs"
    by (simp_all add: handlers_def map_filter_Cons)
qed (simp add: handlers_def List.map_filter_def)

lemma handlers_in_simps [simp]:
  "handlers_in [] = []" "handlers_in (n # ns) = handlers n @ handlers_in ns"
  "handlers_in (ms @ ns) = handlers_in ms @ handlers_in ns"
  by (simp_all add: handlers_in_def)

lemma handlers_in_map: "handlers_in (map f xs) = concat (map (\<lambda>x. handlers (f x)) xs)"
  by (simp add: handlers_in_def comp_def)

lemma handlers_cond [simp]: "handlers_in (cond b n) = (if b then handlers n else [])"
  by (simp add: cond_def)

lemma handlers_badge [simp]: "handlers (badge v t) = []"
  by (simp add: badge_def)

text \<open>React keys are distinct among the keyed children of every element.\<close>

fun keys_distinct :: "node \<Rightarrow> bool" where
  "keys_distinct (El t as h cs) \<longleftrightarrow>
     distinct (List.map_filter (attr ''key'') cs) \<and> list_all keys_distinct cs"
| "keys_distinct (Txt s) \<longleftrightarrow> True"

lemma keys_distinct_badge [simp]: "keys_distinct (badge v t)"
  by (simp add: badge_def List.map_filter_def)

end
