(* ===== verification/Table_View.thy ===== *)
theory Table_View
  imports View_Tree Workbench_View Sse
begin

section \<open>The raw event table, the header and the metadata\<close>

text \<open>
  \<open>RawEventTable\<close> and \<open>ExpandedDetail\<close> of \<^verbatim>\<open>web/src/components/raw-event-table.tsx\<close>,
  \<open>HighlightedCode\<close> of \<^verbatim>\<open>message-block.tsx\<close>, \<^verbatim>\<open>session-header.tsx\<close>, \<^verbatim>\<open>metadata-panel.tsx\<close> and
  \<^verbatim>\<open>connection-status.tsx\<close>. The serialisers of the payload are parameters, as in
  \<open>Workbench_View\<close>; the Markdown component is an element with the text as its child.
\<close>

record renderers =
  lowercase :: "jsstring \<Rightarrow> jsstring"
  stringify :: "js \<Rightarrow> unit + jsstring option"
  stringify2 :: "js \<Rightarrow> unit + jsstring option"
  js_String :: "js \<Rightarrow> jsstring"

definition preview_max :: nat where
  "preview_max = 120"

definition preview_of :: "renderers \<Rightarrow> event_record \<Rightarrow> jsstring" where
  "preview_of R e = compactPayloadPreview (stringify R) (js_String R) (payload e) preview_max"

definition pretty_of :: "renderers \<Rightarrow> js \<Rightarrow> jsstring option" where
  "pretty_of R v = prettyPayload (stringify2 R) (js_String R) v"

text \<open>A string as a child; \<open>undefined\<close> renders nothing.\<close>

definition opt_text :: "jsstring option \<Rightarrow> node list" where
  "opt_text t = (case t of None \<Rightarrow> [] | Some s \<Rightarrow> [Txt s])"

text \<open>The fenced block a code is put into, with the template literal's \<open>undefined\<close>.\<close>

definition HighlightedCode :: "jsstring option \<Rightarrow> jsstring \<Rightarrow> node" where
  "HighlightedCode code language =
     el ''Markdown'' [Txt (jstr ''```'' @ language @ [0x0A] @ opt_default code (jstr ''undefined'')
       @ [0x0A] @ jstr ''```'')]"

definition ExpandedDetail :: "renderers \<Rightarrow> event_record \<Rightarrow> node" where
  "ExpandedDetail R e = el ''div''
     [el ''dl'' (map (\<lambda>(k, v). El ''div'' [(''key'', jstr k)] None
        [el ''dt'' [lit k], el ''dd'' [Txt v]]) (detail_rows e)),
      el ''div'' [HighlightedCode (pretty_of R (payload e)) (jstr ''json'')]]"

definition filter_input :: "string \<Rightarrow> string \<Rightarrow> jsstring \<Rightarrow> ui_action \<Rightarrow> node" where
  "filter_input caption label v a = el ''label'' [lit caption,
     El ''input'' [(''aria-label'', jstr label), (''value'', v)] (Some a) []]"

definition event_row_node :: "renderers \<Rightarrow> event_record \<Rightarrow> bool \<Rightarrow> node" where
  "event_row_node R e opened = El ''TableRow'' [(''aria-expanded'', bool_text opened)]
     (Some (ToggleRow (event_id e)))
     [el ''TableCell'' [El ''span'' ((if opened then [(''class'', jstr ''rotate-90'')] else [])
         @ [(''aria-hidden'', jstr ''true'')]) None [Txt [0x203A]]],
      el ''TableCell'' [Txt (timestamp e)],
      el ''TableCell'' [badge ''secondary'' (direction e)],
      el ''TableCell'' [Txt (opt_default (event_type e) (category e))],
      el ''TableCell'' [Txt (opt_default (request_id e) (jstr ''-''))],
      el ''TableCell'' [Txt (opt_default (turn_id e) (jstr ''-''))],
      el ''TableCell'' [Txt (preview_of R e)]]"

definition detail_row_node :: "renderers \<Rightarrow> event_record \<Rightarrow> node" where
  "detail_row_node R e = El ''TableRow'' [(''data-testid'', jstr ''raw-expand-'' @ event_id e)] None
     [El ''TableCell'' [(''colSpan'', jstr ''7'')] None [ExpandedDetail R e]]"

definition row_fragment :: "renderers \<Rightarrow> event_record \<times> bool \<Rightarrow> node" where
  "row_fragment R x = (case x of (e, opened) \<Rightarrow>
     El ''Fragment'' [(''key'', event_id e)] None
       ([event_row_node R e opened] @ cond opened (detail_row_node R e)))"

definition RawEventTable :: "renderers \<Rightarrow> table_state \<Rightarrow> event_record list \<Rightarrow> node" where
  "RawEventTable R st events = el ''div''
     [el ''div'' [filter_input ''Event type'' ''event type'' (typeFilter st) EditTypeFilter,
                 filter_input ''Request id'' ''request id'' (requestFilter st) EditRequestFilter,
                 filter_input ''Turn id'' ''turn id'' (turnFilter st) EditTurnFilter],
      el ''div'' [el ''Table''
        [el ''TableHeader'' [el ''TableRow'' (map (\<lambda>h. el ''TableHead'' (if h = [] then [] else [lit h]))
           [[], ''Time'', ''Direction'', ''Type'', ''Request'', ''Turn'', ''Payload''])],
         el ''TableBody'' (map (row_fragment R) (table_rows (lowercase R) st events))]]]"

text \<open>The reducer of the table: what a click and the three inputs do.\<close>

fun table_step :: "table_state \<Rightarrow> ui_action \<times> jsstring \<Rightarrow> table_state" where
  "table_step st (ToggleRow i, v) = toggle i st"
| "table_step st (EditTypeFilter, v) = st\<lparr>typeFilter := v\<rparr>"
| "table_step st (EditRequestFilter, v) = st\<lparr>requestFilter := v\<rparr>"
| "table_step st (EditTurnFilter, v) = st\<lparr>turnFilter := v\<rparr>"
| "table_step st (a, v) = st"

subsection \<open>Header, metadata, connection\<close>

definition SessionHeader :: "session option \<Rightarrow> client_source option \<Rightarrow> node" where
  "SessionHeader s c = (case (s, c) of
     (Some x, Some y) \<Rightarrow> el ''header''
       [el ''div''
          [El ''h1'' [(''title'', opt_default (s_title x) (s_thread_id x))] None [Txt (header_title x)],
           el ''p'' [Txt (client_name y @ jstr '' | pid '' @ show_int (pid y) @ jstr '' | '' @ s_thread_id x)]],
        el ''div''
          ((case model x of None \<Rightarrow> [] | Some m \<Rightarrow> cond (m \<noteq> []) (badge ''secondary'' m))
           @ (case s_status x of None \<Rightarrow> [] | Some m \<Rightarrow> cond (m \<noteq> []) (badge ''default'' m)))]
   | _ \<Rightarrow> el ''header''
       [el ''h1'' [lit ''Session detail''],
        el ''p'' [lit ''Select a session on the left to inspect its live MCP traffic.'']])"

definition Row :: "string \<Rightarrow> jsstring option \<Rightarrow> node" where
  "Row label v = el ''div'' [el ''span'' [lit label], el ''span'' [Txt (opt_default v [0x2014])]]"

definition MetadataPanel :: "session option \<Rightarrow> client_source option \<Rightarrow> node" where
  "MetadataPanel s c = (case (s, c) of
     (Some x, Some y) \<Rightarrow> el ''div''
       [el ''div'' [el ''h3'' [lit ''Session''],
          Row ''Thread id'' (Some (s_thread_id x)), Row ''Model'' (model x), Row ''CWD'' (s_cwd x),
          Row ''Approval policy'' (approval_policy x), Row ''Sandbox'' (sandbox x),
          Row ''First seen'' (Some (first_seen x)), Row ''Last seen'' (Some (last_seen x))],
        el ''div'' [el ''h3'' [lit ''Client source''],
          Row ''Client'' (Some (client_name y)), Row ''PID'' (Some (show_int (pid y))),
          Row ''Protocol'' (protocol_version y), Row ''Executable'' (executable y),
          Row ''CWD'' (cs_cwd y)]]
   | _ \<Rightarrow> el ''div'' [lit ''No session selected.''])"

definition ConnectionStatus :: "connection_state \<Rightarrow> node" where
  "ConnectionStatus state = (case META state of (label, var) \<Rightarrow>
     El ''Badge'' [(''variant'', jstr var), (''aria-live'', jstr ''polite''),
        (''aria-label'', jstr ''SSE stream '' @ label)] None
       [El ''span'' [(''class'', case state of Live \<Rightarrow> jstr ''animate-pulse bg-green-500''
          | Connecting \<Rightarrow> jstr ''bg-amber-500'' | Disconnected \<Rightarrow> jstr ''bg-red-500'')] None [],
        Txt label])"

subsection \<open>Facts about the table\<close>

lemma handlers_leaf [simp]:
  "handlers (HighlightedCode code l) = []" "handlers (ExpandedDetail R e) = []"
proof -
  have "handlers_in (map (\<lambda>(k, v). El ''div'' [(''key'', jstr k)] None [el ''dt'' [lit k], el ''dd'' [Txt v]]) ps) = []"
    for ps by (induction ps) auto
  then show "handlers (HighlightedCode code l) = []" "handlers (ExpandedDetail R e) = []"
    by (simp_all add: HighlightedCode_def ExpandedDetail_def)
qed

lemma handlers_row: "handlers (row_fragment R (e, opened)) = [(ToggleRow (event_id e), event_row_node R e opened)]"
  by (simp add: row_fragment_def event_row_node_def detail_row_node_def)

lemma handlers_table:
  "map fst (handlers (RawEventTable R st events)) =
     [EditTypeFilter, EditRequestFilter, EditTurnFilter]
     @ map (\<lambda>e. ToggleRow (event_id e)) (filtered_rows (lowercase R) st events)"
proof -
  have rows: "map fst (handlers_in (map (\<lambda>e. row_fragment R (e, P e)) es)) = map (\<lambda>e. ToggleRow (event_id e)) es"
    for P es by (induction es) (simp_all add: handlers_row)
  have head: "handlers_in (map (\<lambda>h. el ''TableHead'' (if h = [] then [] else [lit h])) hs) = []" for hs
    by (induction hs) simp_all
  show ?thesis
    by (simp add: RawEventTable_def filter_input_def rows head table_rows_def comp_def)
qed

text \<open>The rows one can click, with the element of each.\<close>

lemma handlers_table_rows:
  "handlers (RawEventTable R st events) =
     map (\<lambda>(a, cap, l, v). (a, El ''input'' [(''aria-label'', jstr l), (''value'', v)] (Some a) []))
       [(EditTypeFilter, ''Event type'', ''event type'', typeFilter st),
        (EditRequestFilter, ''Request id'', ''request id'', requestFilter st),
        (EditTurnFilter, ''Turn id'', ''turn id'', turnFilter st)]
     @ map (\<lambda>(e, opened). (ToggleRow (event_id e), event_row_node R e opened))
         (table_rows (lowercase R) st events)"
proof -
  have rows: "handlers_in (map (row_fragment R) xs)
      = map (\<lambda>(e, opened). (ToggleRow (event_id e), event_row_node R e opened)) xs" for xs
    by (induction xs) (auto simp: handlers_row)
  have head: "handlers_in (map (\<lambda>h. el ''TableHead'' (if h = [] then [] else [lit h])) hs) = []" for hs
    by (induction hs) simp_all
  show ?thesis by (simp add: RawEventTable_def filter_input_def rows head)
qed

text \<open>The length of a preview: at most 120 code units and the ellipsis.\<close>

lemma preview_bound: "length (preview_of R e) \<le> 121"
proof -
  have "length (truncate_text s 120) \<le> 121" for s using length_truncate [of s 120] by simp
  then show ?thesis
    unfolding preview_of_def compactPayloadPreview_def Let_def preview_max_def by blast
qed

lemma keys_map_filter:
  assumes "\<And>p q. g p = Some q \<Longrightarrow> fst q = fst p"
  shows "map fst (List.map_filter g ps) = map fst (filter (\<lambda>p. g p \<noteq> None) ps)"
  using assms by (induction ps) (simp_all add: map_filter_Cons List.map_filter_def split: option.split)

lemma keys_row: "keys_distinct (row_fragment R x)"
proof -
  have "distinct (map fst (detail_rows e))" for e
    unfolding detail_rows_def
  proof (subst keys_map_filter)
    fix p :: "string \<times> jsstring option" and q
    assume "(case p of (k, v) \<Rightarrow> case v of Some x \<Rightarrow> if length x > 0 then Some (k, x) else None
      | None \<Rightarrow> None) = Some q"
    then show "fst q = fst p" by (auto split: prod.splits option.splits if_splits)
  qed (rule distinct_map_filter, simp)
  then have d: "distinct (List.map_filter (attr ''key'')
      (map (\<lambda>(k, v). El ''div'' [(''key'', jstr k)] None [el ''dt'' [lit k], el ''dd'' [Txt v]]) (detail_rows e)))" for e
    by (simp add: List.map_filter_def comp_def case_prod_unfold distinct_map inj_on_def)
  have "list_all keys_distinct (map (\<lambda>(k, v). El ''div'' [(''key'', jstr k)] None
      [el ''dt'' [lit k], el ''dd'' [Txt v]]) ps)" for ps
    by (induction ps) (auto simp: List.map_filter_def)
  with d show ?thesis
    by (cases x)
      (auto simp: row_fragment_def event_row_node_def detail_row_node_def ExpandedDetail_def
        HighlightedCode_def List.map_filter_def cond_def)
qed

text \<open>The keys of the table are those of the events.\<close>

lemma keys_table:
  assumes "distinct (map event_id events)"
  shows "keys_distinct (RawEventTable R st events)"
proof -
  let ?rows = "table_rows (lowercase R) st events"
  have "List.map_filter (attr ''key'') (map (row_fragment R) xs) = map (\<lambda>x. event_id (fst x)) xs" for xs
    by (induction xs) (auto simp: row_fragment_def map_filter_Cons List.map_filter_def)
  moreover have "distinct (map (\<lambda>x. event_id (fst x)) ?rows)"
    using assms by (simp add: table_rows_def comp_def filtered_rows_def distinct_map_filter)
  moreover have "list_all keys_distinct (map (row_fragment R) ?rows)"
    by (simp add: list_all_iff keys_row)
  moreover have "List.map_filter (attr ''key'') (map (\<lambda>h. el ''TableHead'' (if h = [] then [] else [lit h])) hs) = []"
    and "list_all keys_distinct (map (\<lambda>h. el ''TableHead'' (if h = [] then [] else [lit h])) hs)" for hs
    by (induction hs) (simp_all add: List.map_filter_def)
  ultimately show ?thesis
    by (simp add: RawEventTable_def filter_input_def List.map_filter_def)
qed

end
