(* ===== verification/Conversation_View.thy ===== *)
theory Conversation_View
  imports Table_View Readonly_Runtime History_Hook
begin

section \<open>The conversation\<close>

text \<open>
  \<^verbatim>\<open>web/src/components/workbench/readonly-assistant-thread.tsx\<close>, \<open>MessageBlock\<close> and
  \<open>MarkdownBody\<close> of \<^verbatim>\<open>web/src/components/message-block.tsx\<close> and the component table of
  \<^verbatim>\<open>web/src/components/markdown/markdown-config.tsx\<close>. The Markdown renderer and the
  assistant-ui primitives are elements of their own; \<open>ThreadPrimitive.Messages\<close> renders the
  component it is given once for every message of the runtime, with that message's index and
  role. \<open>toLocaleString\<close> of a date and \<open>JSON.stringify\<close> of a part are parameters.
\<close>

subsection \<open>Markdown\<close>

text \<open>\<open><tag \{...props\} k=\{v\}>\<close>: attributes written after the spread override it.\<close>

definition spread_then :: "(string \<times> jsstring) list \<Rightarrow> (string \<times> jsstring) list \<Rightarrow> (string \<times> jsstring) list" where
  "spread_then props own = own @ filter (\<lambda>(k, v). k \<notin> fst ` set own) props"

text \<open>\<open>/\blanguage-/.test\<close>: a word boundary before the \<open>l\<close>.\<close>

definition word_unit :: "code_unit \<Rightarrow> bool" where
  "word_unit c \<longleftrightarrow> 0x30 \<le> c \<and> c \<le> 0x39 \<or> 0x41 \<le> c \<and> c \<le> 0x5A \<or> 0x61 \<le> c \<and> c \<le> 0x7A \<or> c = 0x5F"

definition CODE_BLOCK_CLASS :: "jsstring \<Rightarrow> bool" where
  "CODE_BLOCK_CLASS s \<longleftrightarrow>
     list_ex (\<lambda>i. take 9 (drop i s) = jstr ''language-'' \<and> (i = 0 \<or> \<not> word_unit (s ! (i - 1))))
       [0..<length s]"

text \<open>The class names of the elements that are passed through.\<close>

definition markdown_classes :: "(string \<times> string) list" where
  "markdown_classes =
     [(''p'', ''mb-3 last:mb-0 whitespace-pre-wrap break-words''),
      (''h1'', ''mb-2 mt-4 text-[17px] font-semibold tracking-tight first:mt-0''),
      (''h2'', ''mb-2 mt-4 text-[15px] font-semibold tracking-tight first:mt-0''),
      (''h3'', ''mb-1.5 mt-3 text-[13.5px] font-semibold uppercase tracking-[0.08em] text-foreground/80 first:mt-0''),
      (''ul'', ''mb-3 ml-5 list-disc space-y-1 marker:text-muted-foreground/60 last:mb-0''),
      (''ol'', ''mb-3 ml-5 list-decimal space-y-1 marker:font-mono marker:text-muted-foreground last:mb-0''),
      (''li'', ''pl-1''),
      (''blockquote'', ''mb-3 border-l-2 border-muted-foreground/30 pl-3 italic text-muted-foreground last:mb-0''),
      (''strong'', ''font-semibold text-foreground''),
      (''em'', ''italic''),
      (''pre'', ''mb-3 overflow-x-auto rounded-md border last:mb-0 [&>code]:block [&>code]:px-3 [&>code]:py-2.5 [&>code]:text-[12.5px] [&>code]:leading-[1.6]''),
      (''hr'', ''my-4 border-border''),
      (''thead'', ''border-b border-border''),
      (''th'', ''px-2 py-1.5 text-left font-medium''),
      (''td'', ''border-b border-border/50 px-2 py-1.5'')]"

text \<open>The component for a tag, from its properties (\<open>className\<close> and \<open>href\<close> among them) and children;
  \<open>None\<close> when the table has none and the tag is rendered as it is. \<open>cn\<close> merges class names.\<close>

definition MARKDOWN_COMPONENTS ::
    "(jsstring list \<Rightarrow> jsstring) \<Rightarrow> string \<Rightarrow> (string \<times> jsstring) list \<Rightarrow> node list \<Rightarrow> node option" where
  "MARKDOWN_COMPONENTS cn t props cs =
     (if t = ''a'' then Some (El ''a'' (spread_then (filter (\<lambda>(k, v). k \<noteq> ''href'') props)
           (opt_attr ''href'' (map_of props ''href'')
            @ [(''target'', jstr ''_blank''), (''rel'', jstr ''noreferrer''),
               (''className'', jstr ''text-foreground underline decoration-muted-foreground/50 underline-offset-[3px] hover:decoration-foreground'')]))
         None cs)
      else if t = ''code'' then
        (let className = map_of props ''className''; rest = filter (\<lambda>(k, v). k \<noteq> ''className'') props in
         if CODE_BLOCK_CLASS (opt_default className [])
         then Some (El ''code'' ((''className'', cn [jstr ''font-mono text-[12.5px] leading-[1.55]'', opt_default className []]) # rest) None cs)
         else Some (El ''code'' ((''className'', jstr ''rounded bg-muted px-1 py-0.5 font-mono text-[0.88em] text-foreground'') # rest) None cs))
      else if t = ''table'' then Some (El ''div'' [(''className'', jstr ''mb-3 overflow-x-auto last:mb-0'')] None
         [El ''table'' (spread_then props [(''className'', jstr ''w-full border-collapse text-[13px]'')]) None cs])
      else map_option (\<lambda>c. El t (spread_then props [(''className'', jstr c)]) None cs) (map_of markdown_classes t))"

definition StreamCaret :: node where
  "StreamCaret = El ''span'' [(''aria-hidden'', jstr ''true'')] None []"

definition MarkdownBody :: "jsstring \<Rightarrow> bool \<Rightarrow> node" where
  "MarkdownBody t streaming = el ''Fragment''
     ([el ''Markdown'' [Txt t]]
      @ cond streaming (El ''span'' [(''aria-hidden'', jstr ''true'')] None [StreamCaret]))"

subsection \<open>MessageBlock\<close>

datatype message_role = RoleUser | RoleAgent | RoleReasoning

record block_variant =
  sigil :: jsstring
  bv_label :: string
  container :: string
  bodySize :: string
  leading :: string
  muted :: bool

fun VARIANTS :: "message_role \<Rightarrow> block_variant" where
  "VARIANTS RoleUser = \<lparr>sigil = [0x25B8], bv_label = ''you'',
     container = ''border-l-2 border-l-foreground bg-foreground/[0.03]'', bodySize = ''text-[13.5px]'',
     leading = ''leading-[1.7]'', muted = False\<rparr>"
| "VARIANTS RoleAgent = \<lparr>sigil = [0x25C6], bv_label = ''agent'',
     container = ''border-l-2 border-l-foreground/70'', bodySize = ''text-[14.5px]'',
     leading = ''leading-[1.7]'', muted = False\<rparr>"
| "VARIANTS RoleReasoning = \<lparr>sigil = [0x25E6], bv_label = ''thinking'',
     container = ''border-l border-dashed border-l-muted-foreground/50'', bodySize = ''text-[13.5px]'',
     leading = ''leading-[1.65]'', muted = True\<rparr>"

fun sigil_class :: "message_role \<Rightarrow> string" where
  "sigil_class RoleUser = ''text-foreground''"
| "sigil_class RoleAgent = ''text-foreground/70''"
| "sigil_class RoleReasoning = ''text-muted-foreground/70''"

definition MessageBlock :: "message_role \<Rightarrow> jsstring \<Rightarrow> jsstring \<Rightarrow> bool \<Rightarrow> jsstring option \<Rightarrow> node" where
  "MessageBlock role text time streaming annotation =
     (let v = VARIANTS role in
      El ''article'' [(''class'', jstr (container v))] None
        [el ''header''
          [el ''div''
             ([El ''span'' [(''aria-hidden'', jstr ''true''), (''class'', jstr (sigil_class role))] None [Txt (sigil v)],
               el ''span'' [lit (bv_label v)]]
              @ (case annotation of None \<Rightarrow> []
                 | Some a \<Rightarrow> cond (a \<noteq> []) (el ''span'' [Txt [0xB7], lit '' '', Txt a]))
              @ cond streaming (el ''span'' [el ''span'' [], lit ''streaming''])),
           el ''time'' [Txt time]],
         El ''div'' [(''class'', jstr (bodySize v @ '' '' @ leading v @ '' '' @
             (if muted v then ''text-muted-foreground italic'' else ''text-foreground'')))] None
           [if role = RoleUser then el ''pre'' ([Txt text] @ cond streaming StreamCaret)
            else MarkdownBody text streaming]])"

subsection \<open>The thread\<close>

text \<open>What the page takes from libraries: the serialisers of the table, \<open>toLocaleString\<close> and
  \<open>JSON.stringify\<close> of the thread, and whether the tabs of Radix mount a content (given the current
  value, the content's and \<open>forceMount\<close>).\<close>

record thread_renderers = renderers +
  dateText :: "jsstring \<Rightarrow> jsstring option"
  partText :: "part \<Rightarrow> jsstring option"
  tabMounts :: "jsstring \<Rightarrow> jsstring \<Rightarrow> bool \<Rightarrow> bool"

definition formatCreatedAt :: "(jsstring \<Rightarrow> jsstring option) \<Rightarrow> jsstring \<Rightarrow> jsstring" where
  "formatCreatedAt date t = (if t = [] then [] else opt_default (date t) [])"

text \<open>A value as a child of an element: a function or \<open>undefined\<close> renders nothing.\<close>

fun js_child :: "js \<Rightarrow> node list" where
  "js_child (JStr s) = [Txt s]"
| "js_child v = []"

definition ReadonlyStructuredPart :: "('a thread_renderers_scheme) \<Rightarrow> part \<Rightarrow> node" where
  "ReadonlyStructuredPart R p = el ''div''
     [el ''div'' (js_child (partLabel p)), el ''pre'' (opt_text (partText R p))]"

fun ReadonlyMessagePart :: "('a thread_renderers_scheme) \<Rightarrow> role \<Rightarrow> part \<Rightarrow> node" where
  "ReadonlyMessagePart R User (TextPart t ph mc ids) = el ''pre'' [Txt t]"
| "ReadonlyMessagePart R Assistant (TextPart t ph mc ids) =
     (let named = (ph \<noteq> None \<and> ph \<noteq> Some []) in
      el ''div''
       (cond (named \<or> truthy mc) (el ''div''
          (cond named (badge ''outline'' (the ph))
           @ cond (hasMemoryCitationEntries mc) (badge ''secondary'' (memoryCitationLabel mc))))
        @ [el ''div'' [MarkdownBody t False]]
        @ cond (hasMemoryCitationEntries mc) (el ''details''
            [el ''summary'' [lit ''Memory citation''],
             el ''pre'' (opt_text (prettyPayload (stringify2 R) (js_String R) mc))])))"
| "ReadonlyMessagePart R r (ReasoningPart t v ids) =
     el ''details'' [el ''summary'' [lit ''Reasoning''], el ''div'' [MarkdownBody t False]]"
| "ReadonlyMessagePart R r p = ReadonlyStructuredPart R p"

fun role_text :: "role \<Rightarrow> jsstring" where
  "role_text User = jstr ''user''"
| "role_text Assistant = jstr ''assistant''"

fun with_key :: "jsstring \<Rightarrow> node \<Rightarrow> node" where
  "with_key k (El t as h cs) = El t ((''key'', k) # as) h cs"
| "with_key k (Txt s) = Txt s"

text \<open>\<open>ReadonlyMessage\<close>, for the index and the role of a runtime message; nothing when there is no
  projected message at the index.\<close>

definition ReadonlyMessage ::
    "('a thread_renderers_scheme) \<Rightarrow> message list \<Rightarrow> nat \<times> role \<Rightarrow> node list" where
  "ReadonlyMessage R projected x = (case x of (i, r) \<Rightarrow>
     if i < length projected
     then let m = projected ! i in
       [El ''MessagePrimitive.Root'' [(''data-role'', role_text r)] None
         [el ''div'' [el (if r = Assistant then ''Bot'' else ''User'') []],
          el ''div''
            [el ''div'' [el ''span'' [Txt (role_text (msg_role m))],
                        el ''span'' [Txt (formatCreatedAt (dateText R) (createdAt m))]],
             el ''div'' (map (\<lambda>p. with_key (partKey (js_String R) (msg_id m) p)
                (ReadonlyMessagePart R (msg_role m) p)) (parts m))]]]
     else [])"

definition thread_header_node :: "header \<Rightarrow> node" where
  "thread_header_node h = el ''header''
     [el ''div'' [el ''h2'' [Txt (hd_title h)], el ''p'' [Txt (subtitle h)]],
      el ''div'' (map (\<lambda>b. with_key b (badge ''secondary'' b)) (badges h))]"

text \<open>\<open>ReadonlyAssistantThread\<close>; \<open>rendered\<close> are the messages the runtime hands to the component of
  \<open>ThreadPrimitive.Messages\<close>.\<close>

definition ReadonlyAssistantThread ::
    "('a thread_renderers_scheme) \<Rightarrow> (nat \<times> role) list \<Rightarrow> thread option \<Rightarrow> history_status
     \<Rightarrow> jsstring option \<Rightarrow> node" where
  "ReadonlyAssistantThread R rendered t st err =
     (let projected = (case t of None \<Rightarrow> [] | Some th \<Rightarrow> messages th) in
      el ''ThreadPrimitive.Root''
       ((case t of None \<Rightarrow> [] | Some th \<Rightarrow> [thread_header_node (thread_header th)])
        @ [el ''ThreadPrimitive.Empty''
             [el ''div'' [if st = Loading then lit ''Loading conversation...''
                          else lit ''No conversation history yet.'']],
           el ''ThreadPrimitive.Viewport'' [el ''div''
             ((case err of None \<Rightarrow> [] | Some e \<Rightarrow>
                 [el ''div'' [el ''AlertCircle'' [], el ''span'' [Txt e]]])
              @ [el ''ThreadPrimitive.Messages'' (concat (map (ReadonlyMessage R projected) rendered))])]]))"

text \<open>What the runtime renders: the messages of its configuration, in order.\<close>

definition runtime_rendered :: "'d runtime_config \<Rightarrow> (nat \<times> role) list" where
  "runtime_rendered c = enumerate 0 (map tm_role (rc_messages c))"

subsection \<open>Facts about the tree\<close>

text \<open>The parts the tree shows, as its keyed elements.\<close>

definition part_nodes :: "('a thread_renderers_scheme) \<Rightarrow> message \<Rightarrow> node list" where
  "part_nodes R m = map (\<lambda>p. with_key (partKey (js_String R) (msg_id m) p)
     (ReadonlyMessagePart R (msg_role m) p)) (parts m)"

definition message_node :: "('a thread_renderers_scheme) \<Rightarrow> message \<Rightarrow> node" where
  "message_node R m = El ''MessagePrimitive.Root'' [(''data-role'', role_text (msg_role m))] None
     [el ''div'' [el (if msg_role m = Assistant then ''Bot'' else ''User'') []],
      el ''div''
        [el ''div'' [el ''span'' [Txt (role_text (msg_role m))],
                    el ''span'' [Txt (formatCreatedAt (dateText R) (createdAt m))]],
         el ''div'' (part_nodes R m)]]"

lemma rendered_messages:
  "concat (map (ReadonlyMessage R ms) (runtime_rendered (buildReadonlyRuntimeConfig date ms)))
     = map (message_node R) ms"
proof -
  have roles: "map tm_role (toThreadMessages date xs) = map msg_role xs" for xs :: "message list"
    by (simp add: toThreadMessages_def Let_def comp_def)
  have "concat (map (ReadonlyMessage R ms) (enumerate n (map msg_role xs))) = map (message_node R) xs"
    if "drop n ms = xs" for n xs
    using that
  proof (induction xs arbitrary: n)
    case (Cons x xs)
    then have "n < length ms" "ms ! n = x" "drop (Suc n) ms = xs"
      by (metis drop_eq_Nil list.distinct(1) not_le, metis nth_via_drop, metis drop_Suc list.sel(3) tl_drop)
    with Cons.IH [of "Suc n"] show ?case
      by (simp add: ReadonlyMessage_def message_node_def part_nodes_def Let_def)
  qed simp
  from this [of 0 ms] show ?thesis
    by (simp add: runtime_rendered_def buildReadonlyRuntimeConfig_def roles)
qed

end
