(* ===== verification/Sidebar_View.thy ===== *)
theory Sidebar_View
  imports View_Tree Thread_Selection Hash_Thread
begin

section \<open>The sidebar\<close>

text \<open>
  \<^verbatim>\<open>web/src/components/workbench/grouped-thread-sidebar.tsx\<close>, the component it replaced,
  \<^verbatim>\<open>web/src/components/client-source-tree.tsx\<close>, and \<open>SidebarPane\<close> of \<^verbatim>\<open>session-workbench.tsx\<close>.
\<close>

definition source_label :: "client_source \<Rightarrow> jsstring" where
  "source_label s = client_name s @ jstr '' | pid '' @ show_int (pid s)"

text \<open>\<open>session.title ? `${session.title}\n${session.thread_id}` : session.thread_id\<close>.\<close>

definition session_tooltip :: "session \<Rightarrow> jsstring" where
  "session_tooltip x = (case s_title x of
     None \<Rightarrow> s_thread_id x
   | Some t \<Rightarrow> if t \<noteq> [] then t @ [0x0A] @ s_thread_id x else s_thread_id x)"

definition active_class :: "bool \<Rightarrow> (string \<times> jsstring) list" where
  "active_class active = (if active then [(''class'', jstr ''bg-accent text-accent-foreground'')] else [])"

definition session_button :: "jsstring option \<Rightarrow> session \<Rightarrow> node" where
  "session_button selectedThreadId x =
     (let active = (Some (s_thread_id x) = selectedThreadId) in
      El ''li'' [(''key'', s_thread_id x)] None
        [El ''button'' ([(''type'', jstr ''button''), (''title'', session_tooltip x)] @ active_class active)
           (Some (SelectThread (s_thread_id x)))
           ([el ''span'' [Txt (session_label x)]]
            @ cond (s_title x \<noteq> None \<and> s_title x \<noteq> Some []) (el ''span'' [Txt (s_thread_id x)]))])"

definition source_group :: "sessions_by_source \<Rightarrow> jsstring option \<Rightarrow> client_source \<Rightarrow> node" where
  "source_group sessionsBySource selectedThreadId source =
     (let sessions = sessions_of sessionsBySource (cs_source_key source) in
      El ''li'' [(''key'', cs_source_key source)] None
        [el ''div'' [el ''span'' [Txt (source_label source)],
                    badge ''outline'' (show_int (int (length sessions)))],
         el ''ul'' (map (session_button selectedThreadId) sessions
           @ cond (length sessions = 0) (el ''li'' [lit ''no sessions yet'']))])"

definition GroupedThreadSidebar ::
    "client_source list \<Rightarrow> sessions_by_source \<Rightarrow> jsstring option \<Rightarrow> node" where
  "GroupedThreadSidebar sources sessionsBySource selectedThreadId =
     (if length sources = 0 then el ''div'' [lit ''Waiting for registrations...'']
      else el ''ul'' (map (source_group sessionsBySource selectedThreadId) sources))"

text \<open>The older component, with its own copy of the markup.\<close>

definition ClientSourceTree ::
    "client_source list \<Rightarrow> sessions_by_source \<Rightarrow> jsstring option \<Rightarrow> node" where
  "ClientSourceTree sources sessionsBySource selectedThreadId =
     (if length sources = 0 then el ''div'' [lit ''Waiting for registrations...'']
      else el ''ul'' (map (\<lambda>src.
        let sessions = opt_default (map_get sessionsBySource (cs_source_key src)) [] in
        El ''li'' [(''key'', cs_source_key src)] None
          [el ''div''
             [el ''span'' [Txt (client_name src @ jstr '' | pid '' @ show_int (pid src))],
              badge ''outline'' (show_int (int (length sessions)))],
           el ''ul''
             (map (\<lambda>s.
                let active = (Some (s_thread_id s) = selectedThreadId);
                    trimmed = map_option trim (s_title s);
                    label = (if trimmed \<noteq> None \<and> trimmed \<noteq> Some [] then the trimmed else s_thread_id s);
                    titled = (s_title s \<noteq> None \<and> s_title s \<noteq> Some [])
                in El ''li'' [(''key'', s_thread_id s)] None
                  [El ''button''
                     ([(''type'', jstr ''button''),
                       (''title'', if titled then the (s_title s) @ [0x0A] @ s_thread_id s else s_thread_id s)]
                      @ (if active then [(''class'', jstr ''bg-accent text-accent-foreground'')] else []))
                     (Some (SelectThread (s_thread_id s)))
                     ([el ''span'' [Txt label]]
                      @ cond titled (el ''span'' [Txt (s_thread_id s)]))]) sessions
              @ cond (length sessions = 0) (el ''li'' [lit ''no sessions yet'']))]) sources))"

text \<open>\<open>retry\<close> says whether the caller passes the callback.\<close>

definition SidebarPane ::
    "sidebar_state \<Rightarrow> client_source list \<Rightarrow> sessions_by_source \<Rightarrow> jsstring option \<Rightarrow> bool \<Rightarrow> node" where
  "SidebarPane state sources sessionsBySource selectedThreadId retry =
     (case state of
        SidebarLoading \<Rightarrow> El ''ul'' [(''aria-busy'', jstr ''true'')] None
          (map (\<lambda>k. El ''li'' [(''key'', jstr k)] None []) [''s1'', ''s2'', ''s3'', ''s4''])
      | SidebarError \<Rightarrow> el ''div''
          ([el ''p'' [lit ''Could not load client sources.'']]
           @ cond retry (El ''button'' [(''type'', jstr ''button'')] (Some RetryQueries) [lit ''Retry'']))
      | SidebarEmpty \<Rightarrow> el ''div''
          [el ''p'' [lit ''No Codex sessions observed yet.''],
           el ''p'' [lit ''Launch'', lit '' '',
                     el ''code'' [Txt (jstr ''codex-mcp-ui --ui-port '' @ [0x2026])], lit '' '',
                     lit ''from an MCP client and run a turn.'']]
      | SidebarReady \<Rightarrow> GroupedThreadSidebar sources sessionsBySource selectedThreadId)"

subsection \<open>Facts about the tree\<close>

text \<open>What a click on a button of the list does, and whether the button is highlighted.\<close>

definition button_info :: "ui_action \<times> node \<Rightarrow> ui_action \<times> bool" where
  "button_info x = (fst x, attr ''class'' (snd x) \<noteq> None)"

definition listed :: "client_source list \<Rightarrow> sessions_by_source \<Rightarrow> session list" where
  "listed sources m = concat (map (\<lambda>s. sessions_of m (cs_source_key s)) sources)"

lemma button_info_session:
  "map button_info (handlers (session_button sel x))
     = [(SelectThread (s_thread_id x), Some (s_thread_id x) = sel)]"
  by (simp add: session_button_def Let_def button_info_def active_class_def cond_def)

lemma buttons_of_sidebar:
  "map button_info (handlers (GroupedThreadSidebar sources m sel))
     = map (\<lambda>x. (SelectThread (s_thread_id x), Some (s_thread_id x) = sel)) (listed sources m)"
proof -
  have group: "map button_info (handlers (source_group m sel s))
      = map (\<lambda>x. (SelectThread (s_thread_id x), Some (s_thread_id x) = sel)) (sessions_of m (cs_source_key s))" for s
  proof -
    have "map button_info (concat (map (\<lambda>x. handlers (session_button sel x)) xs))
        = map (\<lambda>x. (SelectThread (s_thread_id x), Some (s_thread_id x) = sel)) xs" for xs
      by (induction xs) (simp_all add: button_info_session)
    then show ?thesis by (simp add: source_group_def Let_def handlers_in_map)
  qed
  have "map button_info (concat (map (\<lambda>s. handlers (source_group m sel s)) ss))
      = map (\<lambda>x. (SelectThread (s_thread_id x), Some (s_thread_id x) = sel)) (listed ss m)" for ss
    by (induction ss) (simp_all add: group listed_def)
  then show ?thesis
    by (cases sources) (simp_all add: GroupedThreadSidebar_def handlers_in_map group listed_def)
qed

lemma hasThread_listed: "hasThread sources m t \<longleftrightarrow> t \<in> s_thread_id ` set (listed sources m)"
  by (auto simp: hasThread_def list_ex_iff listed_def)

lemma client_tree_is_sidebar: "ClientSourceTree = GroupedThreadSidebar"
proof (intro ext)
  fix sources m sel
  have b: "(let active = (Some (s_thread_id s) = sel);
                    trimmed = map_option trim (s_title s);
                    label = (if trimmed \<noteq> None \<and> trimmed \<noteq> Some [] then the trimmed else s_thread_id s);
                    titled = (s_title s \<noteq> None \<and> s_title s \<noteq> Some [])
                in El ''li'' [(''key'', s_thread_id s)] None
                  [El ''button''
                     ([(''type'', jstr ''button''),
                       (''title'', if titled then the (s_title s) @ [0x0A] @ s_thread_id s else s_thread_id s)]
                      @ (if active then [(''class'', jstr ''bg-accent text-accent-foreground'')] else []))
                     (Some (SelectThread (s_thread_id s)))
                     ([el ''span'' [Txt label]]
                      @ cond titled (el ''span'' [Txt (s_thread_id s)]))]) = session_button sel s" for s
    by (cases "s_title s")
      (simp_all add: session_button_def session_tooltip_def session_label_def active_class_def Let_def)
  show "ClientSourceTree sources m sel = GroupedThreadSidebar sources m sel"
    unfolding ClientSourceTree_def GroupedThreadSidebar_def b source_group_def source_label_def
      sessions_of_def ..
qed

end
