(* ===== verification/Workbench.thy ===== *)
theory Workbench
  imports Conversation_View Sidebar_View
begin

section \<open>The workbench\<close>

text \<open>
  \<open>SessionWorkbench\<close> and \<open>LiveSessionWorkbench\<close> of
  \<^verbatim>\<open>web/src/components/workbench/session-workbench.tsx\<close>, the tabs of
  \<^verbatim>\<open>session-conversation-tabs.tsx\<close> and \<^verbatim>\<open>error-boundary.tsx\<close>: the page as a function of what the
  queries returned, the location hash, the session history and the local state of the table and
  the tabs. A query of react-query is given by its result; what it fetches is \<open>fetch_sessions\<close>.
\<close>

subsection \<open>Queries\<close>

record 'a query_result =
  q_data :: "'a option"
  q_pending :: bool
  q_error :: "jsstring option"

definition query_sources :: "client_source list query_result \<Rightarrow> client_source list" where
  "query_sources q = opt_default (q_data q) []"

definition query_sessions :: "sessions_by_source query_result \<Rightarrow> sessions_by_source" where
  "query_sessions q = opt_default (q_data q) []"

definition sourceKeysFingerprint :: "client_source list \<Rightarrow> jsstring" where
  "sourceKeysFingerprint sources = join (jstr ''|'') (map cs_source_key sources)"

text \<open>The key of each query, whether it is enabled, and after how many milliseconds it is fetched again.\<close>

definition sources_query :: "jsstring list \<times> bool \<times> nat" where
  "sources_query = ([jstr ''client-sources''], True, 10000)"

definition sessions_query :: "client_source list \<Rightarrow> jsstring list \<times> bool \<times> nat" where
  "sessions_query sources =
     ([jstr ''sessions-by-source'', sourceKeysFingerprint sources], length sources > 0, 15000)"

definition SESSION_DETAIL_REFETCH_INTERVAL :: nat where
  "SESSION_DETAIL_REFETCH_INTERVAL = 15000"

definition session_query :: "jsstring option \<Rightarrow> jsstring option list \<times> bool \<times> nat" where
  "session_query threadId =
     ([Some (jstr ''session''), threadId], truthy_id threadId, SESSION_DETAIL_REFETCH_INTERVAL)"

text \<open>\<open>Promise.all\<close> over the sources, then \<open>Object.fromEntries\<close>. The first failure in the list is
  reported (the promise rejects with the first in time).\<close>

fun fetch_entries ::
    "(jsstring \<Rightarrow> jsstring + session list) \<Rightarrow> client_source list \<Rightarrow> jsstring + (jsstring \<times> session list) list" where
  "fetch_entries api [] = Inr []"
| "fetch_entries api (s # ss) =
     (case api (cs_source_key s) of
        Inl err \<Rightarrow> Inl err
      | Inr xs \<Rightarrow> (case fetch_entries api ss of
                    Inl err \<Rightarrow> Inl err
                  | Inr rest \<Rightarrow> Inr ((cs_source_key s, xs) # rest)))"

definition fromEntries :: "('k \<times> 'v) list \<Rightarrow> ('k, 'v) jsmap" where
  "fromEntries es = foldl (\<lambda>m (k, v). map_put m k v) [] es"

definition fetch_sessions ::
    "(jsstring \<Rightarrow> jsstring + session list) \<Rightarrow> client_source list \<Rightarrow> jsstring + sessions_by_source" where
  "fetch_sessions api sources = (case fetch_entries api sources of
     Inl err \<Rightarrow> Inl err | Inr es \<Rightarrow> Inr (fromEntries es))"

subsection \<open>Tabs\<close>

text \<open>The tabs are those of Radix, which is not under \<^verbatim>\<open>src\<close>. Whether it mounts the children of a
  \<open>TabsContent\<close> is the parameter \<open>tabMounts\<close> of the renderers, given the value of the \<open>Tabs\<close>, that of
  the content and whether \<open>forceMount\<close> is set; a click on a trigger calls \<open>onValueChange\<close> with the
  trigger's value. The documented behaviour, where a property needs it, is the hypothesis \<open>radix_tabs\<close>:
  only the content of the current value is mounted, unless mounting is forced.\<close>

definition radix_tabs :: "(jsstring \<Rightarrow> jsstring \<Rightarrow> bool \<Rightarrow> bool) \<Rightarrow> bool" where
  "radix_tabs mounts = (\<forall>current v force. mounts current v force \<longleftrightarrow> force \<or> current = v)"

definition tabs_trigger :: "string \<Rightarrow> string \<Rightarrow> node" where
  "tabs_trigger v caption =
     El ''TabsTrigger'' [(''value'', jstr v)] (Some (OpenTab (jstr v))) [lit caption]"

definition tabs_content ::
    "(jsstring \<Rightarrow> jsstring \<Rightarrow> bool \<Rightarrow> bool) \<Rightarrow> jsstring \<Rightarrow> string \<Rightarrow> bool \<Rightarrow> node \<Rightarrow> node" where
  "tabs_content mounts tab v force child =
     El ''TabsContent'' ((''value'', jstr v) # (if force then [(''forceMount'', jstr ''true'')] else [])) None
       (cond (mounts tab (jstr v) force) child)"

definition SessionConversationTabs ::
    "(jsstring \<Rightarrow> jsstring \<Rightarrow> bool \<Rightarrow> bool) \<Rightarrow> jsstring \<Rightarrow> node \<Rightarrow> node \<Rightarrow> node \<Rightarrow> node" where
  "SessionConversationTabs mounts tab conversation rawEvents metadata =
     El ''Tabs'' [(''value'', tab)] None
       [el ''div'' [el ''TabsList''
          [tabs_trigger ''conversation'' ''Conversation'',
           tabs_trigger ''raw'' ''Raw events'',
           tabs_trigger ''metadata'' ''Metadata'']],
        tabs_content mounts tab ''conversation'' True conversation,
        tabs_content mounts tab ''raw'' False rawEvents,
        tabs_content mounts tab ''metadata'' False metadata]"

subsection \<open>SessionWorkbench\<close>

record workbench_props =
  wb_sources :: "client_source list"
  wb_sessions :: sessions_by_source
  wb_hash :: "jsstring option"
  wb_detail :: "session_detail option"
  wb_detailError :: "jsstring option"
  wb_canRetryDetail :: bool
  wb_sidebarState :: "sidebar_state option"
  wb_canRetry :: bool

text \<open>The local state of the components below the workbench.\<close>

record local_state =
  ls_table :: table_state
  ls_tab :: jsstring

definition local_init :: local_state where
  "local_init = \<lparr>ls_table = table_init, ls_tab = jstr ''conversation''\<rparr>"

text \<open>What a click on a tab or an action on the table does to it: \<open>setTab\<close>, and the reducer of the table.
  The table keeps its filters and open rows only while its panel stays mounted. Both are keyed by the
  selected thread, so another thread starts afresh.\<close>

fun local_step ::
    "(jsstring \<Rightarrow> jsstring \<Rightarrow> bool \<Rightarrow> bool) \<Rightarrow> local_state \<Rightarrow> ui_action \<times> jsstring \<Rightarrow> local_state" where
  "local_step mounts ls (OpenTab v, _) =
     \<lparr>ls_table = (if mounts (ls_tab ls) (jstr ''raw'') False \<and> mounts v (jstr ''raw'') False
                  then ls_table ls else table_init), ls_tab = v\<rparr>"
| "local_step mounts ls x = ls\<lparr>ls_table := table_step (ls_table ls) x\<rparr>"

definition local_rekeyed :: "jsstring option \<Rightarrow> jsstring option \<Rightarrow> local_state \<Rightarrow> local_state" where
  "local_rekeyed old new ls = (if old = new then ls else local_init)"

definition wb_selection :: "workbench_props \<Rightarrow> selection" where
  "wb_selection p = resolveThreadSelection (wb_hash p) (wb_sources p) (wb_sessions p)"

definition derivedSidebarState :: "workbench_props \<Rightarrow> sidebar_state" where
  "derivedSidebarState p = opt_default (wb_sidebarState p)
     (if length (wb_sources p) = 0 then SidebarEmpty else SidebarReady)"

definition wb_session :: "workbench_props \<Rightarrow> session option" where
  "wb_session p = resolveSelectedSession (sel_threadId (wb_selection p)) (wb_sessions p) (wb_detail p)"

definition wb_source :: "workbench_props \<Rightarrow> client_source option" where
  "wb_source p = resolveSelectedSource (wb_detail p) (wb_session p) (wb_sources p)"

definition readonlyThread ::
    "(jsstring \<Rightarrow> jsstring \<Rightarrow> int) \<Rightarrow> workbench_props \<Rightarrow> event_record list \<Rightarrow> thread option" where
  "readonlyThread lc p events =
     map_option (\<lambda>d. projectReadonlyAssistantThread lc d events)
       (detailForSelectedThread (sel_threadId (wb_selection p)) (wb_detail p) (wb_session p)
         (wb_source p) events)"

definition detail_error_node :: "bool \<Rightarrow> jsstring \<Rightarrow> node" where
  "detail_error_node canRetry msg = el ''div'' [el ''div''
     ([el ''div'' [el ''p'' [lit ''Could not refresh session detail.''], el ''p'' [Txt msg]]]
      @ cond canRetry (El ''button'' [(''type'', jstr ''button'')] (Some RetryDetail)
          [lit ''Retry session detail'']))]"

definition SessionWorkbench ::
    "(jsstring \<Rightarrow> jsstring \<Rightarrow> int) \<Rightarrow> ('a thread_renderers_scheme) \<Rightarrow> (jsstring \<Rightarrow> 'd)
     \<Rightarrow> workbench_props \<Rightarrow> history_state \<Rightarrow> local_state \<Rightarrow> node" where
  "SessionWorkbench lc R date p history ls =
     (let selectedThreadId = sel_threadId (wb_selection p);
          t = readonlyThread lc p (st_events history);
          rendered = runtime_rendered (buildReadonlyRuntimeConfig date
            (case t of None \<Rightarrow> [] | Some th \<Rightarrow> messages th))
      in el ''div''
        [El ''aside'' [(''aria-label'', jstr ''Client sources'')] None
           [el ''div'' [el ''h2'' [lit ''Client sources'']], el ''Separator'' [],
            el ''ScrollArea'' [SidebarPane (derivedSidebarState p) (wb_sources p) (wb_sessions p)
              selectedThreadId (wb_canRetry p)]],
         El ''main'' [(''aria-label'', jstr ''Session detail'')] None
           ([SessionHeader (wb_session p) (wb_source p)]
            @ (case wb_detailError p of None \<Rightarrow> [] | Some msg \<Rightarrow>
                 cond (truthy_id selectedThreadId) (detail_error_node (wb_canRetryDetail p) msg))
            @ [if truthy_id selectedThreadId
               then with_key (the selectedThreadId) (SessionConversationTabs (tabMounts R) (ls_tab ls)
                 (ReadonlyAssistantThread R rendered t (st_status history) (st_error history))
                 (with_key (the selectedThreadId)
                   (RawEventTable (renderers.truncate R) (ls_table ls) (st_events history)))
                 (MetadataPanel (wb_session p) (wb_source p)))
               else el ''div'' [lit ''Select a session from the left to inspect its conversation and events.'']])])"

text \<open>What the effect of the component does: the hash after it.\<close>

definition workbench_effect :: "workbench_props \<Rightarrow> hash_state \<Rightarrow> hash_state option" where
  "workbench_effect p h =
     (if shouldWriteHash (wb_selection p) \<and> truthy_id (sel_threadId (wb_selection p))
      then set_hash (sel_threadId (wb_selection p)) h else Some h)"

subsection \<open>LiveSessionWorkbench\<close>

definition live_props ::
    "client_source list query_result \<Rightarrow> sessions_by_source query_result \<Rightarrow> session_detail query_result
     \<Rightarrow> hash_state \<Rightarrow> workbench_props" where
  "live_props sourcesQ sessionsQ sessionQ h =
     \<lparr>wb_sources = query_sources sourcesQ, wb_sessions = query_sessions sessionsQ,
      wb_hash = hash_value h, wb_detail = q_data sessionQ, wb_detailError = q_error sessionQ,
      wb_canRetryDetail = True,
      wb_sidebarState = Some (sidebarState (q_pending sourcesQ) (q_pending sessionsQ)
        (q_error sourcesQ \<noteq> None) (q_error sessionsQ \<noteq> None) (query_sources sourcesQ)),
      wb_canRetry = True\<rparr>"

text \<open>The selection whose detail \<open>LiveSessionWorkbench\<close> queries; the page resolves its own from its
  properties, and it is the same.\<close>

definition live_selection ::
    "client_source list query_result \<Rightarrow> sessions_by_source query_result \<Rightarrow> hash_state \<Rightarrow> selection" where
  "live_selection sourcesQ sessionsQ h =
     resolveThreadSelection (hash_value h) (query_sources sourcesQ) (query_sessions sessionsQ)"

lemma page_selects_queried_detail:
  "wb_selection (live_props sourcesQ sessionsQ sessionQ h) = live_selection sourcesQ sessionsQ h"
  by (simp add: wb_selection_def live_props_def live_selection_def)

text \<open>\<open>setHashThreadId\<close> is the callback of the buttons; the other actions do not touch the hash.\<close>

fun click_hash :: "ui_action \<Rightarrow> hash_state \<Rightarrow> hash_state option" where
  "click_hash (SelectThread t) h = set_hash (Some t) h"
| "click_hash a h = Some h"

subsection \<open>ErrorBoundary\<close>

datatype boundary_event = RenderFailed jsstring | Reset

fun boundary_step :: "jsstring option \<Rightarrow> boundary_event \<Rightarrow> jsstring option" where
  "boundary_step st (RenderFailed msg) = Some msg"
| "boundary_step st Reset = None"

definition ErrorBoundary :: "jsstring option \<Rightarrow> node \<Rightarrow> node" where
  "ErrorBoundary st page = (case st of
     None \<Rightarrow> page
   | Some msg \<Rightarrow> El ''div'' [(''role'', jstr ''alert'')] None [el ''div''
       [el ''h1'' [lit ''Dashboard stopped rendering''],
        el ''p'' [Txt (jstr ''An unexpected error occurred. The hub may still be running '' @ [0x2014]
          @ jstr '' open the browser console for details or retry.'')],
        el ''pre'' [Txt msg],
        El ''button'' [(''type'', jstr ''button'')] (Some ResetBoundary) [lit ''Retry'']]])"

subsection \<open>What can be acted on\<close>

lemma handlers_with_key: "map fst (handlers (with_key k n)) = map fst (handlers n)"
proof (cases n)
  case (El t as h cs)
  then show ?thesis by (cases h) simp_all
qed simp

lemma handlers_none_with_key: "handlers n = [] \<Longrightarrow> handlers (with_key k n) = []"
  using handlers_with_key [of k n] by simp

lemma handlers_header: "handlers (SessionHeader s c) = []"
  by (cases s; cases c) (auto simp: SessionHeader_def split: option.splits)

lemma handlers_metadata: "handlers (MetadataPanel s c) = []"
  by (cases s; cases c) (auto simp: MetadataPanel_def Row_def)

lemma handlers_opt_text: "handlers_in (opt_text t) = []"
  by (simp add: opt_text_def split: option.split)

lemma handlers_js_child: "handlers_in (js_child v) = []"
  by (cases v) simp_all

lemma handlers_markdown: "handlers (MarkdownBody t s) = []"
  by (simp add: MarkdownBody_def StreamCaret_def)

lemma handlers_part: "handlers (ReadonlyMessagePart R r p) = []"
  by (cases p; cases r)
    (simp_all add: ReadonlyStructuredPart_def handlers_opt_text handlers_js_child handlers_markdown Let_def)

lemma handlers_all_none: "(\<And>x. handlers (f x) = []) \<Longrightarrow> handlers_in (map f xs) = []"
  by (induction xs) simp_all

lemma handlers_message: "handlers (message_node R m) = []"
  by (simp add: message_node_def part_nodes_def handlers_all_none handlers_none_with_key handlers_part)

lemma handlers_thread:
  "handlers (ReadonlyAssistantThread R (runtime_rendered (buildReadonlyRuntimeConfig date
      (case t of None \<Rightarrow> [] | Some th \<Rightarrow> messages th))) t st err) = []"
  by (simp add: ReadonlyAssistantThread_def rendered_messages thread_header_node_def handlers_all_none
      handlers_message handlers_none_with_key Let_def split: option.split)

text \<open>Only the sidebar selects a thread.\<close>

definition selects :: "ui_action \<Rightarrow> bool" where
  "selects a = (case a of SelectThread t \<Rightarrow> True | _ \<Rightarrow> False)"

lemma selects_simps [simp]:
  "selects (SelectThread t)" "\<not> selects RetryQueries" "\<not> selects RetryDetail" "\<not> selects (ToggleRow i)"
  "\<not> selects EditTypeFilter" "\<not> selects EditRequestFilter" "\<not> selects EditTurnFilter"
  "\<not> selects (OpenTab v)" "\<not> selects ResetBoundary"
  by (simp_all add: selects_def)

definition thread_buttons :: "node \<Rightarrow> (ui_action \<times> bool) list" where
  "thread_buttons n = filter (\<lambda>x. selects (fst x)) (map button_info (handlers n))"

lemma button_info_fst: "fst (button_info x) = fst x"
  by (simp add: button_info_def)

lemma no_thread_buttons:
  "filter (\<lambda>x. selects (fst x)) (map button_info xs) = [] \<longleftrightarrow> list_all (\<lambda>a. \<not> selects a) (map fst xs)"
  by (auto simp: filter_empty_conv list_all_iff button_info_def)

lemma table_no_threads:
  "filter (\<lambda>x. selects (fst x)) (map button_info (handlers (with_key k (RawEventTable R st es)))) = []"
  unfolding no_thread_buttons handlers_with_key handlers_table by (simp add: list_all_iff)

lemma sidebar_thread_buttons:
  "filter (\<lambda>x. selects (fst x)) (map button_info (handlers (SidebarPane state sources m sel retry)))
     = (if state = SidebarReady
        then map (\<lambda>x. (SelectThread (s_thread_id x), Some (s_thread_id x) = sel)) (listed sources m) else [])"
proof (cases state)
  case SidebarLoading
  then show ?thesis by (simp add: SidebarPane_def handlers_all_none)
next
  case SidebarReady
  have "filter (\<lambda>x. selects (fst x)) (map (\<lambda>x. (SelectThread (s_thread_id x), P x)) xs)
      = map (\<lambda>x. (SelectThread (s_thread_id x), P x)) xs" for P and xs :: "session list"
    by (induction xs) simp_all
  with SidebarReady show ?thesis by (simp add: SidebarPane_def buttons_of_sidebar)
qed (simp_all add: SidebarPane_def button_info_def)

lemma thread_buttons_workbench:
  "thread_buttons (SessionWorkbench lc R date p history ls) =
     (if derivedSidebarState p = SidebarReady
      then map (\<lambda>x. (SelectThread (s_thread_id x), Some (s_thread_id x) = sel_threadId (wb_selection p)))
             (listed (wb_sources p) (wb_sessions p)) else [])"
proof -
  have tabs: "filter (\<lambda>x. selects (fst x)) (map button_info (handlers (with_key k
      (SessionConversationTabs mounts tab conv raw meta)))) = []"
    if "handlers conv = []" "handlers meta = []"
      "filter (\<lambda>x. selects (fst x)) (map button_info (handlers raw)) = []" for k mounts tab conv raw meta
    using that by (simp add: SessionConversationTabs_def tabs_trigger_def tabs_content_def button_info_def)
  show ?thesis
    unfolding thread_buttons_def SessionWorkbench_def
    by (simp add: handlers_header sidebar_thread_buttons tabs handlers_thread handlers_metadata
        table_no_threads detail_error_node_def button_info_def Let_def split: option.split)
qed

text \<open>The triggers of the tabs are on the page of a selected thread; the rows of the raw table are when
  its tab is open, and only then.\<close>

lemma handlers_keyed_table: "handlers (with_key k (RawEventTable R st es)) = handlers (RawEventTable R st es)"
  by (simp add: RawEventTable_def)

lemma handlers_tabs:
  "handlers (with_key k (SessionConversationTabs mounts tab conv raw meta)) =
     map (\<lambda>(v, c). (OpenTab (jstr v), tabs_trigger v c))
       [(''conversation'', ''Conversation''), (''raw'', ''Raw events''), (''metadata'', ''Metadata'')]
     @ (if mounts tab (jstr ''conversation'') True then handlers conv else [])
     @ (if mounts tab (jstr ''raw'') False then handlers raw else [])
     @ (if mounts tab (jstr ''metadata'') False then handlers meta else [])"
  by (simp add: SessionConversationTabs_def tabs_trigger_def tabs_content_def)

lemma trigger_on_page:
  assumes "truthy_id (sel_threadId (wb_selection p))"
    and "(v, c) \<in> {(''conversation'', ''Conversation''), (''raw'', ''Raw events''), (''metadata'', ''Metadata'')}"
  shows "(OpenTab (jstr v), tabs_trigger v c) \<in> set (handlers (SessionWorkbench lc R date p history ls))"
  using assms by (auto simp: SessionWorkbench_def Let_def handlers_tabs)

lemma row_on_page:
  assumes "truthy_id (sel_threadId (wb_selection p))" and "tabMounts R (ls_tab ls) (jstr ''raw'') False"
    and "(e, opened) \<in> set (table_rows (lowercase R) (ls_table ls) (st_events history))"
  shows "(ToggleRow (event_id e), event_row_node (renderers.truncate R) e opened)
    \<in> set (handlers (SessionWorkbench lc R date p history ls))"
proof -
  have "lowercase (renderers.truncate R) = lowercase R" by (simp add: renderers.defs)
  with assms(3) have "(ToggleRow (event_id e), event_row_node (renderers.truncate R) e opened)
      \<in> set (handlers (RawEventTable (renderers.truncate R) (ls_table ls) (st_events history)))"
    by (force simp: handlers_table_rows)
  with assms(1,2) show ?thesis
    by (simp add: SessionWorkbench_def Let_def handlers_tabs handlers_keyed_table)
qed

lemma no_row_on_page:
  assumes "\<not> tabMounts R (ls_tab ls) (jstr ''raw'') False"
  shows "ToggleRow i \<notin> fst ` set (handlers (SessionWorkbench lc R date p history ls))"
proof -
  have side: "(ToggleRow i, b) \<notin> set (handlers (SidebarPane state sources m sel retry))"
    for b state sources m sel retry
  proof -
    have "map fst (handlers (GroupedThreadSidebar sources m sel)) = map (\<lambda>x. SelectThread (s_thread_id x)) (listed sources m)"
      using arg_cong [where f = "map fst", OF buttons_of_sidebar [of sources m sel]]
      by (simp add: comp_def button_info_fst)
    then have "ToggleRow i \<notin> set (map fst (handlers (SidebarPane state sources m sel retry)))"
      by (cases state) (auto simp: SidebarPane_def handlers_all_none)
    then show ?thesis by (auto simp: rev_image_eqI)
  qed
  show ?thesis
    using assms
    by (auto simp: SessionWorkbench_def Let_def handlers_tabs handlers_keyed_table handlers_header
        handlers_thread handlers_metadata detail_error_node_def side split: option.splits)
qed

subsection \<open>What the queries fetch\<close>

definition bars :: "jsstring \<Rightarrow> nat" where
  "bars s = length (filter (\<lambda>c. c = 0x7C) s)"

lemma bars_simps [simp]:
  "bars [] = 0" "bars (c # s) = (if c = 0x7C then Suc (bars s) else bars s)" "bars (s @ t) = bars s + bars t"
  by (simp_all add: bars_def)

lemma bar_prefix: "bars x = bars y \<Longrightarrow> x @ 0x7C # r = y @ 0x7C # s \<Longrightarrow> x = y"
proof (induction x arbitrary: y)
  case Nil
  then show ?case by (cases y) auto
next
  case (Cons a x)
  show ?case
  proof (cases y)
    case (Cons b y')
    with Cons.prems Cons.IH [of y'] show ?thesis by (auto split: if_splits)
  qed (use Cons.prems in \<open>auto split: if_splits\<close>)
qed

text \<open>Lists of keys with the same number of bars each have different fingerprints.\<close>

lemma join_bar_inject:
  "\<forall>k\<in>set xs \<union> set ys. bars k = n \<Longrightarrow> [] \<notin> set xs \<union> set ys \<Longrightarrow>
   join [0x7C] xs = join [0x7C] ys \<Longrightarrow> xs = ys"
proof (induction xs arbitrary: ys rule: induct_list012 [case_names Nil single many])
  case Nil
  then show ?case by (cases ys; cases "tl ys") auto
next
  case (single x)
  then obtain y zs where ys: "ys = y # zs" by (cases ys) auto
  show ?case
  proof (cases zs)
    case Nil
    with single ys show ?thesis by simp
  next
    case (Cons z zs')
    with single.prems(3) ys have "x = y @ 0x7C # join [0x7C] (z # zs')" by simp
    then have "bars x = bars y + Suc (bars (join [0x7C] (z # zs')))" by simp
    moreover from single.prems(1) ys have "bars x = n" "bars y = n" by simp_all
    ultimately show ?thesis by simp
  qed
next
  case (many x x' xs)
  obtain y zs where ys1: "ys = y # zs" using many.prems(2,3) by (cases ys) auto
  have "zs \<noteq> []"
  proof
    assume "zs = []"
    with many.prems(3) ys1 have "y = x @ 0x7C # join [0x7C] (x' # xs)" by simp
    then have "bars y = bars x + Suc (bars (join [0x7C] (x' # xs)))" by simp
    moreover from many.prems(1) ys1 have "bars x = n" "bars y = n" by simp_all
    ultimately show False by simp
  qed
  then obtain y' ys' where ys: "ys = y # y' # ys'" using ys1 by (cases zs) auto
  with many.prems(3) have eq: "x @ 0x7C # join [0x7C] (x' # xs) = y @ 0x7C # join [0x7C] (y' # ys')" by simp
  have "x = y" by (rule bar_prefix [OF _ eq]) (use many.prems(1) ys in auto)
  with eq many.IH [of "y' # ys'"] many.prems(1,2) show ?case by (simp add: ys)
qed

lemma fetch_entries_Inr:
  "fetch_entries api sources = Inr es \<Longrightarrow>
   map fst es = map cs_source_key sources \<and> (\<forall>(k, xs)\<in>set es. api k = Inr xs)"
  by (induction sources arbitrary: es) (auto split: sum.splits)

lemma fromEntries_get:
  "map_get (foldl (\<lambda>m (k, v). map_put m k v) m es) k =
     (case map_of (rev es) k of None \<Rightarrow> map_get m k | Some v \<Rightarrow> Some v)"
  by (induction es arbitrary: m) (auto simp: map_add_def split: option.splits)

lemma fetched_sessions:
  assumes "fetch_sessions api sources = Inr m" and "s \<in> set sources"
  shows "api (cs_source_key s) = Inr (sessions_of m (cs_source_key s))"
proof -
  from assms(1) obtain es where es: "fetch_entries api sources = Inr es" "m = fromEntries es"
    by (auto simp: fetch_sessions_def split: sum.splits)
  note E = fetch_entries_Inr [OF es(1)]
  from E assms(2) have "cs_source_key s \<in> fst ` set es" by (metis image_eqI list.set_map)
  then have "map_of (rev es) (cs_source_key s) \<noteq> None" by (simp add: map_of_eq_None_iff)
  then obtain v where v: "map_of (rev es) (cs_source_key s) = Some v" by auto
  then have "(cs_source_key s, v) \<in> set es" using map_of_SomeD by fastforce
  with E have "api (cs_source_key s) = Inr v" by auto
  moreover have "sessions_of m (cs_source_key s) = v"
    using v by (simp add: es(2) fromEntries_def sessions_of_def fromEntries_get)
  ultimately show ?thesis by simp
qed

subsection \<open>Properties\<close>

text \<open>C32. Clicking a session selects it: every session button of the page, in whatever state the queries
  are, writes its thread into the location hash; the page rendered with that hash selects the
  thread and does not write the hash again, it has the same buttons, and the highlighted ones are
  those of the thread.\<close>

theorem clicking_a_session_selects_it:
  assumes "(SelectThread t, b) \<in> set (thread_buttons (SessionWorkbench lc R date
      (live_props sourcesQ sessionsQ sessionQ h) history ls))"
    and "t = js_of_points ps" and "list_all scalar ps" and "ps \<noteq> []"
  shows "\<exists>h'. click_hash (SelectThread t) h = Some h'
    \<and> wb_selection (live_props sourcesQ sessionsQ sessionQ' h') = \<lparr>sel_threadId = Some t, shouldWriteHash = False\<rparr>
    \<and> thread_buttons (SessionWorkbench lc R date (live_props sourcesQ sessionsQ sessionQ' h') history' ls')
      = map (\<lambda>(a, _). (a, a = SelectThread t)) (thread_buttons (SessionWorkbench lc R date
          (live_props sourcesQ sessionsQ sessionQ h) history ls))"
proof -
  let ?p = "live_props sourcesQ sessionsQ sessionQ h"
  obtain h' where h': "set_hash (Some t) h = Some h'" "hash_value h' = Some t"
    using set_hash_points [OF assms(3,4)] assms(2) by blast
  let ?q = "live_props sourcesQ sessionsQ sessionQ' h'"
  have same: "wb_sources ?q = wb_sources ?p" "wb_sessions ?q = wb_sessions ?p"
    "derivedSidebarState ?q = derivedSidebarState ?p" "wb_hash ?q = Some t"
    by (simp_all add: live_props_def derivedSidebarState_def h')
  have ready: "derivedSidebarState ?p = SidebarReady" and "t \<in> s_thread_id ` set (listed (wb_sources ?p) (wb_sessions ?p))"
    using assms(1) by (auto simp: thread_buttons_workbench split: if_splits)
  then have "hasThread (wb_sources ?p) (wb_sessions ?p) t" by (simp add: hasThread_listed)
  moreover have "t \<noteq> []"
    using assms(2,4) by (cases ps) (auto simp: js_of_points_def utf16_units.simps)
  ultimately have sel: "wb_selection ?q = \<lparr>sel_threadId = Some t, shouldWriteHash = False\<rparr>"
    by (simp add: wb_selection_def same resolveThreadSelection_def truthy_id_def)
  have "thread_buttons (SessionWorkbench lc R date ?q history' ls')
      = map (\<lambda>(a, _). (a, a = SelectThread t)) (thread_buttons (SessionWorkbench lc R date ?p history ls))"
    by (simp add: thread_buttons_workbench same ready sel)
  with h'(1) sel show ?thesis by auto
qed

definition sample_renderers :: thread_renderers where
  "sample_renderers = \<lparr>lowercase = toLowerCase, stringify = (\<lambda>v. Inr (Some [])), stringify2 = (\<lambda>v. Inr (Some [])),
     js_String = (\<lambda>v. []), dateText = (\<lambda>s. Some s), partText = (\<lambda>p. Some []),
     tabMounts = (\<lambda>current v force. force \<or> current = v)\<rparr>"

definition ready_query :: "'a \<Rightarrow> 'a query_result" where
  "ready_query v = \<lparr>q_data = Some v, q_pending = False, q_error = None\<rparr>"

definition sample_workbench :: "hash_state \<Rightarrow> node" where
  "sample_workbench h = SessionWorkbench compare_units sample_renderers id
     (live_props (ready_query [sample_source ''a'', sample_source ''b''])
       (ready_query [(jstr ''b'', [sample_session ''b'' ''t1'', sample_session ''b'' ''t2''])])
       \<lparr>q_data = None, q_pending = True, q_error = None\<rparr> h) INITIAL_STATE local_init"

lemma clicking_a_session_selects_it_witness:
  "\<exists>h'. click_hash (SelectThread (jstr ''t2'')) \<lparr>location_hash = [], hash_value = None\<rparr> = Some h'
     \<and> thread_buttons (sample_workbench h') = [(SelectThread (jstr ''t1''), False), (SelectThread (jstr ''t2''), True)]"
proof -
  let ?h = "\<lparr>location_hash = [], hash_value = None\<rparr>"
  have buttons: "thread_buttons (sample_workbench ?h) = [(SelectThread (jstr ''t1''), True), (SelectThread (jstr ''t2''), False)]"
    by (simp add: sample_workbench_def thread_buttons_workbench derivedSidebarState_def live_props_def ready_query_def
        sidebarState_def query_sources_def query_sessions_def listed_def sessions_of_def wb_selection_def
        resolveThreadSelection_def truthy_id_def sample_source_def sample_session_def map_get_def)
  have "jstr ''t2'' = js_of_points [0x74, 0x32]"
    by (simp add: js_of_points_def jstr_def unit_of_char_def utf16_units.simps)
  from clicking_a_session_selects_it [OF _ this, of False compare_units sample_renderers id
      "ready_query [sample_source ''a'', sample_source ''b'']"
      "ready_query [(jstr ''b'', [sample_session ''b'' ''t1'', sample_session ''b'' ''t2''])]"
      "\<lparr>q_data = None, q_pending = True, q_error = None\<rparr>" ?h INITIAL_STATE local_init
      "\<lparr>q_data = None, q_pending = True, q_error = None\<rparr>" INITIAL_STATE local_init, folded sample_workbench_def]
  show ?thesis by (fastforce simp: buttons scalar_def)
qed

text \<open>The sidebar lists what the hub returned: when the queries have succeeded, the session buttons of
  the page are, source by source and in the order of the hub, exactly the sessions the endpoint
  returned for the source.\<close>

theorem sidebar_lists_fetched_sessions:
  assumes "fetch_sessions api sources = Inr m" and "sources \<noteq> []"
  shows "thread_buttons (SessionWorkbench lc R date
      (live_props (ready_query sources) (ready_query m) sessionQ h) history ls)
    = concat (map (\<lambda>s. map (\<lambda>x. (SelectThread (s_thread_id x),
        Some (s_thread_id x) = sel_threadId (resolveThreadSelection (hash_value h) sources m)))
        (projr (api (cs_source_key s)))) sources)"
proof -
  have "map (\<lambda>s. projr (api (cs_source_key s))) sources = map (\<lambda>s. sessions_of m (cs_source_key s)) sources"
    using fetched_sessions [OF assms(1)] by simp
  then have "listed sources m = concat (map (\<lambda>s. projr (api (cs_source_key s))) sources)"
    by (simp only: listed_def)
  then show ?thesis
    using assms(2)
    by (simp add: thread_buttons_workbench derivedSidebarState_def live_props_def ready_query_def
        sidebarState_def query_sources_def query_sessions_def wb_selection_def map_concat comp_def)
qed

lemma sidebar_lists_fetched_sessions_witness:
  "\<exists>m. thread_buttons (SessionWorkbench compare_units sample_renderers id
      (live_props (ready_query [sample_source ''a'']) (ready_query m)
        \<lparr>q_data = None, q_pending = True, q_error = None\<rparr> \<lparr>location_hash = [], hash_value = None\<rparr>)
      INITIAL_STATE local_init) = [(SelectThread (jstr ''t1''), True)]"
proof -
  let ?api = "\<lambda>k. Inr [sample_session ''a'' ''t1'']" and ?m = "[(jstr ''a'', [sample_session ''a'' ''t1''])]"
  have f: "fetch_sessions ?api [sample_source ''a''] = Inr ?m"
    by (simp add: fetch_sessions_def fromEntries_def map_put_def sample_source_def)
  from sidebar_lists_fetched_sessions [OF f, of compare_units sample_renderers id
      "\<lparr>q_data = None, q_pending = True, q_error = None\<rparr>" "\<lparr>location_hash = [], hash_value = None\<rparr>"
      INITIAL_STATE local_init]
  have "thread_buttons (SessionWorkbench compare_units sample_renderers id
      (live_props (ready_query [sample_source ''a'']) (ready_query ?m)
        \<lparr>q_data = None, q_pending = True, q_error = None\<rparr> \<lparr>location_hash = [], hash_value = None\<rparr>)
      INITIAL_STATE local_init) = [(SelectThread (jstr ''t1''), True)]"
    by (simp add: resolveThreadSelection_def truthy_id_def sessions_of_def map_get_def sample_source_def
        sample_session_def)
  then show ?thesis by blast
qed

end
