(* ===== verification/Proxy_Envelope.thy ===== *)
theory Proxy_Envelope
  imports Hub_Live Workbench
begin

section \<open>The proxy: from a frame to an event\<close>

text \<open>
  \<open>Normalize\<close> of \<^verbatim>\<open>internal/proxy/envelope.go\<close> turns a JSON-RPC frame into the event the hub
  ingests; \<open>DeriveClientSourceKey\<close> of \<^verbatim>\<open>internal/proxy/client_source.go\<close> names the client. A frame
  is given by the value it parses to (\<open>None\<close> when it is not JSON); \<open>raw_text\<close> is the JSON text of
  a value inside the frame, and the hash is a parameter. Decoding into a Go struct fails on a field
  of the wrong type and leaves an absent or null field at its zero value. The values are those of
  \<open>JSON.parse\<close>, whose objects name each member once. Two habits of Go's decoder are outside the model:
  it also takes a member whose name differs from the field's in case only, and of a text that repeats
  a member it decodes every occurrence into the same field. Codex writes neither.
\<close>

definition NormalizeDirection :: "string \<Rightarrow> jsstring" where
  "NormalizeDirection bridgeDir =
     (if bridgeDir = ''upstream'' then jstr ''upstream_to_codex''
      else if bridgeDir = ''downstream'' then jstr ''codex_to_upstream''
      else jstr ''local'')"

text \<open>Decoding a string field and an object field of a struct.\<close>

definition decode_string :: "js \<Rightarrow> jsstring option" where
  "decode_string v = (case v of JUndef \<Rightarrow> Some [] | JNull \<Rightarrow> Some [] | JStr s \<Rightarrow> Some s | _ \<Rightarrow> None)"

definition decode_struct :: "js \<Rightarrow> js option" where
  "decode_struct v = (case v of JUndef \<Rightarrow> Some (JObj []) | JNull \<Rightarrow> Some (JObj []) | JObj ps \<Rightarrow> Some v | _ \<Rightarrow> None)"

text \<open>\<open>json.Unmarshal\<close> of a raw message that may be missing: a missing one is an error.\<close>

definition unmarshal_struct :: "js \<Rightarrow> js option" where
  "unmarshal_struct v = (if v = JUndef then None else decode_struct v)"

definition opt_bind2 :: "'a option \<Rightarrow> ('a \<Rightarrow> 'b option) \<Rightarrow> 'b option" where
  "opt_bind2 x f = (case x of None \<Rightarrow> None | Some y \<Rightarrow> f y)"

fun firstNonEmpty :: "jsstring list \<Rightarrow> jsstring" where
  "firstNonEmpty [] = []"
| "firstNonEmpty (v # vs) = (if v \<noteq> [] then v else firstNonEmpty vs)"

text \<open>\<open>strconv.Itoa(n)\<close> of what \<open>strconv.Atoi\<close> accepts.\<close>

definition trimJSONString :: "jsstring \<Rightarrow> jsstring" where
  "trimJSONString s =
     (if length s \<ge> 2 \<and> hd s = 0x22 \<and> last s = 0x22 then take (length s - 2) (drop 1 s)
      else (case ParseInt s of Some n \<Rightarrow> show_int n | None \<Rightarrow> s))"

text \<open>\<open>extractSessionID\<close>: the first of three places; nothing when one of them has another type.\<close>

definition extractSessionID :: "js \<Rightarrow> jsstring" where
  "extractSessionID ps = opt_default
     (opt_bind2 (unmarshal_struct ps) (\<lambda>p.
      opt_bind2 (decode_struct (field p ''_meta'')) (\<lambda>meta.
      opt_bind2 (decode_string (field meta ''threadId'')) (\<lambda>a.
      opt_bind2 (decode_string (field p ''session_id'')) (\<lambda>b.
      opt_bind2 (decode_struct (field p ''arguments'')) (\<lambda>arg.
      opt_bind2 (decode_string (field arg ''threadId'')) (\<lambda>c.
        Some (firstNonEmpty [a, b, c])))))))) []"

definition extractThreadIDFromResult :: "js \<Rightarrow> jsstring" where
  "extractThreadIDFromResult r = opt_default
     (opt_bind2 (unmarshal_struct r) (\<lambda>p.
      opt_bind2 (decode_struct (field p ''structuredContent'')) (\<lambda>sc.
        decode_string (field sc ''threadId'')))) []"

record codex_params =
  cp_threadId :: jsstring
  cp_requestId :: js
  cp_id :: jsstring
  cp_type :: jsstring
  cp_sessionId :: jsstring
  cp_callId :: jsstring

definition decode_codex :: "js \<Rightarrow> codex_params option" where
  "decode_codex ps =
     opt_bind2 (unmarshal_struct ps) (\<lambda>p.
     opt_bind2 (decode_struct (field p ''_meta'')) (\<lambda>meta.
     opt_bind2 (decode_string (field meta ''threadId'')) (\<lambda>t.
     opt_bind2 (decode_string (field p ''id'')) (\<lambda>i.
     opt_bind2 (decode_struct (field p ''msg'')) (\<lambda>msg.
     opt_bind2 (decode_string (field msg ''type'')) (\<lambda>ty.
     opt_bind2 (decode_string (field msg ''session_id'')) (\<lambda>s.
     opt_bind2 (decode_string (field msg ''call_id'')) (\<lambda>c.
       Some \<lparr>cp_threadId = t, cp_requestId = field meta ''requestId'', cp_id = i, cp_type = ty,
             cp_sessionId = s, cp_callId = c\<rparr>))))))))"

definition command_event_types :: "string list" where
  "command_event_types =
     [''exec_command_begin'', ''exec_command_output_delta'', ''exec_command_end'', ''exec_approval_request'']"

definition tool_event_types :: "string list" where
  "tool_event_types = [''mcp_tool_call_begin'', ''mcp_tool_call_end'']"

text \<open>\<open>classifyCodexEvent\<close>.\<close>

definition classifyCodexEvent :: "(js \<Rightarrow> jsstring) \<Rightarrow> js \<Rightarrow> ingest_event \<Rightarrow> ingest_event" where
  "classifyCodexEvent raw_text ps env =
     (let env = env\<lparr>in_category := jstr ''codex_event''\<rparr> in
      case decode_codex ps of
        None \<Rightarrow> env\<lparr>in_event_type := jstr ''codex/event''\<rparr>
      | Some p \<Rightarrow>
          let tool = cp_callId p \<noteq> [] \<and> cp_type p \<in> set (map jstr tool_event_types) in
          env\<lparr>in_event_type := (if cp_type p = [] then jstr ''codex/event'' else cp_type p),
              in_session_id := firstNonEmpty [cp_threadId p, cp_sessionId p],
              in_request_id := (if cp_requestId p \<noteq> JUndef then trimJSONString (raw_text (cp_requestId p))
                                else in_request_id env),
              in_turn_id := (if cp_id p \<noteq> [] then cp_id p else in_turn_id env),
              in_command_call_id := (if cp_callId p = [] then in_command_call_id env
                else if cp_type p \<in> set (map jstr command_event_types) then cp_callId p
                else if tool then in_command_call_id env else cp_callId p),
              in_tool_call_id := (if tool then cp_callId p else in_tool_call_id env)\<rparr>)"

text \<open>\<open>Normalize\<close>; the time of the call and the payload are given.\<close>

definition Normalize ::
    "(js \<Rightarrow> jsstring) \<Rightarrow> jsstring \<Rightarrow> string \<Rightarrow> js option \<Rightarrow> ingest_event" where
  "Normalize raw_text now dir frame =
     (let env = \<lparr>in_event_id = [], in_proxy_instance_id = [], in_client_source_key = [],
          in_session_id = [], in_turn_id = [], in_request_id = [],
          in_direction = NormalizeDirection dir, in_category = jstr ''raw_frame'',
          in_event_type = jstr ''raw_frame'', in_command_call_id = [], in_tool_call_id = [],
          in_timestamp = now, in_payload = opt_default frame JUndef\<rparr>
      in case opt_bind2 frame decode_struct of
           None \<Rightarrow> env
         | Some msg \<Rightarrow>
             let meth = opt_default (decode_string (field msg ''method'')) [] in
             if meth = jstr ''codex/event'' then classifyCodexEvent raw_text (field msg ''params'') env
             else
               let env = (if meth \<noteq> [] then env\<lparr>in_event_type := meth, in_category := jstr ''jsonrpc_request''\<rparr>
                     else if has_field msg ''result''
                     then env\<lparr>in_event_type := jstr ''response'', in_category := jstr ''response'',
                              in_session_id := extractThreadIDFromResult (field msg ''result'')\<rparr>
                     else if has_field msg ''error''
                     then env\<lparr>in_event_type := jstr ''error'', in_category := jstr ''error''\<rparr>
                     else env);
                   env = (if has_field msg ''id''
                     then env\<lparr>in_request_id := trimJSONString (raw_text (field msg ''id''))\<rparr> else env);
                   sid = extractSessionID (field msg ''params'')
               in if has_field msg ''params'' \<and> sid \<noteq> [] then env\<lparr>in_session_id := sid\<rparr> else env)"

text \<open>\<open>OnFrame\<close> of the observer adds who it is.\<close>

definition OnFrame ::
    "(js \<Rightarrow> jsstring) \<Rightarrow> jsstring \<Rightarrow> jsstring \<Rightarrow> jsstring \<Rightarrow> string \<Rightarrow> js option \<Rightarrow> ingest_event" where
  "OnFrame raw_text now instance sourceKey dir frame =
     (Normalize raw_text now dir frame)\<lparr>in_proxy_instance_id := instance, in_client_source_key := sourceKey\<rparr>"

lemma payload_classify [simp]: "in_payload (classifyCodexEvent raw_text ps env) = in_payload env"
  by (simp add: classifyCodexEvent_def Let_def split: option.splits)

text \<open>Whatever the classification, the frame itself is the payload.\<close>

lemma payload_OnFrame [simp]:
  "in_payload (OnFrame raw_text now inst key dir frame) = opt_default frame JUndef"
  by (simp add: OnFrame_def Normalize_def Let_def split: option.splits)

subsection \<open>The key of a client\<close>

record fingerprint =
  fp_ProtocolVersion :: jsstring
  fp_ClientName :: jsstring
  fp_ClientVersion :: jsstring
  fp_CapabilitiesJSON :: jsstring

text \<open>\<open>hex.EncodeToString\<close>; \<open>sha256\<close> is the digest of a text.\<close>

definition hex_unit :: "nat \<Rightarrow> code_unit" where
  "hex_unit n = of_nat (if n < 10 then 48 + n else 87 + n)"

definition hex_encode :: "8 word list \<Rightarrow> jsstring" where
  "hex_encode bs = concat (map (\<lambda>b. [hex_unit (unat b div 16), hex_unit (unat b mod 16)]) bs)"

definition DeriveClientSourceKey :: "(jsstring \<Rightarrow> 8 word list) \<Rightarrow> int \<Rightarrow> fingerprint \<Rightarrow> jsstring" where
  "DeriveClientSourceKey sha256 cpid fp =
     (let name = (if trim (fp_ClientName fp) = [] then jstr ''unknown-client'' else trim (fp_ClientName fp));
          short = take 8 (hex_encode (sha256 (join [0x7C] [fp_ProtocolVersion fp, fp_ClientName fp,
                    fp_ClientVersion fp, fp_CapabilitiesJSON fp])))
      in name @ jstr ''|pid-'' @ show_int cpid @ jstr ''|'' @ short)"

lemma bars_show_int [simp]: "bars (show_int i) = 0"
  using show_int_no_bar [of i] by (auto simp: bars_def filter_empty_conv)

lemma bars_subset: "set s \<subseteq> set t \<Longrightarrow> bars t = 0 \<Longrightarrow> bars s = 0"
  by (fastforce simp: bars_def filter_empty_conv)

lemma hex_unit_bar: "n < 16 \<Longrightarrow> hex_unit n \<noteq> 0x7C"
proof -
  assume "n < 16"
  then have "unat (hex_unit n) = (if n < 10 then 48 + n else 87 + n)"
    by (simp add: hex_unit_def unat_of_nat take_bit_eq_mod)
  then show ?thesis using \<open>n < 16\<close> by (auto split: if_splits)
qed

lemma bars_hex_encode: "bars (hex_encode bs) = 0"
proof (induction bs)
  case (Cons b bs)
  have "unat b < 256" using unsigned_less [of b] by simp
  then have "unat b div 16 < 16" by (simp add: less_mult_imp_div_less)
  with Cons show ?case by (simp add: hex_encode_def hex_unit_bar)
qed (simp add: hex_encode_def)

text \<open>A derived key has two bars and those of the client's name.\<close>

lemma bars_derived:
  assumes "bars (fp_ClientName fp) = 0"
  shows "bars (DeriveClientSourceKey sha256 cpid fp) = 2"
proof -
  have "set (trim s) \<subseteq> set s" for s :: jsstring
    unfolding trim_def using set_dropWhileD by (metis set_rev subsetI)
  from bars_subset [OF this assms] have "bars (trim (fp_ClientName fp)) = 0" .
  moreover from bars_subset [OF set_take_subset bars_hex_encode] have "bars (take n (hex_encode bs)) = 0" for n bs .
  ultimately show ?thesis
    by (simp add: DeriveClientSourceKey_def Let_def jstr_def unit_of_char_def)
qed

subsection \<open>Properties\<close>

text \<open>The key of the sessions query identifies the sources: for sources whose keys the proxies derived
  from client names without a bar (the proxy gives none), two lists of sources have the same query
  key exactly when they name the same keys in the same order; so the cache never answers a list of
  sources with the sessions of another.\<close>

theorem sessions_query_identifies_sources:
  assumes "list_all (\<lambda>s. \<exists>cpid fp. cs_source_key s = DeriveClientSourceKey sha256 cpid fp
    \<and> 0x7C \<notin> set (fp_ClientName fp)) (xs @ ys)"
  shows "fst (sessions_query xs) = fst (sessions_query ys) \<longleftrightarrow> map cs_source_key xs = map cs_source_key ys"
proof -
  have two: "bars k = 2" if "k \<in> set (map cs_source_key xs) \<union> set (map cs_source_key ys)" for k
  proof -
    from that obtain s where "s \<in> set (xs @ ys)" "k = cs_source_key s" by auto
    with assms obtain cpid fp where "k = DeriveClientSourceKey sha256 cpid fp" "0x7C \<notin> set (fp_ClientName fp)"
      unfolding list_all_iff by blast
    moreover from this(2) have "bars (fp_ClientName fp) = 0" by (auto simp: bars_def filter_empty_conv)
    ultimately show ?thesis by (simp add: bars_derived)
  qed
  then have "[] \<notin> set (map cs_source_key xs) \<union> set (map cs_source_key ys)"
    using two [of "[]"] by auto
  with two join_bar_inject [of "map cs_source_key xs" "map cs_source_key ys" 2] show ?thesis
    by (auto simp: sessions_query_def sourceKeysFingerprint_def jstr_def unit_of_char_def)
qed

lemma sessions_query_identifies_sources_witness:
  "fst (sessions_query [(sample_source ''a'')\<lparr>cs_source_key := DeriveClientSourceKey (\<lambda>_. [1, 2, 3, 4]) 7
       \<lparr>fp_ProtocolVersion = [], fp_ClientName = [], fp_ClientVersion = [], fp_CapabilitiesJSON = []\<rparr>\<rparr>])
   \<noteq> fst (sessions_query [])"
proof -
  let ?s = "(sample_source ''a'')\<lparr>cs_source_key := DeriveClientSourceKey (\<lambda>_. [1, 2, 3, 4]) 7
    \<lparr>fp_ProtocolVersion = [], fp_ClientName = [], fp_ClientVersion = [], fp_CapabilitiesJSON = []\<rparr>\<rparr>"
  have "list_all (\<lambda>s. \<exists>cpid fp. cs_source_key s = DeriveClientSourceKey (\<lambda>_. [1, 2, 3, 4]) cpid fp
      \<and> 0x7C \<notin> set (fp_ClientName fp)) ([?s] @ [])"
    by (auto intro!: exI [of _ 7] exI [of _ "\<lparr>fp_ProtocolVersion = [], fp_ClientName = [],
        fp_ClientVersion = [], fp_CapabilitiesJSON = []\<rparr>"])
  from sessions_query_identifies_sources [OF this] show ?thesis by simp
qed

subsection \<open>From the frame to the thread\<close>

lemma object_truthy: "is_object v \<Longrightarrow> truthy v"
  by (cases v) simp_all

lemma msgOf_notification:
  "is_object (payload e) \<Longrightarrow> is_object (field (payload e) ''params'') \<Longrightarrow>
   is_object (field (field (payload e) ''params'') ''msg'') \<Longrightarrow>
   msgOf e = field (field (payload e) ''params'') ''msg''"
  by (simp add: msgOf_def asRecord_def object_truthy Let_def)

text \<open>The message that the projection reads in a \<open>codex/event\<close> notification.\<close>

lemma codex_notification_msg:
  assumes "frame = JObj ps" and "decode_codex (field frame ''params'') = Some p"
    and "is_object (field (field frame ''params'') ''msg'')" and "payload e = frame"
  shows "msgOf e = field (field frame ''params'') ''msg''"
proof -
  have "is_object (field frame ''params'')"
    using assms(2,3) by (cases "field frame ''params''")
      (simp_all add: decode_codex_def opt_bind2_def unmarshal_struct_def decode_struct_def field_def)
  moreover have "is_object frame" using assms(1) by simp
  ultimately show ?thesis using msgOf_notification [of e] assms(3) by (simp add: assms(4))
qed

lemma OnFrame_named:
  "in_category (OnFrame raw_text time inst key dir frame) \<noteq> []"
  "in_direction (OnFrame raw_text time inst key dir frame) \<noteq> []"
  by (simp_all add: OnFrame_def Normalize_def classifyCodexEvent_def NormalizeDirection_def Let_def jstr_def
      split: option.split)

lemma OnFrame_codex:
  assumes "frame = JObj ps" and "field frame ''method'' = JStr (jstr ''codex/event'')"
    and "decode_codex (field frame ''params'') = Some p"
  shows "in_category (OnFrame raw_text time inst key dir (Some frame)) = jstr ''codex_event''"
    and "in_session_id (OnFrame raw_text time inst key dir (Some frame)) = firstNonEmpty [cp_threadId p, cp_sessionId p]"
    and "in_event_type (OnFrame raw_text time inst key dir (Some frame))
      = (if cp_type p = [] then jstr ''codex/event'' else cp_type p)"
    and "in_payload (OnFrame raw_text time inst key dir (Some frame)) = frame"
  using assms by (simp_all add: OnFrame_def Normalize_def classifyCodexEvent_def opt_bind2_def decode_struct_def
      decode_string_def Let_def)

text \<open>A \<open>codex/event\<close> notification the proxy observes is stored by the hub in
  the thread its metadata names, is live with the same record as the history returns, is not one of
  the ignored events, keeps the type of its message, and the projection reads exactly its message.\<close>

lemma codex_event_reaches_its_thread:
  assumes "frame = JObj ps" and "field frame ''method'' = JStr (jstr ''codex/event'')"
    and "decode_codex (field frame ''params'') = Some p" and "cp_threadId p \<noteq> []"
    and "is_object (field (field frame ''params'') ''msg'')"
    and "eventsHandler parse fmt hex now (OnFrame raw_text time inst key dir (Some frame)) rows = (Inr b, rows')"
    and "now \<noteq> 0"
  shows "\<exists>r. rows' = rows @ [r] \<and> r \<in> set (session_rows rows' (cp_threadId p))
    \<and> row_dto fmt r = wire_event b \<and> \<not> ignored (row_dto fmt r)
    \<and> event_type (row_dto fmt r) = Some (if cp_type p = [] then jstr ''codex/event'' else cp_type p)
    \<and> msgOf (row_dto fmt r) = field (field frame ''params'') ''msg''"
proof -
  note env = OnFrame_codex [OF assms(1-3)]
  obtain r where r: "rows' = rows @ [r]" "row_dto fmt r = wire_event b"
    using handler_agrees [OF assms(6,7) OnFrame_named] by blast
  let ?body = "OnFrame raw_text time inst key dir (Some frame)"
  from assms(6) have b: "be_session_id b = in_session_id ?body" "be_category b = in_category ?body"
      "be_event_type b = in_event_type ?body" "be_payload b = in_payload ?body"
    by (auto simp: eventsHandler_def broker_event_of_def ingest_record_def Let_def
        split: prod.splits sum.splits)
  have s: "thread_id (wire_event b) = Some (cp_threadId p)"
    using assms(4) by (simp add: wire_event_def b(1) env(2) nullString_def)
  then have "r_session_id r = Some (cp_threadId p)"
    unfolding r(2) [symmetric]
    by (cases "r_session_id r")
      (simp_all add: row_dto_def toEventDTO_def eventRecordFromEventRow_def nullString_def split: if_splits)
  moreover have pay: "payload (row_dto fmt r) = frame" by (simp add: r(2) wire_event_def b(4) env(4))
  ultimately have "r \<in> set (session_rows rows' (cp_threadId p))"
    using r(1) assms(4) by (simp add: session_rows_def)
  moreover have "msgOf (row_dto fmt r) = field (field frame ''params'') ''msg''"
    by (rule codex_notification_msg [OF assms(1,3,5) pay])
  moreover have "category (row_dto fmt r) = jstr ''codex_event''"
    by (simp add: r(2) wire_event_def b(2) env(1))
  then have "\<not> ignored (row_dto fmt r)" by (simp add: ignored_def jstr_def)
  moreover have "event_type (row_dto fmt r) = Some (if cp_type p = [] then jstr ''codex/event'' else cp_type p)"
    by (simp add: r(2) wire_event_def b(3) env(3) nullString_def)
  ultimately show ?thesis using r by blast
qed

end
