(* ===== verification/Ui_Primitives.thy ===== *)
theory Ui_Primitives
  imports Conversation_View
begin

section \<open>The styled primitives\<close>

text \<open>
  The components of \<^verbatim>\<open>web/src/components/ui\<close>, which wrap an HTML element or a Radix primitive: each
  puts its own attributes and class names first and spreads the remaining properties over them. A
  wrapper is a function of its properties (\<open>className\<close> and the properties it takes apart among
  them), the handler in them and its children. \<open>clsx\<close>, \<open>twMerge\<close> and \<open>cva\<close> are parameters; refs
  are not modelled. \<open>expand\<close> replaces the wrappers in a tree of the views by what they render.
\<close>

record cva_config =
  cva_base :: string
  cva_variants :: "(string \<times> (string \<times> string) list) list"
  cva_defaults :: "(string \<times> string) list"

text \<open>\<open>cva\<close> takes a configuration, the chosen variants and the \<open>className\<close> of the call.\<close>

record ui_lib =
  clsx :: "jsstring option list \<Rightarrow> jsstring"
  twMerge :: "jsstring \<Rightarrow> jsstring"
  cva :: "cva_config \<Rightarrow> (string \<times> jsstring option) list \<Rightarrow> jsstring option \<Rightarrow> jsstring"

type_synonym props = "(string \<times> jsstring) list"
type_synonym wrapper = "props \<Rightarrow> ui_action option \<Rightarrow> node list \<Rightarrow> node"

definition cn :: "ui_lib \<Rightarrow> jsstring option list \<Rightarrow> jsstring" where
  "cn U inputs = twMerge U (clsx U inputs)"

text \<open>The properties that are left after some were taken apart.\<close>

definition without :: "string list \<Rightarrow> props \<Rightarrow> props" where
  "without ks p = filter (\<lambda>(k, v). k \<notin> set ks) p"

text \<open>\<open><tag own className=\{classes\} \{...rest\}>\<close>.\<close>

definition spread_over :: "string \<Rightarrow> props \<Rightarrow> jsstring \<Rightarrow> props \<Rightarrow> ui_action option \<Rightarrow> node list \<Rightarrow> node" where
  "spread_over t own classes rest h cs = El t (spread_then (own @ [(''className'', classes)]) rest) h cs"

definition styled :: "ui_lib \<Rightarrow> string \<Rightarrow> props \<Rightarrow> string \<Rightarrow> wrapper" where
  "styled U t own base p h cs =
     spread_over t own (cn U [Some (jstr base), map_of p ''className'']) (without [''className''] p) h cs"

subsection \<open>Alert, badge, button\<close>

definition alertVariants :: cva_config where
  "alertVariants = \<lparr>cva_base = ''relative grid w-full grid-cols-[0_1fr] items-start gap-y-0.5 rounded-lg border px-4 py-3 text-sm has-[>svg]:grid-cols-[calc(var(--spacing)*4)_1fr] has-[>svg]:gap-x-3 [&>svg]:size-4 [&>svg]:translate-y-0.5 [&>svg]:text-current'',
     cva_variants = [(''variant'',
       [(''default'', ''bg-card text-card-foreground''),
        (''destructive'', ''bg-card text-destructive *:data-[slot=alert-description]:text-destructive/90 [&>svg]:text-current'')])],
     cva_defaults = [(''variant'', ''default'')]\<rparr>"

definition Alert :: "ui_lib \<Rightarrow> wrapper" where
  "Alert U p h cs = spread_over ''div'' [(''data-slot'', jstr ''alert''), (''role'', jstr ''alert'')]
     (cn U [Some (cva U alertVariants [(''variant'', map_of p ''variant'')] None), map_of p ''className''])
     (without [''className'', ''variant''] p) h cs"

definition AlertTitle :: "ui_lib \<Rightarrow> wrapper" where
  "AlertTitle U = styled U ''div'' [(''data-slot'', jstr ''alert-title'')]
     ''col-start-2 line-clamp-1 min-h-4 font-medium tracking-tight''"

definition AlertDescription :: "ui_lib \<Rightarrow> wrapper" where
  "AlertDescription U = styled U ''div'' [(''data-slot'', jstr ''alert-description'')]
     ''col-start-2 grid justify-items-start gap-1 text-sm text-muted-foreground [&_p]:leading-relaxed''"

definition badgeVariants :: cva_config where
  "badgeVariants = \<lparr>cva_base = ''inline-flex items-center rounded-md border px-2 py-0.5 text-xs font-medium transition-colors focus:outline-none focus:ring-2 focus:ring-ring focus:ring-offset-2'',
     cva_variants = [(''variant'',
       [(''default'', ''border-transparent bg-primary text-primary-foreground shadow''),
        (''secondary'', ''border-transparent bg-secondary text-secondary-foreground''),
        (''destructive'', ''border-transparent bg-destructive text-destructive-foreground shadow''),
        (''outline'', ''text-foreground'')])],
     cva_defaults = [(''variant'', ''default'')]\<rparr>"

definition Badge :: "ui_lib \<Rightarrow> wrapper" where
  "Badge U p h cs = spread_over ''div'' []
     (cn U [Some (cva U badgeVariants [(''variant'', map_of p ''variant'')] None), map_of p ''className''])
     (without [''className'', ''variant''] p) h cs"

definition buttonVariants :: cva_config where
  "buttonVariants = \<lparr>cva_base = ''inline-flex items-center justify-center gap-2 whitespace-nowrap rounded-md text-sm font-medium transition-colors focus-visible:outline-none focus-visible:ring-1 focus-visible:ring-ring disabled:pointer-events-none disabled:opacity-50 [&_svg]:pointer-events-none [&_svg]:size-4 [&_svg]:shrink-0'',
     cva_variants =
       [(''variant'',
         [(''default'', ''bg-primary text-primary-foreground shadow hover:bg-primary/90''),
          (''destructive'', ''bg-destructive text-destructive-foreground shadow-sm hover:bg-destructive/90''),
          (''outline'', ''border border-input bg-background shadow-sm hover:bg-accent hover:text-accent-foreground''),
          (''secondary'', ''bg-secondary text-secondary-foreground shadow-sm hover:bg-secondary/80''),
          (''ghost'', ''hover:bg-accent hover:text-accent-foreground''),
          (''link'', ''text-primary underline-offset-4 hover:underline'')]),
        (''size'',
         [(''default'', ''h-9 px-4 py-2''), (''sm'', ''h-8 rounded-md px-3 text-xs''),
          (''lg'', ''h-10 rounded-md px-8''), (''icon'', ''h-9 w-9'')])],
     cva_defaults = [(''variant'', ''default''), (''size'', ''default'')]\<rparr>"

text \<open>\<open>asChild\<close> is set by any value but \<open>false\<close>; then the slot of Radix takes the place of the button.\<close>

definition Button :: "ui_lib \<Rightarrow> wrapper" where
  "Button U p h cs =
     spread_over (if map_of p ''asChild'' \<in> {None, Some (bool_text False)} then ''button'' else ''Slot'') []
       (cn U [Some (cva U buttonVariants [(''variant'', map_of p ''variant''), (''size'', map_of p ''size'')]
          (map_of p ''className''))])
       (without [''className'', ''variant'', ''size'', ''asChild''] p) h cs"

subsection \<open>Card, collapsible\<close>

definition Card :: "ui_lib \<Rightarrow> wrapper" where
  "Card U = styled U ''div'' [] ''rounded-xl border bg-card text-card-foreground shadow''"

definition CardHeader :: "ui_lib \<Rightarrow> wrapper" where
  "CardHeader U = styled U ''div'' [] ''flex flex-col space-y-1.5 p-6''"

definition CardTitle :: "ui_lib \<Rightarrow> wrapper" where
  "CardTitle U = styled U ''div'' [] ''font-semibold leading-none tracking-tight''"

definition CardDescription :: "ui_lib \<Rightarrow> wrapper" where
  "CardDescription U = styled U ''div'' [] ''text-sm text-muted-foreground''"

definition CardContent :: "ui_lib \<Rightarrow> wrapper" where
  "CardContent U = styled U ''div'' [] ''p-6 pt-0''"

definition CardFooter :: "ui_lib \<Rightarrow> wrapper" where
  "CardFooter U = styled U ''div'' [] ''flex items-center p-6 pt-0''"

text \<open>A primitive that only gets a slot name.\<close>

definition slotted :: "string \<Rightarrow> string \<Rightarrow> wrapper" where
  "slotted t slot p h cs = El t (spread_then [(''data-slot'', jstr slot)] p) h cs"

definition Collapsible :: wrapper where
  "Collapsible = slotted ''CollapsiblePrimitive.Root'' ''collapsible''"

definition CollapsibleTrigger :: wrapper where
  "CollapsibleTrigger = slotted ''CollapsiblePrimitive.CollapsibleTrigger'' ''collapsible-trigger''"

definition CollapsibleContent :: wrapper where
  "CollapsibleContent = slotted ''CollapsiblePrimitive.CollapsibleContent'' ''collapsible-content''"

subsection \<open>Scroll area, separator\<close>

text \<open>The children of the scroll bar are its thumb, whatever the properties say.\<close>

definition ScrollBar :: "ui_lib \<Rightarrow> wrapper" where
  "ScrollBar U p h cs =
     (let orientation = opt_default (map_of p ''orientation'') (jstr ''vertical'') in
      spread_over ''ScrollAreaPrimitive.ScrollAreaScrollbar'' [(''orientation'', orientation)]
        (cn U [Some (jstr ''flex touch-none select-none transition-colors''),
          (if orientation = jstr ''vertical'' then Some (jstr ''h-full w-2.5 border-l border-l-transparent p-px'') else None),
          (if orientation = jstr ''horizontal'' then Some (jstr ''h-2.5 flex-col border-t border-t-transparent p-px'') else None),
          map_of p ''className''])
        (without [''className'', ''orientation''] p) h
        [El ''ScrollAreaPrimitive.ScrollAreaThumb'' [(''className'', jstr ''relative flex-1 rounded-full bg-border'')] None []])"

definition ScrollArea :: "ui_lib \<Rightarrow> wrapper" where
  "ScrollArea U p h cs = styled U ''ScrollAreaPrimitive.Root'' [] ''relative overflow-hidden'' p h
     [El ''ScrollAreaPrimitive.Viewport'' [(''className'', jstr ''h-full w-full rounded-[inherit]'')] None cs,
      ScrollBar U [] None [], el ''ScrollAreaPrimitive.Corner'' []]"

definition Separator :: "ui_lib \<Rightarrow> wrapper" where
  "Separator U p h cs =
     (let orientation = opt_default (map_of p ''orientation'') (jstr ''horizontal'') in
      spread_over ''SeparatorPrimitive.Root''
        [(''decorative'', opt_default (map_of p ''decorative'') (bool_text True)), (''orientation'', orientation)]
        (cn U [Some (jstr ''shrink-0 bg-border''),
          Some (if orientation = jstr ''horizontal'' then jstr ''h-[1px] w-full'' else jstr ''h-full w-[1px]''),
          map_of p ''className''])
        (without [''className'', ''orientation'', ''decorative''] p) h cs)"

subsection \<open>Sheet\<close>

definition SheetOverlay :: "ui_lib \<Rightarrow> wrapper" where
  "SheetOverlay U = styled U ''SheetPrimitive.Overlay'' []
     ''fixed inset-0 z-50 bg-black/80 data-[state=open]:animate-in data-[state=closed]:animate-out data-[state=closed]:fade-out-0 data-[state=open]:fade-in-0''"

definition sheetVariants :: cva_config where
  "sheetVariants = \<lparr>cva_base = ''fixed z-50 gap-4 bg-background p-6 shadow-lg transition ease-in-out data-[state=open]:animate-in data-[state=closed]:animate-out data-[state=closed]:duration-300 data-[state=open]:duration-500'',
     cva_variants = [(''side'',
       [(''top'', ''inset-x-0 top-0 border-b data-[state=closed]:slide-out-to-top data-[state=open]:slide-in-from-top''),
        (''bottom'', ''inset-x-0 bottom-0 border-t data-[state=closed]:slide-out-to-bottom data-[state=open]:slide-in-from-bottom''),
        (''left'', ''inset-y-0 left-0 h-full w-3/4 border-r data-[state=closed]:slide-out-to-left data-[state=open]:slide-in-from-left sm:max-w-sm''),
        (''right'', ''inset-y-0 right-0 h-full w-3/4 border-l data-[state=closed]:slide-out-to-right data-[state=open]:slide-in-from-right sm:max-w-sm'')])],
     cva_defaults = [(''side'', ''right'')]\<rparr>"

definition SheetContent :: "ui_lib \<Rightarrow> wrapper" where
  "SheetContent U p h cs = el ''SheetPrimitive.Portal''
     [SheetOverlay U [] None [],
      spread_over ''SheetPrimitive.Content'' []
        (cn U [Some (cva U sheetVariants [(''side'', Some (opt_default (map_of p ''side'') (jstr ''right'')))] None),
          map_of p ''className''])
        (without [''className'', ''side''] p) h
        (cs @ [El ''SheetPrimitive.Close'' [(''className'', jstr ''absolute right-4 top-4 rounded-sm opacity-70 ring-offset-background transition-opacity hover:opacity-100 focus:outline-none focus:ring-2 focus:ring-ring focus:ring-offset-2'')] None
          [El ''X'' [(''className'', jstr ''h-4 w-4'')] None [],
           El ''span'' [(''className'', jstr ''sr-only'')] None [lit ''Close'']]])]"

definition SheetHeader :: "ui_lib \<Rightarrow> wrapper" where
  "SheetHeader U = styled U ''div'' [] ''flex flex-col space-y-2 text-center sm:text-left''"

definition SheetTitle :: "ui_lib \<Rightarrow> wrapper" where
  "SheetTitle U = styled U ''SheetPrimitive.Title'' [] ''text-lg font-semibold text-foreground''"

definition SheetDescription :: "ui_lib \<Rightarrow> wrapper" where
  "SheetDescription U = styled U ''SheetPrimitive.Description'' [] ''text-sm text-muted-foreground''"

subsection \<open>Table\<close>

definition Table :: "ui_lib \<Rightarrow> wrapper" where
  "Table U p h cs = El ''div'' [(''className'', jstr ''relative w-full overflow-auto'')] None
     [styled U ''table'' [] ''w-full caption-bottom text-sm'' p h cs]"

definition TableHeader :: "ui_lib \<Rightarrow> wrapper" where
  "TableHeader U = styled U ''thead'' [] ''[&_tr]:border-b''"

definition TableBody :: "ui_lib \<Rightarrow> wrapper" where
  "TableBody U = styled U ''tbody'' [] ''[&_tr:last-child]:border-0''"

definition TableRow :: "ui_lib \<Rightarrow> wrapper" where
  "TableRow U = styled U ''tr'' [] ''border-b transition-colors hover:bg-muted/50 data-[state=selected]:bg-muted''"

definition TableHead :: "ui_lib \<Rightarrow> wrapper" where
  "TableHead U = styled U ''th'' [] ''h-10 px-2 text-left align-middle font-medium text-muted-foreground [&:has([role=checkbox])]:pr-0''"

definition TableCell :: "ui_lib \<Rightarrow> wrapper" where
  "TableCell U = styled U ''td'' [] ''p-2 align-middle [&:has([role=checkbox])]:pr-0''"

subsection \<open>Tabs\<close>

definition TabsList :: "ui_lib \<Rightarrow> wrapper" where
  "TabsList U = styled U ''TabsPrimitive.List'' []
     ''inline-flex h-9 items-center justify-center rounded-lg bg-muted p-1 text-muted-foreground''"

definition TabsTrigger :: "ui_lib \<Rightarrow> wrapper" where
  "TabsTrigger U = styled U ''TabsPrimitive.Trigger'' []
     ''inline-flex items-center justify-center whitespace-nowrap rounded-md px-3 py-1 text-sm font-medium ring-offset-background transition-all focus-visible:outline-none focus-visible:ring-2 focus-visible:ring-ring focus-visible:ring-offset-2 disabled:pointer-events-none disabled:opacity-50 data-[state=active]:bg-background data-[state=active]:text-foreground data-[state=active]:shadow''"

definition TabsContent :: "ui_lib \<Rightarrow> wrapper" where
  "TabsContent U = styled U ''TabsPrimitive.Content'' []
     ''mt-2 ring-offset-background focus-visible:outline-none focus-visible:ring-2 focus-visible:ring-ring focus-visible:ring-offset-2''"

subsection \<open>Expanding the wrappers\<close>

text \<open>The wrappers by name; the scroll bar and the sheet are below.\<close>

definition wrappers :: "ui_lib \<Rightarrow> (string \<times> wrapper) list" where
  "wrappers U =
     [(''Alert'', Alert U), (''AlertTitle'', AlertTitle U), (''AlertDescription'', AlertDescription U),
      (''Badge'', Badge U), (''Button'', Button U), (''Card'', Card U), (''CardHeader'', CardHeader U),
      (''CardTitle'', CardTitle U), (''CardDescription'', CardDescription U), (''CardContent'', CardContent U),
      (''CardFooter'', CardFooter U), (''Collapsible'', Collapsible), (''CollapsibleTrigger'', CollapsibleTrigger),
      (''CollapsibleContent'', CollapsibleContent), (''ScrollArea'', ScrollArea U), (''Separator'', Separator U),
      (''SheetOverlay'', SheetOverlay U), (''SheetHeader'', SheetHeader U), (''SheetTitle'', SheetTitle U),
      (''SheetDescription'', SheetDescription U), (''Table'', Table U), (''TableHeader'', TableHeader U),
      (''TableBody'', TableBody U), (''TableRow'', TableRow U), (''TableHead'', TableHead U),
      (''TableCell'', TableCell U), (''TabsList'', TabsList U), (''TabsTrigger'', TabsTrigger U),
      (''TabsContent'', TabsContent U)]"

text \<open>The properties of an element of a view: its key stays with React, its state-dependent class is
  a \<open>className\<close>.\<close>

definition props_of :: "props \<Rightarrow> props" where
  "props_of as = map (\<lambda>(k, v). (if k = ''class'' then ''className'' else k, v)) (without [''key''] as)"

fun expand :: "ui_lib \<Rightarrow> node \<Rightarrow> node" where
  "expand U (Txt s) = Txt s"
| "expand U (El t as h cs) = (case map_of (wrappers U) t of
     None \<Rightarrow> El t as h (map (expand U) cs)
   | Some w \<Rightarrow> (case map_of as ''key'' of
       None \<Rightarrow> w (props_of as) h (map (expand U) cs)
     | Some k \<Rightarrow> with_key k (w (props_of as) h (map (expand U) cs))))"

subsection \<open>What the reader gets\<close>

text \<open>The actions, the text and the attributes a reader or a test sees.\<close>

definition reader_attrs :: "string list" where
  "reader_attrs = [''aria-label'', ''aria-expanded'', ''aria-live'', ''aria-hidden'', ''title'', ''value'',
     ''type'', ''data-testid'', ''colSpan'', ''forceMount'']"

definition seen_attrs :: "props \<Rightarrow> props" where
  "seen_attrs p = filter (\<lambda>(k, v). k \<in> set reader_attrs) p"

definition acts :: "node \<Rightarrow> ui_action list" where
  "acts n = map fst (handlers n)"

fun marks :: "node \<Rightarrow> props" where
  "marks (El t as h cs) = seen_attrs as @ concat (map marks cs)"
| "marks (Txt s) = []"

lemma acts_El [simp]: "acts (El t as h cs) = (case h of None \<Rightarrow> [] | Some a \<Rightarrow> [a]) @ concat (map acts cs)"
  by (cases h) (simp_all add: acts_def handlers_in_def map_concat comp_def acts_def [abs_def])

lemma acts_Txt [simp]: "acts (Txt s) = []"
  by (simp add: acts_def)

lemma seen_attrs_append [simp]: "seen_attrs (p @ q) = seen_attrs p @ seen_attrs q"
  by (simp add: seen_attrs_def)

lemma seen_attrs_Cons [simp]:
  "seen_attrs [] = []" "seen_attrs ((k, v) # p) = (if k \<in> set reader_attrs then [(k, v)] else []) @ seen_attrs p"
  by (simp_all add: seen_attrs_def)

lemma seen_attrs_without [simp]: "set ks \<inter> set reader_attrs = {} \<Longrightarrow> seen_attrs (without ks p) = seen_attrs p"
  by (auto simp: seen_attrs_def without_def intro!: filter_cong)

lemma seen_attrs_spread [simp]: "seen_attrs own = [] \<Longrightarrow> seen_attrs (spread_then own p) = seen_attrs p"
  by (auto simp: spread_then_def seen_attrs_def filter_empty_conv)

lemma seen_attrs_props [simp]: "seen_attrs (props_of as) = seen_attrs as"
proof -
  have "seen_attrs (map (\<lambda>(k, v). (if k = ''class'' then ''className'' else k, v)) p) = seen_attrs p" for p
    by (induction p) (auto simp: reader_attrs_def)
  then show ?thesis by (simp add: props_of_def reader_attrs_def)
qed

text \<open>A wrapper that forwards its handler, its children and the attributes it is given.\<close>

definition forwards :: "wrapper \<Rightarrow> bool" where
  "forwards w \<longleftrightarrow> (\<forall>p h cs. let n = w p h cs; m = El [] p h cs in
     acts n = acts m \<and> text_content n = text_content m \<and> marks n = marks m)"

lemma forwards_styled [simp]: "seen_attrs own = [] \<Longrightarrow> forwards (styled U t own base)"
  by (simp add: forwards_def styled_def spread_over_def reader_attrs_def)

lemma forwards_slotted [simp]: "forwards (slotted t slot)"
  by (simp add: forwards_def slotted_def reader_attrs_def)

lemma forwards_wrappers: "(t, w) \<in> set (wrappers U) \<Longrightarrow> forwards w"
proof -
  have "forwards (Alert U)" "forwards (Badge U)" "forwards (Button U)" "forwards (Separator U)"
    "forwards (ScrollArea U)" "forwards (Table U)"
    by (simp_all add: forwards_def Alert_def Badge_def Button_def Separator_def ScrollArea_def ScrollBar_def
        Table_def styled_def spread_over_def reader_attrs_def Let_def)
  moreover have "seen_attrs [(''data-slot'', v)] = []" for v by (simp add: reader_attrs_def)
  ultimately have "list_all (\<lambda>x. forwards (snd x)) (wrappers U)"
    by (simp add: wrappers_def AlertTitle_def AlertDescription_def Card_def CardHeader_def
        CardTitle_def CardDescription_def CardContent_def CardFooter_def Collapsible_def CollapsibleTrigger_def
        CollapsibleContent_def SheetOverlay_def SheetHeader_def SheetTitle_def SheetDescription_def
        TableHeader_def TableBody_def TableRow_def TableHead_def TableCell_def TabsList_def TabsTrigger_def
        TabsContent_def)
  then show "(t, w) \<in> set (wrappers U) \<Longrightarrow> forwards w" by (fastforce simp: list_all_iff)
qed

lemma seen_with_key [simp]:
  "acts (with_key k n) = acts n" "text_content (with_key k n) = text_content n" "marks (with_key k n) = marks n"
  by (cases n; simp add: reader_attrs_def)+

text \<open>The primitives add style only: replacing every styled wrapper in a rendered tree by the elements it
  stands for keeps what can be acted on, in order, the text, and the attributes a reader sees.\<close>

theorem expand_keeps_page:
  "acts (expand U n) = acts n \<and> text_content (expand U n) = text_content n \<and> marks (expand U n) = marks n"
proof (induction n)
  case (El t as h cs)
  have cs: "map acts (map (expand U) cs) = map acts cs"
    "map text_content (map (expand U) cs) = map text_content cs"
    "map marks (map (expand U) cs) = map marks cs"
    using El by simp_all
  show ?case
  proof (cases "map_of (wrappers U) t")
    case None
    with cs show ?thesis by (simp del: map_map map_eq_conv)
  next
    case (Some w)
    then have "forwards w" by (rule forwards_wrappers [OF map_of_SomeD])
    then have "acts (w p h ds) = acts (El [] p h ds)" "text_content (w p h ds) = text_content (El [] p h ds)"
      "marks (w p h ds) = marks (El [] p h ds)" for p ds
      by (simp_all add: forwards_def Let_def)
    with Some cs show ?thesis by (cases "map_of as ''key''") (simp_all del: map_map map_eq_conv)
  qed
qed simp

end
