(* ===== verification/App_Shell.thy ===== *)
theory App_Shell
  imports Ui_Primitives Workbench Hub_Store
begin

section \<open>The application and its requests\<close>

text \<open>
  \<^verbatim>\<open>web/src/App.tsx\<close>, \<^verbatim>\<open>main.tsx\<close> and \<^verbatim>\<open>lib/query-client.ts\<close>: the tree around the workbench and the
  options of its queries; and the calls of \<^verbatim>\<open>lib/api.ts\<close> with the URLs they fetch. The serialisation
  of \<open>URLSearchParams\<close> is a parameter; \<open>None\<close> is the \<open>URIError\<close> of \<open>encodeURIComponent\<close>.
\<close>

definition App :: "jsstring option \<Rightarrow> node \<Rightarrow> node" where
  "App err workbench = ErrorBoundary err (el ''QueryClientProvider'' [workbench])"

definition main_tree :: "node \<Rightarrow> node" where
  "main_tree app = el ''StrictMode'' [app]"

record query_options =
  staleTime :: nat
  refetchOnWindowFocus :: bool
  retry :: nat

definition queryClient :: query_options where
  "queryClient = \<lparr>staleTime = 5000, refetchOnWindowFocus = False, retry = 1\<rparr>"

subsection \<open>Requests\<close>

definition API_BASE :: jsstring where
  "API_BASE = jstr ''/api/v1''"

text \<open>The URL that \<open>getJSON\<close> fetches for a path.\<close>

definition api_url :: "jsstring \<Rightarrow> jsstring" where
  "api_url path = API_BASE @ path"

definition clientSources_path :: jsstring where
  "clientSources_path = jstr ''/client-sources''"

definition sessionsForSource_path :: "jsstring \<Rightarrow> jsstring option" where
  "sessionsForSource_path sourceKey =
     map_option (\<lambda>e. jstr ''/client-sources/'' @ e @ jstr ''/sessions'') (encodeURIComponent sourceKey)"

definition session_path :: "jsstring \<Rightarrow> jsstring option" where
  "session_path threadId = map_option (\<lambda>e. jstr ''/sessions/'' @ e) (encodeURIComponent threadId)"

definition eventsPage_path ::
    "((jsstring \<times> jsstring) list \<Rightarrow> jsstring) \<Rightarrow> jsstring \<Rightarrow> page_request \<Rightarrow> jsstring option" where
  "eventsPage_path qs_toString threadId req =
     (let qs = eventsPage_query req; suffix = (if length qs > 0 then jstr ''?'' @ qs_toString qs else []) in
      map_option (\<lambda>e. jstr ''/sessions/'' @ e @ jstr ''/events'' @ suffix) (encodeURIComponent threadId))"

text \<open>\<open>clientSources\<close> and \<open>sessionsForSource\<close> take the \<open>items\<close> of the response.\<close>

definition api_items :: "'a list http_response \<Rightarrow> jsstring + 'a list" where
  "api_items res = getJSON res"

definition sessionsForSource ::
    "(jsstring \<Rightarrow> session list http_response) \<Rightarrow> jsstring \<Rightarrow> jsstring + session list" where
  "sessionsForSource fetch sourceKey =
     (case sessionsForSource_path sourceKey of
        None \<Rightarrow> Inl (jstr ''URI malformed'')
      | Some path \<Rightarrow> api_items (fetch (api_url path)))"

subsection \<open>Facts about the encoding\<close>

lemma encoded_no_slash:
  assumes "list_all scalar ps" and "encodeURIComponent (js_of_points ps) = Some e"
  shows "0x2F \<notin> set e" and "decodeURIComponent e = Some (js_of_points ps)"
proof -
  from assms have e: "e = map word_of_nat (concat (map encode_point ps))"
    by (simp add: encode_js_of_points)
  then show "decodeURIComponent e = Some (js_of_points ps)" using decode_encode [OF assms(1)] by simp
  have digit: "hex_digit n \<noteq> 0x2F" for n by (simp add: hex_digit_def)
  have "0x2F \<notin> set (percent b)" for b using digit by (simp add: percent_def)
  then have "0x2F \<notin> set (concat (map percent bs))" for bs by simp
  moreover have "\<not> unreserved 0x2F" by (simp add: unreserved_def)
  ultimately have slash: "c \<noteq> 0x2F" if "c \<in> set (encode_point p)" for c p
    using that unfolding encode_point_def by (metis empty_iff empty_set set_ConsD)
  show "0x2F \<notin> set e"
  proof
    assume "0x2F \<in> set e"
    then obtain p c where p: "p \<in> set ps" "c \<in> set (encode_point p)" and c: "0x2F = (word_of_nat c :: code_unit)"
      by (auto simp: e)
    from p assms(1) encode_point_small [of p] have "c < 0x10000" by (auto simp: list_all_iff)
    with arg_cong [OF c, of unat] have "c = 0x2F" by (simp add: unat_of_nat)
    with slash [OF p(2)] show False by simp
  qed
qed

text \<open>Two texts up to the first slash.\<close>

lemma until_slash: "0x2F \<notin> set x \<Longrightarrow> 0x2F \<notin> set y \<Longrightarrow> x @ 0x2F # r = y @ 0x2F # s \<Longrightarrow> x = y"
  for x y :: jsstring
proof (induction x arbitrary: y)
  case Nil
  then show ?case by (cases y) auto
next
  case (Cons a x)
  then show ?case by (cases y) auto
qed

subsection \<open>Properties\<close>

text \<open>The requests of the dashboard name what they ask for: for well-formed identifiers no request
  raises, the URLs of two threads, of their event pages (whatever limit and cursor) and of the
  sessions of two sources differ, and an event page is never the URL of a thread.\<close>

theorem urls_identify_resources:
  assumes "list_all scalar ps" and "list_all scalar qs"
  shows "session_path (js_of_points ps) \<noteq> None
    \<and> (session_path (js_of_points ps) = session_path (js_of_points qs) \<longleftrightarrow> js_of_points ps = js_of_points qs)
    \<and> (eventsPage_path S (js_of_points ps) r = eventsPage_path S (js_of_points qs) r'
        \<longrightarrow> js_of_points ps = js_of_points qs)
    \<and> (sessionsForSource_path (js_of_points ps) = sessionsForSource_path (js_of_points qs)
        \<longleftrightarrow> js_of_points ps = js_of_points qs)
    \<and> session_path (js_of_points ps) \<noteq> eventsPage_path S (js_of_points qs) r"
proof -
  obtain e f where e: "encodeURIComponent (js_of_points ps) = Some e" and f: "encodeURIComponent (js_of_points qs) = Some f"
    using assms by (simp add: encode_js_of_points)
  note E = encoded_no_slash [OF assms(1) e] and F = encoded_no_slash [OF assms(2) f]
  have inj: "e = f \<longleftrightarrow> js_of_points ps = js_of_points qs"
    using E(2) F(2) e f by auto
  have slash: "jstr (CHR ''/'' # s) = 0x2F # jstr s" for s by (simp add: jstr_def unit_of_char_def)
  show ?thesis
  proof (intro conjI impI)
    show "session_path (js_of_points ps) \<noteq> None" by (simp add: session_path_def e)
    show "session_path (js_of_points ps) = session_path (js_of_points qs) \<longleftrightarrow> js_of_points ps = js_of_points qs"
      by (simp add: session_path_def e f inj)
    show "sessionsForSource_path (js_of_points ps) = sessionsForSource_path (js_of_points qs)
        \<longleftrightarrow> js_of_points ps = js_of_points qs"
      by (simp add: sessionsForSource_path_def e f inj)
    show "js_of_points ps = js_of_points qs"
      if "eventsPage_path S (js_of_points ps) r = eventsPage_path S (js_of_points qs) r'"
    proof -
      from that obtain x y where "e @ 0x2F # x = f @ 0x2F # y"
        by (auto simp: eventsPage_path_def e f slash Let_def)
      with until_slash [OF E(1) F(1)] inj show ?thesis by blast
    qed
    show "session_path (js_of_points ps) \<noteq> eventsPage_path S (js_of_points qs) r"
    proof
      assume "session_path (js_of_points ps) = eventsPage_path S (js_of_points qs) r"
      then obtain y where "e = f @ 0x2F # y"
        by (auto simp: session_path_def eventsPage_path_def e f slash Let_def)
      with E(1) show False by simp
    qed
  qed
qed

lemma urls_identify_resources_witness:
  "session_path (js_of_points [0x2F]) \<noteq> None
   \<and> session_path (js_of_points [0x2F]) \<noteq> session_path (js_of_points [0x25, 0x32, 0x46])
   \<and> session_path (js_of_points [0x2F]) \<noteq> eventsPage_path (\<lambda>_. []) (js_of_points [0x61]) \<lparr>req_limit = 500, req_cursor = None\<rparr>"
proof -
  have s: "list_all scalar [0x2F]" "list_all scalar [0x25, 0x32, 0x46]" "list_all scalar [0x61]"
    by (simp_all add: scalar_def)
  have "js_of_points [0x2F] \<noteq> js_of_points [0x25, 0x32, 0x46]"
    by (simp add: js_of_points_def utf16_units.simps)
  with urls_identify_resources [OF s(1) s(2)] urls_identify_resources [OF s(1) s(3)]
  show ?thesis by blast
qed

end
