(* ===== verification/Fixtures.thy ===== *)
theory Fixtures
  imports Workbench_View Thread_Selection
begin

section \<open>The fixtures\<close>

text \<open>
  The sample records of \<^verbatim>\<open>web/src/lib/fixtures.ts\<close> that the tests of the dashboard share, and what the
  model makes of them.
\<close>

definition fixtureClientSource :: client_source where
  "fixtureClientSource =
     \<lparr>cs_source_key = jstr ''claude-desktop-18244'', client_name = jstr ''Claude Desktop'', pid = 18244,
      protocol_version = Some (jstr ''2024-11-05''),
      executable = Some (jstr ''C:/Program Files/Claude/Claude.exe''), cs_cwd = Some (jstr ''C:/Users/demo''),
      cs_first_seen = jstr ''2026-04-12T12:00:00Z'', cs_last_seen = jstr ''2026-04-12T12:05:00Z'',
      session_count = 1\<rparr>"

definition fixtureSession :: session where
  "fixtureSession =
     \<lparr>s_thread_id = jstr ''thread-abc123'', s_source_key = cs_source_key fixtureClientSource, s_title = None,
      model = Some (jstr ''gpt-5.4''), s_cwd = Some (jstr ''C:/Users/demo/project''),
      approval_policy = Some (jstr ''on-request''), sandbox = Some (jstr ''workspace-write''),
      first_seen = jstr ''2026-04-12T12:00:05Z'', last_seen = jstr ''2026-04-12T12:04:59Z'',
      s_status = Some (jstr ''active'')\<rparr>"

text \<open>The properties that the events share.\<close>

definition fixture_event ::
    "string \<Rightarrow> string \<Rightarrow> string \<Rightarrow> string \<Rightarrow> string \<Rightarrow> string option \<Rightarrow> js \<Rightarrow> event_record" where
  "fixture_event eid time req turn ty call body =
     \<lparr>event_id = jstr eid, timestamp = jstr time, proxy_instance_id = jstr ''proxy-1'',
      source_key = cs_source_key fixtureClientSource, thread_id = Some (s_thread_id fixtureSession),
      turn_id = Some (jstr turn), request_id = Some (jstr req), direction = jstr ''codex_to_upstream'',
      category = jstr ''notification'', event_type = Some (jstr ty), command_call_id = map_option jstr call,
      tool_call_id = None, payload = body\<rparr>"

definition fixtureEvents :: "event_record list" where
  "fixtureEvents =
     [fixture_event ''evt-1'' ''2026-04-12T12:00:05Z'' ''req-1'' ''turn-1'' ''session_configured'' None
        (JObj [(jstr ''model'', JStr (jstr ''gpt-5.4''))]),
      fixture_event ''evt-2'' ''2026-04-12T12:00:10Z'' ''req-1'' ''turn-1'' ''session_configured'' None
        (JObj [(jstr ''model'', JStr (jstr ''gpt-5.4''))]),
      fixture_event ''evt-3'' ''2026-04-12T12:01:00Z'' ''req-2'' ''turn-2'' ''exec_command_begin'' (Some ''cmd-1'')
        (JObj [(jstr ''cmd'', JArr [JStr (jstr ''ls''), JStr (jstr ''-la'')])]),
      fixture_event ''evt-4'' ''2026-04-12T12:01:02Z'' ''req-2'' ''turn-2'' ''exec_command_output_delta'' (Some ''cmd-1'')
        (JObj [(jstr ''chunk'', JStr (jstr ''file1'' @ [0x0A] @ jstr ''file2'' @ [0x0A]))]),
      fixture_event ''evt-5'' ''2026-04-12T12:01:03Z'' ''req-2'' ''turn-2'' ''exec_command_end'' (Some ''cmd-1'')
        (JObj [(jstr ''exit_code'', JNum 0)]),
      fixture_event ''evt-6'' ''2026-04-12T12:04:59Z'' ''req-3'' ''turn-3'' ''turn_complete'' None
        (JObj [(jstr ''summary'', JStr (jstr ''done''))])]"

text \<open>The session of the fixtures is selected when its source lists it and the location has no hash.\<close>

lemma fixtures_selected:
  "resolveThreadSelection None [fixtureClientSource] [(cs_source_key fixtureClientSource, [fixtureSession])]
   = \<lparr>sel_threadId = Some (jstr ''thread-abc123''), shouldWriteHash = True\<rparr>"
  by (simp add: resolveThreadSelection_def truthy_id_def sessions_of_def map_get_def fixtureSession_def)

text \<open>Only the events of the selected thread are in the fixtures, each once.\<close>

lemma fixtures_tidy:
  "distinct (map event_id fixtureEvents)
   \<and> list_all (\<lambda>e. thread_id e = Some (s_thread_id fixtureSession)) fixtureEvents"
  by (simp add: fixtureEvents_def fixture_event_def)

end
