(* ===== verification/Time_Text.thy ===== *)
theory Time_Text
  imports Hub_Live History_Merge
begin

section \<open>The text of a time\<close>

text \<open>
  \<open>unixMillisToISO\<close> of \<^verbatim>\<open>internal/hub/http/query.go\<close> formats the time of an event with Go's layout
  \<open>RFC3339Nano\<close>, which leaves trailing zeros of the fraction out, and the dashboard orders events by
  comparing these texts. The text up to the second is a parameter.
\<close>

definition decimal_digit :: "nat \<Rightarrow> code_unit" where
  "decimal_digit d = 0x30 + word_of_nat d"

text \<open>The fraction of a second, given in milliseconds: at most three digits, without trailing zeros.\<close>

definition fraction :: "nat \<Rightarrow> jsstring" where
  "fraction ms =
     (let ds = rev (dropWhile (\<lambda>c. c = 0x30)
        (rev (map decimal_digit [ms div 100, ms div 10 mod 10, ms mod 10])))
      in if ds = [] then [] else 0x2E # ds)"

definition rfc3339Nano :: "(nat \<Rightarrow> jsstring) \<Rightarrow> 64 word \<Rightarrow> jsstring" where
  "rfc3339Nano seconds w =
     seconds (unat w div 1000) @ fraction (unat w mod 1000) @ [0x5A]"

subsection \<open>Fractions that start alike\<close>

lemma digit_cases: "d < 10 \<Longrightarrow> d \<in> {0, 1, 2, 3, 4, 5, 6, 7, 8, 9}" for d :: nat
  by auto

lemma decimal_digit_zero: "d < 10 \<Longrightarrow> decimal_digit d = 0x30 \<longleftrightarrow> d = 0"
  using digit_cases [of d] by (auto simp: decimal_digit_def)

lemma decimal_digit_less: "d < 10 \<Longrightarrow> decimal_digit d < 0x5A"
  using digit_cases [of d] by (auto simp: decimal_digit_def)

lemma fraction_digits:
  assumes "a < 10" and "b < 10" and "c < 10"
  shows "fraction (100 * a + 10 * b + c) =
    (if c \<noteq> 0 then [0x2E, decimal_digit a, decimal_digit b, decimal_digit c]
     else if b \<noteq> 0 then [0x2E, decimal_digit a, decimal_digit b]
     else if a \<noteq> 0 then [0x2E, decimal_digit a] else [])"
proof -
  have t: "(10 * n + d) div 10 = n" "(10 * n + d) mod 10 = d" if "d < 10" for n d :: nat
    using that by simp_all
  have e: "100 * a + 10 * b + c = 10 * (10 * a + b) + c" by simp
  have "(100 * a + 10 * b + c) div 10 = 10 * a + b" "(100 * a + 10 * b + c) mod 10 = c"
    unfolding e by (rule t [OF assms(3)])+
  moreover have "(100 * a + 10 * b + c) div 100 = (100 * a + 10 * b + c) div 10 div 10"
    using div_mult2_eq [of "100 * a + 10 * b + c" 10 10] by simp
  ultimately have "(100 * a + 10 * b + c) div 100 = a" "(100 * a + 10 * b + c) div 10 mod 10 = b"
    "(100 * a + 10 * b + c) mod 10 = c"
    by (simp_all only: t [OF assms(2)])
  then show ?thesis by (simp add: fraction_def decimal_digit_zero assms)
qed

lemma fraction_longer:
  assumes "a < 10" and "0 < r" and "r < 100"
  shows "\<exists>c x. c < 0x5A \<and> fraction (100 * a + r) = fraction (100 * a) @ c # x"
proof -
  obtain q t where r: "r = 10 * q + t" "q < 10" "t < 10"
  proof
    show "r = 10 * (r div 10) + r mod 10" by simp
    show "r div 10 < 10" using assms(3) by (simp add: less_mult_imp_div_less)
    show "r mod 10 < 10" by simp
  qed
  with assms(2) have "q \<noteq> 0 \<or> t \<noteq> 0" by auto
  moreover have "fraction (100 * a + r) = fraction (100 * a + 10 * q + t)" by (simp add: r(1) add.assoc)
  ultimately show ?thesis
    using fraction_digits [OF assms(1), of 0 0] decimal_digit_less [OF r(2)]
    by (auto simp: fraction_digits [OF assms(1) r(2,3)])
qed

lemma compare_units_prefix: "compare_units (p @ x) (p @ y) = compare_units x y"
  by (induction p) simp_all

lemma later_text_first:
  assumes "unat v = 1000 * s + 100 * a" and "unat w = 1000 * s + 100 * a + r"
    and "a < 10" and "0 < r" and "r < 100"
  shows "compare_units (rfc3339Nano seconds v) (rfc3339Nano seconds w) = 1"
proof -
  have "(1000 * s + k) div 1000 = s" "(1000 * s + k) mod 1000 = k" if "k < 1000" for k
    using that by simp_all
  from this [of "100 * a"] this [of "100 * a + r"] assms
  have "unat v div 1000 = s" "unat v mod 1000 = 100 * a" "unat w div 1000 = s" "unat w mod 1000 = 100 * a + r"
    by (simp_all add: add.assoc)
  moreover obtain c x where "c < 0x5A" "fraction (100 * a + r) = fraction (100 * a) @ c # x"
    using fraction_longer [OF assms(3-5)] by blast
  ultimately show ?thesis
    by (simp add: rfc3339Nano_def compare_units_prefix order.strict_implies_not_eq not_less_iff_gr_or_eq)
qed

text \<open>C37. Times are not ordered by their texts: of two stored events of one second, the first at a whole
  tenth of the second and the second less than a tenth later, the merge of the dashboard puts the
  later event first, for every such second, tenth and distance.\<close>

theorem later_event_first:
  assumes "unat (r_occurred_at r1) = 1000 * s + 100 * a" and "unat (r_occurred_at r2) = 1000 * s + 100 * a + k"
    and "a < 10" and "0 < k" and "k < 100" and "r_occurred_at r1 \<noteq> 0" and "r_event_id r1 \<noteq> r_event_id r2"
  shows "mergeSessionEvents compare_units [[row_dto (rfc3339Nano seconds) r1, row_dto (rfc3339Nano seconds) r2]]
    = [row_dto (rfc3339Nano seconds) r2, row_dto (rfc3339Nano seconds) r1]"
proof -
  let ?e = "row_dto (rfc3339Nano seconds)"
  have "r_occurred_at r2 \<noteq> 0" using assms(2,4) by auto
  then have "timestamp (?e r1) = rfc3339Nano seconds (r_occurred_at r1)"
    "timestamp (?e r2) = rfc3339Nano seconds (r_occurred_at r2)"
    using assms(6) by (simp_all add: row_dto_def toEventDTO_def eventRecordFromEventRow_def)
  with later_text_first [OF assms(1-5), of seconds]
  have "compareEvents compare_units (?e r1) (?e r2) = 1" by (simp add: compareEvents_def Let_def)
  with assms(7) show ?thesis
    by (simp add: mergeSessionEvents_def dedupe_step_def map_get_def map_put_def)
qed

definition sample_row :: "string \<Rightarrow> 64 word \<Rightarrow> event_row" where
  "sample_row i t = \<lparr>r_event_id = jstr i, r_proxy_instance_id = [], r_client_source_key = None,
     r_session_id = Some (jstr ''th''), r_turn_id = None, r_request_id = None, r_direction = jstr ''local'',
     r_event_type = jstr ''agent_message'', r_occurred_at = t, r_raw_json = JObj [], r_category = jstr ''codex_event'',
     r_command_call_id = None, r_tool_call_id = None\<rparr>"

text \<open>The events at 5.1 and 5.12 seconds, and at 5 and 5.05 seconds.\<close>

lemma later_event_first_witness:
  "map event_id (mergeSessionEvents compare_units
      [[row_dto (rfc3339Nano (\<lambda>_. [])) (sample_row ''e1'' 5100), row_dto (rfc3339Nano (\<lambda>_. [])) (sample_row ''e2'' 5120)]])
    = [jstr ''e2'', jstr ''e1'']
   \<and> map event_id (mergeSessionEvents compare_units
      [[row_dto (rfc3339Nano (\<lambda>_. [])) (sample_row ''e1'' 5000), row_dto (rfc3339Nano (\<lambda>_. [])) (sample_row ''e2'' 5050)]])
    = [jstr ''e2'', jstr ''e1'']"
  using later_event_first [of "sample_row ''e1'' 5100" 5 1 "sample_row ''e2'' 5120" 20 "\<lambda>_. []"]
    later_event_first [of "sample_row ''e1'' 5000" 5 0 "sample_row ''e2'' 5050" 50 "\<lambda>_. []"]
  by (simp add: sample_row_def)

end
