(* ===== verification/Proxy_Bridge.thy ===== *)
theory Proxy_Bridge
  imports Prelude "HOL-Library.Sublist"
begin

section \<open>The bridge between the client and Codex\<close>

text \<open>
  \<open>Bridge.Run\<close> and \<open>pump\<close> of \<^verbatim>\<open>internal/proxy/bridge.go\<close>, with what \<open>runProxyCmd\<close> of
  \<^verbatim>\<open>internal/cli/proxy_cmd.go\<close> does after it. Two goroutines copy lines, one from the client to Codex
  and one back; a line is observed before it is written. \<open>scan\<close> is \<open>bufio.Scanner\<close> with the buffer of
  the code. The client, Codex, the context and the outcome of every write are the environment of a
  step relation. Codex reads its input until it is closed, so it exits when its input was closed, when
  the context is cancelled (\<open>exec.CommandContext\<close> kills it), or by a crash.
\<close>

type_synonym octet = "8 word"

abbreviation "LF \<equiv> (0x0A :: octet)"
abbreviation "CR \<equiv> (0x0D :: octet)"

subsection \<open>Lines\<close>

definition max_frame :: nat where
  "max_frame = 4 * 1024 * 1024"

definition dropCR :: "octet list \<Rightarrow> octet list" where
  "dropCR l = (if l \<noteq> [] \<and> last l = CR then butlast l else l)"

text \<open>The lines of an input, and whether the scanner stops at one that does not fit into its buffer.\<close>

function scan :: "nat \<Rightarrow> octet list \<Rightarrow> octet list list \<times> bool" where
  "scan m bs =
     (if bs = [] then ([], False)
      else let l = takeWhile (\<lambda>b. b \<noteq> LF) bs in
        if m \<le> length l then ([], True)
        else (case dropWhile (\<lambda>b. b \<noteq> LF) bs of
                [] \<Rightarrow> ([dropCR l], False)
              | c # rest \<Rightarrow> (case scan m rest of (ls, e) \<Rightarrow> (dropCR l # ls, e))))"
  by pat_completeness auto

termination
proof (relation "measure (\<lambda>(m, bs). length bs)")
  fix m :: nat and bs l c rest
  assume "dropWhile (\<lambda>b. b \<noteq> LF) bs = c # rest"
  then have "length (c # rest) \<le> length bs" by (metis length_dropWhile_le)
  then show "((m, rest), (m, bs)) \<in> measure (\<lambda>(m, bs). length bs)" by simp
qed simp

declare scan.simps [simp del]

definition unlines :: "octet list list \<Rightarrow> octet list" where
  "unlines ls = concat (map (\<lambda>l. l @ [LF]) ls)"

lemma unlines_simps [simp]: "unlines [] = []" "unlines (l # ls) = l @ LF # unlines ls"
    "unlines (ls @ ms) = unlines ls @ unlines ms"
  by (simp_all add: unlines_def)

text \<open>A frame: JSON on one line, as both ends write it.\<close>

definition is_frame :: "nat \<Rightarrow> octet list \<Rightarrow> bool" where
  "is_frame m l \<longleftrightarrow> LF \<notin> set l \<and> length l < m \<and> dropCR l = l"

lemma scan_Nil [simp]: "scan m [] = ([], False)"
  by (simp add: scan.simps)

lemma scan_line:
  "LF \<notin> set l \<Longrightarrow> length l < m \<Longrightarrow>
   scan m (l @ LF # rest) = (case scan m rest of (ls, e) \<Rightarrow> (dropCR l # ls, e))"
proof -
  assume l: "LF \<notin> set l" "length l < m"
  then have "takeWhile (\<lambda>b. b \<noteq> LF) (l @ LF # rest) = l" "dropWhile (\<lambda>b. b \<noteq> LF) (l @ LF # rest) = LF # rest"
    by (simp_all add: takeWhile_tail dropWhile_append3) (induction l; simp)+
  with l(2) show ?thesis by (subst scan.simps) (simp add: Let_def)
qed

lemma scan_unlines: "list_all (is_frame m) ls \<Longrightarrow> scan m (unlines ls) = (ls, False)"
  by (induction ls) (simp_all add: scan_line is_frame_def)

text \<open>A line that is too long ends the scan, whatever follows it.\<close>

lemma scan_too_long:
  "list_all (is_frame m) ls \<Longrightarrow> LF \<notin> set l \<Longrightarrow> m \<le> length l \<Longrightarrow> l \<noteq> [] \<Longrightarrow>
   scan m (unlines ls @ l @ rest) = (ls, True)"
proof (induction ls)
  case Nil
  then have "takeWhile (\<lambda>b. b \<noteq> LF) (l @ rest) = l @ takeWhile (\<lambda>b. b \<noteq> LF) rest"
    by (intro takeWhile_append2) auto
  with Nil show ?case by (subst scan.simps) (simp add: Let_def)
qed (simp_all add: scan_line is_frame_def)

subsection \<open>The two pumps and their environment\<close>

text \<open>Lines read from the client and from Codex; the code calls the directions "upstream" and "downstream".\<close>

datatype flow = FromClient | FromCodex

lemma all_flow: "(\<forall>d. P d) \<longleftrightarrow> P FromClient \<and> P FromCodex"
  by (metis flow.exhaust)

lemma ex_flow: "(\<exists>d. P d) \<longleftrightarrow> P FromClient \<or> P FromCodex"
  by (metis flow.exhaust)

instantiation flow :: enum
begin

definition enum_flow :: "flow list" where "enum_flow = [FromClient, FromCodex]"
definition enum_all_flow :: "(flow \<Rightarrow> bool) \<Rightarrow> bool" where "enum_all_flow P \<longleftrightarrow> P FromClient \<and> P FromCodex"
definition enum_ex_flow :: "(flow \<Rightarrow> bool) \<Rightarrow> bool" where "enum_ex_flow P \<longleftrightarrow> P FromClient \<or> P FromCodex"

instance
  by standard (auto simp: enum_flow_def enum_all_flow_def enum_ex_flow_def all_flow ex_flow intro: flow.exhaust)

end

datatype input = Line "octet list" | TooLongLine

definition inputs_of :: "octet list \<Rightarrow> input list" where
  "inputs_of bs = (case scan max_frame bs of (ls, e) \<Rightarrow> map Line ls @ (if e then [TooLongLine] else []))"

text \<open>How a pump ends: the end of its input (a nil error), the cancelled context, a failed write, or
  \<open>bufio.ErrTooLong\<close>.\<close>

datatype pump_end = PumpEof | PumpCanceled | PumpWriteError | PumpTooLong

record pump =
  pm_input :: "input list"
  pm_closed :: bool
  pm_written :: "octet list"
  pm_end :: "pump_end option"

record bridge =
  br_pumps :: "flow \<Rightarrow> pump"
  br_seen :: "(flow \<times> octet list) list"
  br_cancelled :: bool
  br_codex :: bool
  br_stdin_closed :: bool
  br_errCh :: "pump_end list"
  br_returned :: "pump_end option option"

definition NewBridge :: bridge where
  "NewBridge = \<lparr>br_pumps = \<lambda>d. \<lparr>pm_input = [], pm_closed = False, pm_written = [], pm_end = None\<rparr>, br_seen = [],
     br_cancelled = False, br_codex = True, br_stdin_closed = False, br_errCh = [], br_returned = None\<rparr>"

abbreviation set_pump :: "flow \<Rightarrow> pump \<Rightarrow> bridge \<Rightarrow> bridge" where
  "set_pump d p b \<equiv> b\<lparr>br_pumps := (br_pumps b)(d := p)\<rparr>"

definition pump_ends :: "flow \<Rightarrow> pump_end \<Rightarrow> pump \<Rightarrow> bridge \<Rightarrow> bridge" where
  "pump_ends d e p b = (set_pump d (p\<lparr>pm_end := Some e\<rparr>) b)\<lparr>br_errCh := br_errCh b @ [e]\<rparr>"

text \<open>One iteration of the loop of \<open>pump\<close>, \<open>None\<close> when the goroutine has ended or waits for input. The write
  gets all bytes through, or fails after some. A process that has exited reads nothing.\<close>

definition pump_iteration :: "flow \<Rightarrow> nat option \<Rightarrow> bridge \<Rightarrow> bridge option" where
  "pump_iteration d failure b = (let p = br_pumps b d in
     if pm_end p \<noteq> None then None
     else (case pm_input p of
        [] \<Rightarrow> if pm_closed p then Some (pump_ends d PumpEof p b) else None
      | TooLongLine # rest \<Rightarrow> Some (pump_ends d PumpTooLong p b)
      | Line frame # rest \<Rightarrow>
          if br_cancelled b then Some (pump_ends d PumpCanceled p b)
          else (let b' = b\<lparr>br_seen := br_seen b @ [(d, frame)]\<rparr>; p' = p\<lparr>pm_input := rest\<rparr> in
            case failure of
              None \<Rightarrow> if d = FromClient \<and> \<not> br_codex b then None
                else Some (set_pump d (p'\<lparr>pm_written := pm_written p @ frame @ [LF]\<rparr>) b')
            | Some k \<Rightarrow> Some (pump_ends d PumpWriteError
                (p'\<lparr>pm_written := pm_written p @ take k (frame @ [LF])\<rparr>) b'))))"

text \<open>\<open>Run\<close> waits for both pumps and returns the first error that is one; the deferred function of
  \<open>runProxyCmd\<close> then closes the input of Codex.\<close>

definition Run_returns :: "bridge \<Rightarrow> bridge option" where
  "Run_returns b =
     (if br_returned b = None \<and> pm_end (br_pumps b FromClient) \<noteq> None \<and> pm_end (br_pumps b FromCodex) \<noteq> None
      then Some (b\<lparr>br_returned := Some (find (\<lambda>e. e \<noteq> PumpEof \<and> e \<noteq> PumpCanceled) (br_errCh b)), br_stdin_closed := True\<rparr>)
      else None)"

datatype bridge_action =
    Arrives flow input
  | ClientCloses
  | CodexExits
  | CodexCrashes
  | Cancel
  | Pump flow "nat option"
  | Return

definition codex_gone :: "bridge \<Rightarrow> bridge" where
  "codex_gone b = (set_pump FromCodex ((br_pumps b FromCodex)\<lparr>pm_closed := True\<rparr>) b)\<lparr>br_codex := False\<rparr>"

fun bridge_step :: "bridge \<Rightarrow> bridge_action \<Rightarrow> bridge option" where
  "bridge_step b (Arrives d i) = (let p = br_pumps b d in
     if pm_closed p then None else Some (set_pump d (p\<lparr>pm_input := pm_input p @ [i]\<rparr>) b))"
| "bridge_step b ClientCloses =
     Some (set_pump FromClient ((br_pumps b FromClient)\<lparr>pm_closed := True\<rparr>) b)"
| "bridge_step b CodexExits =
     (if br_codex b \<and> (br_stdin_closed b \<or> br_cancelled b) then Some (codex_gone b) else None)"
| "bridge_step b CodexCrashes = (if br_codex b then Some (codex_gone b) else None)"
| "bridge_step b Cancel = Some (b\<lparr>br_cancelled := True\<rparr>)"
| "bridge_step b (Pump d failure) = pump_iteration d failure b"
| "bridge_step b Return = Run_returns b"

inductive bridge_run :: "bridge_action list \<Rightarrow> bridge \<Rightarrow> bool" where
  start: "bridge_run [] NewBridge"
| step: "bridge_run tr b \<Longrightarrow> bridge_step b a = Some b' \<Longrightarrow> bridge_run (tr @ [a]) b'"

text \<open>What arrived in a flow, and what was observed of it.\<close>

definition arrived :: "flow \<Rightarrow> bridge_action list \<Rightarrow> input list" where
  "arrived d tr = List.map_filter (\<lambda>a. case a of Arrives d' i \<Rightarrow> if d' = d then Some i else None | _ \<Rightarrow> None) tr"

definition observed_of :: "flow \<Rightarrow> bridge \<Rightarrow> octet list list" where
  "observed_of d b = map snd (filter (\<lambda>(d', f). d' = d) (br_seen b))"

subsection \<open>What a pump has done\<close>

text \<open>The state of a pump, as a function of what arrived: nothing is reordered, changed or skipped.\<close>

definition pump_ok :: "input list \<Rightarrow> octet list list \<Rightarrow> pump \<Rightarrow> bool" where
  "pump_ok ins fs p \<longleftrightarrow> (case pm_end p of
       None \<Rightarrow> ins = map Line fs @ pm_input p \<and> pm_written p = unlines fs
     | Some PumpEof \<Rightarrow> pm_closed p \<and> ins = map Line fs \<and> pm_written p = unlines fs
     | Some PumpCanceled \<Rightarrow> (\<exists>f rest. ins = map Line fs @ Line f # rest) \<and> pm_written p = unlines fs
     | Some PumpTooLong \<Rightarrow> (\<exists>rest. ins = map Line fs @ TooLongLine # rest) \<and> pm_written p = unlines fs
     | Some PumpWriteError \<Rightarrow> (\<exists>rest. ins = map Line fs @ rest)
         \<and> (\<exists>gs f k. fs = gs @ [f] \<and> pm_written p = unlines gs @ take k (f @ [LF])))"

lemma arrived_snoc:
  "arrived d (tr @ [a]) = arrived d tr @ (case a of Arrives d' i \<Rightarrow> if d' = d then [i] else [] | _ \<Rightarrow> [])"
  by (simp add: arrived_def List.map_filter_def split: bridge_action.splits)

lemma set_arrived: "i \<in> set (arrived d tr) \<longleftrightarrow> Arrives d i \<in> set tr"
  by (induction tr) (auto simp: arrived_def List.map_filter_simps split: bridge_action.splits)

lemma observed_of_snoc [simp]:
  "observed_of d (b\<lparr>br_seen := br_seen b @ [(d', f)]\<rparr>) = observed_of d b @ (if d' = d then [f] else [])"
  by (simp add: observed_of_def)

lemma observed_of_pump [simp]:
  "observed_of d (b\<lparr>br_pumps := x\<rparr>) = observed_of d b"
  "observed_of d (pump_ends d' e p b) = observed_of d b"
  "observed_of d (codex_gone b) = observed_of d b"
  by (simp_all add: observed_of_def pump_ends_def codex_gone_def)

lemma br_pumps_pump_ends [simp]:
  "br_pumps (pump_ends d e p b) d' = (if d' = d then p\<lparr>pm_end := Some e\<rparr> else br_pumps b d')"
  by (simp add: pump_ends_def)

lemma pump_iteration_cases:
  assumes "pump_iteration d failure b = Some b'"
  obtains
    (eof) "pm_end (br_pumps b d) = None" "pm_input (br_pumps b d) = []" "pm_closed (br_pumps b d)"
      "b' = pump_ends d PumpEof (br_pumps b d) b"
  | (long) rest where "pm_end (br_pumps b d) = None" "pm_input (br_pumps b d) = TooLongLine # rest"
      "b' = pump_ends d PumpTooLong (br_pumps b d) b"
  | (cancelled) f rest where "pm_end (br_pumps b d) = None" "pm_input (br_pumps b d) = Line f # rest" "br_cancelled b"
      "b' = pump_ends d PumpCanceled (br_pumps b d) b"
  | (wrote) f rest where "pm_end (br_pumps b d) = None" "pm_input (br_pumps b d) = Line f # rest"
      "b' = set_pump d ((br_pumps b d)\<lparr>pm_input := rest, pm_written := pm_written (br_pumps b d) @ f @ [LF]\<rparr>)
        (b\<lparr>br_seen := br_seen b @ [(d, f)]\<rparr>)"
  | (failed) f rest k where "pm_end (br_pumps b d) = None" "pm_input (br_pumps b d) = Line f # rest" "failure = Some k"
      "b' = pump_ends d PumpWriteError ((br_pumps b d)\<lparr>pm_input := rest,
        pm_written := pm_written (br_pumps b d) @ take k (f @ [LF])\<rparr>) (b\<lparr>br_seen := br_seen b @ [(d, f)]\<rparr>)"
  using assms unfolding pump_iteration_def Let_def
  by (cases "pm_input (br_pumps b d)" rule: list.exhaust; cases failure)
    (auto split: if_splits input.splits)

lemma pump_ok_iteration:
  assumes "pump_iteration d' failure b = Some b'" and "pump_ok ins (observed_of d b) (br_pumps b d)"
  shows "pump_ok ins (observed_of d b') (br_pumps b' d)"
proof (cases "d' = d")
  case True
  from assms(1) show ?thesis
  proof (cases rule: pump_iteration_cases)
    case (failed f rest k)
    have "\<exists>gs g n. observed_of d b @ [f] = gs @ [g] \<and> unlines (observed_of d b) @ take k (f @ [LF])
        = unlines gs @ take n (g @ [LF])" by blast
    with failed assms(2) True show ?thesis by (auto simp: pump_ok_def simp del: take_append)
  qed (use assms(2) True in \<open>auto simp: pump_ok_def\<close>)
next
  case False
  from assms(1) show ?thesis
    by (cases rule: pump_iteration_cases) (use assms(2) False in auto)
qed

lemma pump_ok_arrives:
  "pump_ok ins fs p \<Longrightarrow> \<not> pm_closed p \<Longrightarrow> pump_ok (ins @ [i]) fs (p\<lparr>pm_input := pm_input p @ [i]\<rparr>)"
  by (auto simp: pump_ok_def split: option.splits pump_end.splits)

lemma pump_ok_closed: "pump_ok ins fs p \<Longrightarrow> pump_ok ins fs (p\<lparr>pm_closed := True\<rparr>)"
  by (simp add: pump_ok_def split: option.splits pump_end.splits)

lemma pump_ok_step:
  assumes "bridge_step b a = Some b'" and "pump_ok (arrived d tr) (observed_of d b) (br_pumps b d)"
  shows "pump_ok (arrived d (tr @ [a])) (observed_of d b') (br_pumps b' d)"
proof (cases a)
  case (Arrives d' i)
  with assms pump_ok_arrives [OF assms(2), of i] show ?thesis
    by (auto simp: arrived_snoc Let_def split: if_splits)
next
  case (Pump d' failure)
  with assms show ?thesis using pump_ok_iteration by (simp add: arrived_snoc)
qed (use assms pump_ok_closed [OF assms(2)] in \<open>auto simp: arrived_snoc codex_gone_def Run_returns_def observed_of_def
    split: if_splits\<close>)

lemma run_pump_ok: "bridge_run tr b \<Longrightarrow> pump_ok (arrived d tr) (observed_of d b) (br_pumps b d)"
proof (induction rule: bridge_run.induct)
  case start
  show ?case by (simp add: pump_ok_def arrived_def observed_of_def NewBridge_def List.map_filter_def)
next
  case (step tr b a b')
  then show ?case by (intro pump_ok_step)
qed

lemma prefix_unlines: "prefix fs gs \<Longrightarrow> prefix (unlines fs) (unlines gs)"
  by (auto simp: prefix_def)

lemma map_Line_prefix:
  "map Line fs @ rest = map Line ls @ (if e then [TooLongLine] else []) \<Longrightarrow> prefix fs ls"
proof (induction fs arbitrary: ls)
  case (Cons f fs)
  then show ?case by (cases ls) (auto split: if_splits)
qed simp

lemma written_observed: "pump_ok ins fs p \<Longrightarrow> prefix (pm_written p) (unlines fs)"
proof -
  have "prefix (unlines gs @ take k (f @ [LF])) (unlines (gs @ [f]))" for gs f k
    using take_is_prefix [of k "f @ [LF]"] by (simp del: take_append prefix_snoc)
  then show "pump_ok ins fs p \<Longrightarrow> prefix (pm_written p) (unlines fs)"
    by (auto simp: pump_ok_def simp del: take_append unlines_simps split: option.splits pump_end.splits)
qed

lemma observed_arrived: "pump_ok ins fs p \<Longrightarrow> \<exists>rest. ins = map Line fs @ rest"
  by (auto simp: pump_ok_def split: option.splits pump_end.splits)

text \<open>C30. The bridge is transparent and observes first: in every run, whatever the writes, the context and
  the other side do, if the bytes that arrived in a direction are newline-terminated frames below the
  limit, then what was observed are the first of these frames in order, what was written is a prefix
  of the bytes that arrived and covers only frames observed before, and when the pump has ended with
  its input, every frame was observed and every byte was written.\<close>

theorem bridge_is_transparent:
  assumes "bridge_run tr b" and "list_all (is_frame max_frame) ls"
    and "arrived d tr = inputs_of (unlines ls)"
  shows "prefix (observed_of d b) ls
    \<and> prefix (pm_written (br_pumps b d)) (unlines ls)
    \<and> prefix (pm_written (br_pumps b d)) (unlines (observed_of d b))
    \<and> (pm_end (br_pumps b d) = Some PumpEof \<longrightarrow>
         observed_of d b = ls \<and> pm_written (br_pumps b d) = unlines ls)"
proof -
  note ok = run_pump_ok [OF assms(1), of d]
  have ins: "arrived d tr = map Line ls @ (if False then [TooLongLine] else [])"
    using assms(3) by (simp add: inputs_of_def scan_unlines [OF assms(2)])
  have obs: "prefix (observed_of d b) ls"
    using observed_arrived [OF ok] map_Line_prefix [of _ _ ls False] ins by auto
  have "prefix (pm_written (br_pumps b d)) (unlines (observed_of d b))" by (rule written_observed [OF ok])
  moreover from this prefix_unlines [OF obs] have "prefix (pm_written (br_pumps b d)) (unlines ls)"
    by (rule prefix_order.trans)
  moreover have "observed_of d b = ls \<and> pm_written (br_pumps b d) = unlines ls"
    if "pm_end (br_pumps b d) = Some PumpEof"
    using ok ins that by (auto simp: pump_ok_def list.inj_map_strong dest: map_injective intro: injI)
  ultimately show ?thesis using obs by blast
qed

text \<open>A line that is over the limit ends its direction for good: nothing behind it is forwarded.\<close>

lemma over_long_line_ends_direction:
  assumes "bridge_run tr b" and "list_all (is_frame max_frame) ls" and "LF \<notin> set l" and "max_frame \<le> length l"
    and "arrived d tr = inputs_of (unlines ls @ l @ rest)"
  shows "prefix (observed_of d b) ls \<and> prefix (pm_written (br_pumps b d)) (unlines ls)
    \<and> pm_end (br_pumps b d) \<noteq> Some PumpEof"
proof -
  note ok = run_pump_ok [OF assms(1), of d]
  have "l \<noteq> []" using assms(4) by (auto simp: max_frame_def)
  then have ins: "arrived d tr = map Line ls @ (if True then [TooLongLine] else [])"
    using assms(5) by (simp add: inputs_of_def scan_too_long [OF assms(2-4)])
  have obs: "prefix (observed_of d b) ls"
    using observed_arrived [OF ok] map_Line_prefix [of _ _ ls True] ins by auto
  have "pm_end (br_pumps b d) \<noteq> Some PumpEof"
  proof
    assume "pm_end (br_pumps b d) = Some PumpEof"
    then have "map Line ls @ [TooLongLine] = map Line (observed_of d b)" using ok ins by (simp add: pump_ok_def)
    then have "TooLongLine \<in> set (map Line (observed_of d b))" by (metis in_set_conv_decomp)
    then show False by auto
  qed
  with obs prefix_order.trans [OF written_observed [OF ok] prefix_unlines [OF obs]] show ?thesis by blast
qed

text \<open>A run given as a computation, for the samples.\<close>

fun bridge_exec :: "bridge_action list \<Rightarrow> bridge \<Rightarrow> bridge option" where
  "bridge_exec [] b = Some b"
| "bridge_exec (a # as) b = (case bridge_step b a of None \<Rightarrow> None | Some b' \<Rightarrow> bridge_exec as b')"

lemma bridge_exec_run: "bridge_run tr b \<Longrightarrow> bridge_exec as b = Some b' \<Longrightarrow> bridge_run (tr @ as) b'"
proof (induction as arbitrary: tr b)
  case (Cons a as)
  then obtain b1 where "bridge_step b a = Some b1" "bridge_exec as b1 = Some b'" by (auto split: option.splits)
  with Cons.IH [OF bridge_run.step [OF Cons.prems(1)]] show ?case by simp
qed simp

lemmas bridge_eval = NewBridge_def Let_def pump_iteration_def pump_ends_def Run_returns_def codex_gone_def
  observed_of_def

text \<open>A frame passes to Codex, the client closes its end, the answer cannot be written.\<close>

definition sample_frames :: "octet list list" where
  "sample_frames = [[0x7B, 0x7D]]"

definition sample_bridge_run :: "bridge_action list" where
  "sample_bridge_run = [Arrives FromClient (Line [0x7B, 0x7D]), Pump FromClient None, ClientCloses,
     Pump FromClient None, Arrives FromCodex (Line [0x7B, 0x7D]), Pump FromCodex (Some 0), Return]"

definition sample_bridge :: bridge where
  "sample_bridge = the (bridge_exec sample_bridge_run NewBridge)"

lemma sample_bridge_runs: "bridge_run sample_bridge_run sample_bridge"
proof -
  have "bridge_exec sample_bridge_run NewBridge = Some sample_bridge"
    by (simp add: sample_bridge_def sample_bridge_run_def bridge_eval)
  from bridge_exec_run [OF bridge_run.start this] show ?thesis by simp
qed

lemma sample_bridge_ends:
  "pm_end (br_pumps sample_bridge FromClient) = Some PumpEof"
  "pm_end (br_pumps sample_bridge FromCodex) = Some PumpWriteError"
  "br_returned sample_bridge = Some (Some PumpWriteError)"
  by (simp_all add: sample_bridge_def sample_bridge_run_def bridge_eval)

lemma bridge_is_transparent_witness:
  "observed_of FromClient sample_bridge = sample_frames
    \<and> pm_written (br_pumps sample_bridge FromClient) = [0x7B, 0x7D, LF]"
proof -
  have ls: "list_all (is_frame max_frame) sample_frames"
    by (simp add: sample_frames_def is_frame_def max_frame_def dropCR_def)
  have "arrived FromClient sample_bridge_run = inputs_of (unlines sample_frames)"
    by (simp add: inputs_of_def scan_unlines [OF ls])
      (simp add: sample_bridge_run_def arrived_def sample_frames_def List.map_filter_def)
  from bridge_is_transparent [OF sample_bridge_runs ls this] sample_bridge_ends(1) show ?thesis
    by (simp add: sample_frames_def)
qed

subsection \<open>The bridge does not end with the client\<close>

text \<open>What the ends of the pumps and the return of \<open>Run\<close> say of the run so far.\<close>

fun closable :: "bridge_action list \<Rightarrow> bool \<Rightarrow> flow \<Rightarrow> bool" where
  "closable tr c FromClient = (ClientCloses \<in> set tr)"
| "closable tr c FromCodex = (c \<or> Cancel \<in> set tr \<or> CodexCrashes \<in> set tr)"

fun caused :: "bridge_action list \<Rightarrow> flow \<Rightarrow> pump_end \<Rightarrow> bool" where
  "caused tr d PumpEof = closable tr False d"
| "caused tr d PumpCanceled = (Cancel \<in> set tr)"
| "caused tr d e = True"

definition ends_ok :: "bridge_action list \<Rightarrow> bridge \<Rightarrow> bool" where
  "ends_ok tr b \<longleftrightarrow>
     (br_cancelled b \<longrightarrow> Cancel \<in> set tr)
   \<and> (br_stdin_closed b \<or> br_returned b \<noteq> None \<longrightarrow> (\<forall>d. pm_end (br_pumps b d) \<noteq> None))
   \<and> (\<forall>d. pm_closed (br_pumps b d) \<longrightarrow> closable tr (br_stdin_closed b) d)
   \<and> (\<forall>d e. pm_end (br_pumps b d) = Some e \<longrightarrow> caused tr d e)"

lemma closable_mono:
  shows "closable tr c d \<Longrightarrow> closable (tr @ [a]) c d" and "closable tr c d \<Longrightarrow> closable tr True d"
  by (induct d) auto

lemma caused_mono: "caused tr d e \<Longrightarrow> caused (tr @ [a]) d e"
  by (cases e) (simp_all add: closable_mono)

lemma ends_ok_mono: "ends_ok tr b \<Longrightarrow> ends_ok (tr @ [a]) b"
  unfolding ends_ok_def by (simp add: closable_mono(1) caused_mono)

lemma ends_okD:
  assumes "ends_ok tr b"
  shows "br_cancelled b \<Longrightarrow> Cancel \<in> set tr"
    and "br_stdin_closed b \<or> br_returned b \<noteq> None \<Longrightarrow> pm_end (br_pumps b d) \<noteq> None"
    and "pm_closed (br_pumps b d) \<Longrightarrow> closable tr (br_stdin_closed b) d"
    and "pm_end (br_pumps b d) = Some e \<Longrightarrow> caused tr d e"
  using assms unfolding ends_ok_def by blast+

text \<open>A change of one pump that has not ended.\<close>

lemma ends_ok_pump:
  assumes "ends_ok tr b" and "pm_end (br_pumps b d) = None"
    and "br_pumps b' = (br_pumps b)(d := p)" and "br_cancelled b' = br_cancelled b"
    and "br_stdin_closed b' = br_stdin_closed b" and "br_returned b' = br_returned b"
    and "pm_closed p = pm_closed (br_pumps b d)" and "\<forall>e. pm_end p = Some e \<longrightarrow> caused tr d e"
  shows "ends_ok tr b'"
proof -
  have "\<not> (br_stdin_closed b \<or> br_returned b \<noteq> None)" using ends_okD(2) [OF assms(1)] assms(2) by blast
  with assms show ?thesis unfolding ends_ok_def assms(3-6) by simp
qed

lemma pump_ends_fields [simp]:
  "br_cancelled (pump_ends d e p b) = br_cancelled b" "br_stdin_closed (pump_ends d e p b) = br_stdin_closed b"
  "br_returned (pump_ends d e p b) = br_returned b"
  by (simp_all add: pump_ends_def)

lemma ends_ok_iteration:
  assumes "pump_iteration d failure b = Some b'" and "ends_ok tr b"
  shows "ends_ok tr b'"
  using assms(1)
proof (cases rule: pump_iteration_cases)
  case eof
  with ends_okD(2) [OF assms(2), of d] have "br_stdin_closed b = False" by auto
  with ends_okD(3) [OF assms(2) eof(3)] have "closable tr False d" by simp
  with eof show ?thesis
    by (intro ends_ok_pump [OF assms(2) eof(1), of b' "(br_pumps b d)\<lparr>pm_end := Some PumpEof\<rparr>"])
      (simp_all add: pump_ends_def)
next
  case (cancelled f rest)
  with ends_okD(1) [OF assms(2)] show ?thesis
    by (intro ends_ok_pump [OF assms(2) cancelled(1), of b' "(br_pumps b d)\<lparr>pm_end := Some PumpCanceled\<rparr>"])
      (simp_all add: pump_ends_def)
next
  case (long rest)
  then show ?thesis
    by (intro ends_ok_pump [OF assms(2) long(1), of b' "(br_pumps b d)\<lparr>pm_end := Some PumpTooLong\<rparr>"])
      (simp_all add: pump_ends_def)
next
  case (wrote f rest)
  then show ?thesis by (intro ends_ok_pump [OF assms(2) wrote(1), of b' "br_pumps b' d"]) simp_all
next
  case (failed f rest k)
  then show ?thesis
    by (intro ends_ok_pump [OF assms(2) failed(1), of b' "br_pumps b' d"]) (simp_all add: pump_ends_def)
qed

lemma ends_ok_closed:
  assumes "ends_ok tr b" and "closable tr (br_stdin_closed b) d"
  shows "ends_ok tr (set_pump d ((br_pumps b d)\<lparr>pm_closed := True\<rparr>) b)"
  using assms ends_okD [OF assms(1)] unfolding ends_ok_def by auto

lemma ends_ok_codex: "ends_ok tr b \<Longrightarrow> ends_ok tr (b\<lparr>br_codex := c\<rparr>)"
  by (simp add: ends_ok_def)

lemma ends_ok_step:
  assumes "bridge_step b a = Some b'" and "ends_ok tr b"
  shows "ends_ok (tr @ [a]) b'"
proof (cases a)
  case (Arrives d i)
  with assms show ?thesis
    using ends_okD [OF ends_ok_mono [OF assms(2), of a]] unfolding ends_ok_def
    by (auto simp: Let_def split: if_splits)
next
  case (Pump d failure)
  with assms(1) ends_ok_iteration [OF _ ends_ok_mono [OF assms(2)]] show ?thesis by simp
next
  case ClientCloses
  with assms(1) ends_ok_closed [OF ends_ok_mono [OF assms(2)], of a FromClient] show ?thesis by auto
next
  case CodexExits
  with assms(1) have "br_stdin_closed b \<or> br_cancelled b" and b': "b' = codex_gone b"
    by (auto split: if_splits)
  with ends_okD(1) [OF assms(2)] have "closable (tr @ [a]) (br_stdin_closed b) FromCodex" by auto
  from ends_ok_codex [OF ends_ok_closed [OF ends_ok_mono [OF assms(2)] this]] b' show ?thesis
    by (simp add: codex_gone_def)
next
  case CodexCrashes
  with assms(1) have b': "b' = codex_gone b" by (auto split: if_splits)
  have "closable (tr @ [a]) (br_stdin_closed b) FromCodex" using CodexCrashes by simp
  from ends_ok_codex [OF ends_ok_closed [OF ends_ok_mono [OF assms(2)] this]] b' show ?thesis
    by (simp add: codex_gone_def)
next
  case Cancel
  with assms ends_ok_mono [OF assms(2), of a] show ?thesis by (auto simp: ends_ok_def)
next
  case Return
  with assms(1) have b': "pm_end (br_pumps b FromClient) \<noteq> None" "pm_end (br_pumps b FromCodex) \<noteq> None"
      "\<exists>r. b' = b\<lparr>br_returned := r, br_stdin_closed := True\<rparr>"
    by (auto simp: Run_returns_def split: if_splits)
  then have "\<forall>d. pm_end (br_pumps b d) \<noteq> None" by (simp add: all_flow)
  with b'(3) ends_okD [OF ends_ok_mono [OF assms(2), of a]] closable_mono(2) show ?thesis
    unfolding ends_ok_def by fastforce
qed

lemma run_ends_ok: "bridge_run tr b \<Longrightarrow> ends_ok tr b"
proof (induction rule: bridge_run.induct)
  case start
  show ?case by (simp add: ends_ok_def NewBridge_def)
next
  case (step tr b a b')
  then show ?case by (intro ends_ok_step)
qed

text \<open>C39. The bridge does not end with the client: \<open>Run\<close> waits for both pumps, and the input of Codex is
  closed only after it has returned, so in every run in which the context is not cancelled and Codex
  does not crash, \<open>Run\<close> has returned only if the lines of Codex could not be written or were over the
  limit; that the client has closed its end is not enough. Conversely a cancelled context is not
  enough either: the client must have closed its end or sent a line.\<close>

theorem run_outlives_client:
  assumes "bridge_run tr b" and "br_returned b \<noteq> None"
  shows "(Cancel \<in> set tr \<or> CodexCrashes \<in> set tr
        \<or> pm_end (br_pumps b FromCodex) \<in> {Some PumpWriteError, Some PumpTooLong})
    \<and> (ClientCloses \<in> set tr \<or> (\<exists>i. Arrives FromClient i \<in> set tr))"
proof -
  note ends = run_ends_ok [OF assms(1)] and ok = run_pump_ok [OF assms(1), of FromClient]
  obtain e e' where e: "pm_end (br_pumps b FromCodex) = Some e" "pm_end (br_pumps b FromClient) = Some e'"
    using ends_okD(2) [OF ends] assms(2) by blast
  then have "Cancel \<in> set tr \<or> CodexCrashes \<in> set tr \<or> e \<in> {PumpWriteError, PumpTooLong}"
    using ends_okD(4) [OF ends] by (cases e) fastforce+
  moreover have "ClientCloses \<in> set tr \<or> (\<exists>i. Arrives FromClient i \<in> set tr)"
  proof (cases "e' = PumpEof")
    case False
    then have "arrived FromClient tr \<noteq> []" using ok e(2) by (cases e') (auto simp: pump_ok_def)
    then obtain i where "i \<in> set (arrived FromClient tr)" by (cases "arrived FromClient tr") auto
    then show ?thesis by (auto simp: set_arrived)
  qed (use ends_okD(4) [OF ends e(2)] in simp)
  ultimately show ?thesis using e(1) by simp
qed

lemma run_outlives_client_witness:
  "br_returned sample_bridge = Some (Some PumpWriteError) \<and> Cancel \<notin> set sample_bridge_run
    \<and> (ClientCloses \<in> set sample_bridge_run \<or> (\<exists>i. Arrives FromClient i \<in> set sample_bridge_run))"
  using run_outlives_client [OF sample_bridge_runs] sample_bridge_ends(3)
  by (simp add: sample_bridge_run_def)

text \<open>The state after the client has closed its end: nothing but input, a cancellation or a crash can happen.\<close>

lemma stuck_after_client:
  assumes "bridge_exec [ClientCloses, Pump FromClient None] NewBridge = Some b" and "bridge_step b a \<noteq> None"
  shows "a \<in> {ClientCloses, Cancel, CodexCrashes} \<or> (\<exists>i. a = Arrives FromCodex i)"
proof (cases a)
  case (Arrives d i)
  with assms show ?thesis by (cases d) (auto simp: bridge_eval)
next
  case (Pump d failure)
  with assms show ?thesis by (cases d) (auto simp: bridge_eval)
qed (use assms in \<open>auto simp: bridge_eval\<close>)

subsection \<open>The command line\<close>

text \<open>\<open>filterPassthroughArgs\<close> of \<^verbatim>\<open>internal/cli/proxy_cmd.go\<close> and \<open>BuildDownstreamCommand\<close> of
  \<^verbatim>\<open>internal/proxy/downstream.go\<close>.\<close>

fun filterPassthroughArgs :: "string list \<Rightarrow> string list" where
  "filterPassthroughArgs [] = []"
| "filterPassthroughArgs (arg # argv) =
     (if arg = ''--ui-port'' then (case argv of [] \<Rightarrow> [] | value # rest \<Rightarrow> filterPassthroughArgs rest)
      else if prefix ''--ui-port='' arg then filterPassthroughArgs argv
      else arg # filterPassthroughArgs argv)"

definition BuildDownstreamCommand :: "string list \<Rightarrow> string list" where
  "BuildDownstreamCommand forwarded = [''codex'', ''mcp-server''] @ forwarded"

definition is_port_arg :: "string \<Rightarrow> bool" where
  "is_port_arg arg \<longleftrightarrow> arg = ''--ui-port'' \<or> prefix ''--ui-port='' arg"

lemma passthrough_no_port: "arg \<in> set (filterPassthroughArgs argv) \<Longrightarrow> \<not> is_port_arg arg"
  by (induction argv rule: filterPassthroughArgs.induct) (auto simp: is_port_arg_def split: if_splits list.splits)

lemma passthrough_append:
  "list_all (\<lambda>arg. \<not> is_port_arg arg) xs \<Longrightarrow> filterPassthroughArgs (xs @ ys) = xs @ filterPassthroughArgs ys"
  by (induction xs) (auto simp: is_port_arg_def)

text \<open>The port is stripped wherever it stands, and Codex gets every other argument.\<close>

lemma command_of_codex:
  assumes "list_all (\<lambda>arg. \<not> is_port_arg arg) (xs @ ys)" and "port = [''--ui-port'', v] \<or> port = [''--ui-port='' @ v]"
  shows "BuildDownstreamCommand (filterPassthroughArgs (xs @ port @ ys)) = [''codex'', ''mcp-server''] @ xs @ ys"
  using assms passthrough_append [of xs "port @ ys"] passthrough_append [of ys "[]"]
  by (auto simp: BuildDownstreamCommand_def)

end
