(* ===== verification/Observer_Queue.thy ===== *)
theory Observer_Queue
  imports Proxy_Envelope "HOL-Library.Sublist"
begin

section \<open>The observer of the proxy\<close>

text \<open>
  The \<open>Observer\<close> of \<^verbatim>\<open>internal/proxy/observer.go\<close>: the bridge calls \<open>OnFrame\<close>, which puts an
  envelope into a bounded channel or drops it, and one goroutine takes envelopes out and ships them
  to the hub. A step is one atomic operation of a goroutine; the report of a dropped envelope is a
  step of its own, since other goroutines may run in between. \<open>o_observed\<close> records the envelopes in
  the order in which they reached the channel.
\<close>

definition shipQueueSize :: nat where
  "shipQueueSize = 1024"

datatype notice = IngestDegraded | IngestRecovered

record observer =
  o_queue :: "ingest_event list"
  o_current :: "ingest_event option"
  o_reports :: nat
  degraded :: bool
  o_log :: "notice list"
  o_shipped :: "ingest_event list"
  o_observed :: "ingest_event list"

definition NewObserver :: observer where
  "NewObserver = \<lparr>o_queue = [], o_current = None, o_reports = 0, degraded = False, o_log = [],
     o_shipped = [], o_observed = []\<rparr>"

text \<open>The two uses of \<open>CompareAndSwap\<close>, with what is logged when it succeeds.\<close>

definition reportDegraded :: "observer \<Rightarrow> observer" where
  "reportDegraded o' = (if degraded o' then o' else o'\<lparr>degraded := True, o_log := o_log o' @ [IngestDegraded]\<rparr>)"

definition reportRecovered :: "observer \<Rightarrow> observer" where
  "reportRecovered o' = (if degraded o' then o'\<lparr>degraded := False, o_log := o_log o' @ [IngestRecovered]\<rparr> else o')"

text \<open>\<open>client\<close> says whether the observer has a hub client; without one an envelope is discarded.\<close>

inductive observer_step :: "bool \<Rightarrow> observer \<Rightarrow> observer \<Rightarrow> bool" for client where
  enqueued: "length (o_queue s) < shipQueueSize \<Longrightarrow>
    observer_step client s (s\<lparr>o_queue := o_queue s @ [env], o_observed := o_observed s @ [env]\<rparr>)"
| dropped: "\<not> length (o_queue s) < shipQueueSize \<Longrightarrow>
    observer_step client s (s\<lparr>o_reports := Suc (o_reports s), o_observed := o_observed s @ [env]\<rparr>)"
| reported: "o_reports s = Suc n \<Longrightarrow> observer_step client s (reportDegraded (s\<lparr>o_reports := n\<rparr>))"
| taken: "o_current s = None \<Longrightarrow> o_queue s = env # rest \<Longrightarrow>
    observer_step client s (s\<lparr>o_current := Some env, o_queue := rest\<rparr>)"
| discarded: "\<not> client \<Longrightarrow> o_current s = Some env \<Longrightarrow> observer_step client s (s\<lparr>o_current := None\<rparr>)"
| posted: "client \<Longrightarrow> o_current s = Some env \<Longrightarrow>
    observer_step client s (reportRecovered (s\<lparr>o_current := None, o_shipped := o_shipped s @ [env]\<rparr>))"
| failed: "client \<Longrightarrow> o_current s = Some env \<Longrightarrow>
    observer_step client s (reportDegraded (s\<lparr>o_current := None\<rparr>))"

inductive observed :: "bool \<Rightarrow> observer \<Rightarrow> bool" for client where
  start: "observed client NewObserver"
| step: "observed client s \<Longrightarrow> observer_step client s s' \<Longrightarrow> observed client s'"

text \<open>The envelopes that have reached the hub or still will.\<close>

definition kept :: "observer \<Rightarrow> ingest_event list" where
  "kept s = o_shipped s @ (case o_current s of None \<Rightarrow> [] | Some e \<Rightarrow> [e]) @ o_queue s"

definition alternates :: "notice list \<Rightarrow> bool" where
  "alternates ns \<longleftrightarrow> ns = map (\<lambda>i. if even i then IngestDegraded else IngestRecovered) [0..<length ns]"

definition observer_ok :: "observer \<Rightarrow> bool" where
  "observer_ok s \<longleftrightarrow> length (o_queue s) \<le> shipQueueSize \<and> subseq (kept s) (o_observed s)
     \<and> (o_log s = [] \<and> o_reports s = 0 \<longrightarrow> kept s = o_observed s)
     \<and> alternates (o_log s) \<and> (degraded s \<longleftrightarrow> odd (length (o_log s)))"

lemma alternates_snoc:
  "alternates ns \<Longrightarrow> alternates (ns @ [n]) \<longleftrightarrow> n = (if even (length ns) then IngestDegraded else IngestRecovered)"
  by (simp add: alternates_def)

lemma observer_ok_NewObserver: "observer_ok NewObserver"
  by (simp add: observer_ok_def NewObserver_def kept_def alternates_def shipQueueSize_def)

lemma kept_report [simp]: "kept (reportDegraded s) = kept s" "kept (reportRecovered s) = kept s"
  by (simp_all add: kept_def reportDegraded_def reportRecovered_def)

lemma observer_ok_step: "observer_step True s s' \<Longrightarrow> observer_ok s \<Longrightarrow> observer_ok s'"
proof (induction rule: observer_step.induct)
  case (enqueued s env)
  have "kept (s\<lparr>o_queue := o_queue s @ [env], o_observed := o_observed s @ [env]\<rparr>) = kept s @ [env]"
    by (simp add: kept_def)
  with enqueued list_emb_append_mono [of "(=)" "kept s" "o_observed s" "[env]" "[env]"] show ?case
    by (simp add: observer_ok_def)
next
  case (dropped s env)
  then show ?case
    using list_emb_append_mono [of "(=)" "kept s" "o_observed s" "[]" "[env]"]
    by (simp add: observer_ok_def kept_def)
next
  case (reported s n)
  then show ?case
    by (auto simp: observer_ok_def reportDegraded_def kept_def alternates_snoc)
next
  case (taken s env rest)
  then show ?case by (simp add: observer_ok_def kept_def)
next
  case (posted s env)
  then show ?case
    by (auto simp: observer_ok_def reportRecovered_def kept_def alternates_snoc)
next
  case (failed s env)
  have "subseq (o_shipped s @ o_queue s) (o_shipped s @ env # o_queue s)"
    by (intro list_emb_append_mono subseq_order.refl list_emb_Cons)
  also have "subseq \<dots> (o_observed s)" using failed by (simp add: observer_ok_def kept_def)
  finally have "subseq (o_shipped s @ o_queue s) (o_observed s)" .
  with failed show ?case
    by (auto simp: observer_ok_def reportDegraded_def kept_def alternates_snoc)
qed simp

lemma observed_ok: "observed True s \<Longrightarrow> observer_ok s"
  by (induction rule: observed.induct) (simp_all add: observer_ok_NewObserver observer_ok_step)

text \<open>C38. The observer loses nothing silently: in every run with a hub client the channel holds at most 1024
  envelopes, what has been shipped, is being shipped or waits is a subsequence, in order, of what was
  observed, and it is all of it as long as nothing was logged or is about to be; the notices
  alternate, one degradation per episode, and the flag says whether the last one was a degradation.\<close>

theorem observer_loses_nothing_silently:
  assumes "observed True s"
  shows "length (o_queue s) \<le> 1024 \<and> subseq (kept s) (o_observed s)
    \<and> (o_log s = [] \<and> o_reports s = 0 \<longrightarrow> kept s = o_observed s)
    \<and> alternates (o_log s) \<and> (degraded s \<longleftrightarrow> odd (length (o_log s)))"
  using observed_ok [OF assms] by (simp add: observer_ok_def shipQueueSize_def)

text \<open>A frame that could not be posted and the next one that could.\<close>

definition sample_run :: "ingest_event \<Rightarrow> ingest_event \<Rightarrow> observer" where
  "sample_run a b = \<lparr>o_queue = [], o_current = None, o_reports = 0, degraded = False,
     o_log = [IngestDegraded, IngestRecovered], o_shipped = [b], o_observed = [a, b]\<rparr>"

lemma observed_sample: "observed True (sample_run a b)"
proof -
  let ?s1 = "NewObserver\<lparr>o_queue := [a], o_observed := [a]\<rparr>"
  let ?s2 = "?s1\<lparr>o_queue := [a, b], o_observed := [a, b]\<rparr>"
  let ?s3 = "?s2\<lparr>o_current := Some a, o_queue := [b]\<rparr>"
  let ?s4 = "?s3\<lparr>o_current := None, degraded := True, o_log := [IngestDegraded]\<rparr>"
  let ?s5 = "?s4\<lparr>o_current := Some b, o_queue := []\<rparr>"
  note new = NewObserver_def shipQueueSize_def
  have "observed True ?s1"
    using observed.step [OF observed.start observer_step.enqueued [of NewObserver True a]] by (simp add: new)
  from observed.step [OF this observer_step.enqueued [of ?s1 True b]] have "observed True ?s2" by (simp add: new)
  from observed.step [OF this observer_step.taken [of ?s2 a "[b]" True]] have "observed True ?s3" by (simp add: new)
  from observed.step [OF this observer_step.failed [of True ?s3 a]] have "observed True ?s4"
    by (simp add: new reportDegraded_def)
  from observed.step [OF this observer_step.taken [of ?s4 b "[]" True]] have "observed True ?s5" by (simp add: new)
  from observed.step [OF this observer_step.posted [of True ?s5 b]] show ?thesis
    by (simp add: new reportRecovered_def sample_run_def)
qed

lemma observer_loses_nothing_silently_witness:
  "subseq (kept (sample_run (OnFrame (\<lambda>_. []) [] [] [] ''upstream'' None) (OnFrame (\<lambda>_. []) [] [] [] ''downstream'' None)))
     [OnFrame (\<lambda>_. []) [] [] [] ''upstream'' None, OnFrame (\<lambda>_. []) [] [] [] ''downstream'' None]
   \<and> alternates [IngestDegraded, IngestRecovered]"
  using observer_loses_nothing_silently [OF observed_sample, of "OnFrame (\<lambda>_. []) [] [] [] ''upstream'' None"
    "OnFrame (\<lambda>_. []) [] [] [] ''downstream'' None"]
  by (simp add: sample_run_def)

end
