(* ===== verification/Hub_Sessions.thy ===== *)
theory Hub_Sessions
  imports Hub_Live Text_Decode
begin

section \<open>The hub's indexes: sessions, calls, sources\<close>

text \<open>
  \<open>derivePersistentRows\<close> and \<open>registerHandler\<close> of \<^verbatim>\<open>internal/hub/http/ingest.go\<close>, the operations of
  \<^verbatim>\<open>internal/store/sqlite/store.go\<close> behind them with their SQL, and the list endpoints of
  \<^verbatim>\<open>internal/hub/http/query.go\<close>. A table is a map from its primary key to its row, in the order of
  insertion; where the order of a listing is left open by its \<open>ORDER BY\<close>, that order is taken. Each
  operation is given the time it reads. The operations do not fail here.
\<close>

subsection \<open>Rows and tables\<close>

record session_row =
  sr_source :: jsstring
  sr_model :: "jsstring option"
  sr_cwd :: "jsstring option"
  sr_approval :: "jsstring option"
  sr_title :: "jsstring option"
  sr_first_seen :: "64 word"
  sr_last_seen :: "64 word"

record call_row =
  cr_proxy :: jsstring
  cr_source :: jsstring
  cr_session :: "jsstring option"
  cr_tool :: jsstring
  cr_started :: "64 word"
  cr_completed :: "64 word option"
  cr_status :: "jsstring option"

record registration =
  rg_key :: jsstring
  rg_pid :: int
  rg_protocol :: jsstring
  rg_name :: jsstring
  rg_version :: jsstring
  rg_capabilities :: jsstring
  rg_executable :: jsstring
  rg_command :: jsstring
  rg_cwd :: jsstring

record source_row =
  so_reg :: registration
  so_first_seen :: "64 word"
  so_last_seen :: "64 word"

record proxy_row =
  pr_source :: "jsstring option"
  pr_pid :: int
  pr_started :: "64 word"
  pr_heartbeat :: "64 word"
  pr_exited :: "64 word option"

record hub_db =
  db_events :: "event_row list"
  db_sessions :: "(jsstring, session_row) jsmap"
  db_calls :: "(jsstring, call_row) jsmap"
  db_sources :: "(jsstring, source_row) jsmap"
  db_proxies :: "(jsstring, proxy_row) jsmap"

text \<open>\<open>UPDATE ... WHERE key = ?\<close> and \<open>COALESCE\<close>.\<close>

definition update_row :: "'k \<Rightarrow> ('v \<Rightarrow> 'v) \<Rightarrow> ('k, 'v) jsmap \<Rightarrow> ('k, 'v) jsmap" where
  "update_row k f m = (case map_get m k of None \<Rightarrow> m | Some v \<Rightarrow> map_put m k (f v))"

lemma map_get_update_row [simp]:
  "map_get (update_row k f m) k' = (if k' = k then map_option f (map_get m k) else map_get m k')"
  by (simp add: update_row_def split: option.split)

subsection \<open>Sessions\<close>

definition UpsertSession ::
    "64 word \<Rightarrow> jsstring \<Rightarrow> jsstring \<Rightarrow> jsstring \<Rightarrow> jsstring \<Rightarrow> jsstring
     \<Rightarrow> (jsstring, session_row) jsmap \<Rightarrow> (jsstring, session_row) jsmap" where
  "UpsertSession now sid source mdl dir approval m =
     map_put m sid (case map_get m sid of
       None \<Rightarrow> \<lparr>sr_source = source, sr_model = nullString mdl, sr_cwd = nullString dir,
                sr_approval = nullString approval, sr_title = None, sr_first_seen = now, sr_last_seen = now\<rparr>
     | Some r \<Rightarrow> r\<lparr>sr_source := source, sr_model := opt_or (nullString mdl) (sr_model r),
                  sr_cwd := opt_or (nullString dir) (sr_cwd r),
                  sr_approval := opt_or (nullString approval) (sr_approval r), sr_last_seen := now\<rparr>)"

definition SetSessionTitleAlways ::
    "jsstring \<Rightarrow> jsstring \<Rightarrow> (jsstring, session_row) jsmap \<Rightarrow> (jsstring, session_row) jsmap" where
  "SetSessionTitleAlways sid title m =
     (if sid = [] \<or> title = [] then m else update_row sid (\<lambda>r. r\<lparr>sr_title := Some title\<rparr>) m)"

definition SetSessionTitleIfEmpty ::
    "jsstring \<Rightarrow> jsstring \<Rightarrow> (jsstring, session_row) jsmap \<Rightarrow> (jsstring, session_row) jsmap" where
  "SetSessionTitleIfEmpty sid title m =
     (if sid = [] \<or> title = [] then m
      else update_row sid (\<lambda>r. if sr_title r = None \<or> sr_title r = Some [] then r\<lparr>sr_title := Some title\<rparr> else r) m)"

subsection \<open>The payload of an event\<close>

text \<open>A string field of a struct whose decoding errors are ignored: a value of another type is skipped.\<close>

definition lenient_string :: "js \<Rightarrow> string \<Rightarrow> jsstring" where
  "lenient_string v k = (case field v k of JStr s \<Rightarrow> s | _ \<Rightarrow> [])"

definition lenient_struct :: "js \<Rightarrow> js" where
  "lenient_struct v = (case v of JObj ps \<Rightarrow> v | _ \<Rightarrow> JObj [])"

record parsed_payload =
  pp_name :: jsstring
  pp_model :: jsstring
  pp_cwd :: jsstring
  pp_approval :: jsstring
  pp_thread_name :: jsstring
  pp_message :: jsstring

definition parsePayload :: "js \<Rightarrow> parsed_payload" where
  "parsePayload body =
     (let ps = lenient_struct (field (lenient_struct body) ''params''); msg = lenient_struct (field ps ''msg'')
      in \<lparr>pp_name = lenient_string ps ''name'', pp_model = lenient_string msg ''model'',
          pp_cwd = lenient_string msg ''cwd'', pp_approval = lenient_string msg ''approval_policy'',
          pp_thread_name = lenient_string msg ''thread_name'', pp_message = lenient_string msg ''message''\<rparr>)"

definition extractSessionFields :: "jsstring \<Rightarrow> parsed_payload \<Rightarrow> jsstring \<times> jsstring \<times> jsstring" where
  "extractSessionFields ty p =
     (if ty \<noteq> jstr ''session_configured'' then ([], [], []) else (pp_model p, pp_cwd p, pp_approval p))"

text \<open>\<open>summarizeForTitle\<close> cuts after 80 bytes of UTF-8. The runes of a text (a lone surrogate is read as
  the replacement character), and what the browser gets for the first bytes of a text: a rune that
  was cut is a replacement character for each of its bytes.\<close>

fun runes :: "nat list \<Rightarrow> nat list" where
  "runes [] = []"
| "runes (u # us) =
     (if u < 0xD800 \<or> 0xE000 \<le> u then u # runes us
      else if u < 0xDC00 then
        (case us of [] \<Rightarrow> [0xFFFD]
         | v # vs \<Rightarrow> if 0xDC00 \<le> v \<and> v < 0xE000
             then (0x10000 + (u - 0xD800) * 1024 + (v - 0xDC00)) # runes vs else 0xFFFD # runes us)
      else 0xFFFD # runes us)"

definition go_space :: "nat \<Rightarrow> bool" where
  "go_space c \<longleftrightarrow> 9 \<le> c \<and> c \<le> 13 \<or> c \<in> set [0x20, 0x85, 0xA0, 0x1680, 0x2028, 0x2029, 0x202F, 0x205F, 0x3000]
     \<or> 0x2000 \<le> c \<and> c \<le> 0x200A"

text \<open>\<open>strings.Fields\<close>.\<close>

fun fields_from :: "nat list \<Rightarrow> nat list \<Rightarrow> nat list list" where
  "fields_from w [] = (if w = [] then [] else [w])"
| "fields_from w (c # cs) =
     (if go_space c then (if w = [] then fields_from [] cs else w # fields_from [] cs)
      else fields_from (w @ [c]) cs)"

text \<open>\<open>strings.Join(words, " ")\<close>.\<close>

fun spaced :: "nat list list \<Rightarrow> nat list" where
  "spaced [] = []"
| "spaced [w] = w"
| "spaced (w # ws) = w @ 0x20 # spaced ws"

definition byte_length :: "nat list \<Rightarrow> nat" where
  "byte_length ps = length (concat (map utf8_bytes ps))"

fun cut_bytes :: "nat \<Rightarrow> nat list \<Rightarrow> nat list" where
  "cut_bytes n [] = []"
| "cut_bytes n (p # ps) =
     (if length (utf8_bytes p) \<le> n then p # cut_bytes (n - length (utf8_bytes p)) ps else replicate n 0xFFFD)"

definition title_max :: nat where
  "title_max = 80"

definition summarizeForTitle :: "jsstring \<Rightarrow> jsstring" where
  "summarizeForTitle s =
     (let joined = spaced (fields_from [] (runes (map unat s))) in
      if byte_length joined \<le> title_max then js_of_points joined
      else js_of_points (cut_bytes title_max joined @ [0x2026]))"

definition writeSessionTitle ::
    "jsstring \<Rightarrow> jsstring \<Rightarrow> parsed_payload \<Rightarrow> (jsstring, session_row) jsmap \<Rightarrow> (jsstring, session_row) jsmap" where
  "writeSessionTitle sid ty p m =
     (if ty = jstr ''thread_name_updated'' then
        (if pp_thread_name p \<noteq> [] then SetSessionTitleAlways sid (pp_thread_name p) m else m)
      else if ty = jstr ''session_configured'' then
        (if pp_thread_name p \<noteq> [] then SetSessionTitleIfEmpty sid (pp_thread_name p) m else m)
      else if ty = jstr ''user_message'' then
        (if summarizeForTitle (pp_message p) \<noteq> []
         then SetSessionTitleIfEmpty sid (summarizeForTitle (pp_message p)) m else m)
      else m)"

subsection \<open>Calls\<close>

definition UpsertMCPCall ::
    "64 word \<Rightarrow> jsstring \<Rightarrow> call_row \<Rightarrow> (jsstring, call_row) jsmap \<Rightarrow> (jsstring, call_row) jsmap" where
  "UpsertMCPCall now rid c m =
     map_put m rid (case map_get m rid of
       None \<Rightarrow> c\<lparr>cr_started := (if cr_started c = 0 then now else cr_started c)\<rparr>
     | Some r \<Rightarrow> r\<lparr>cr_session := opt_or (cr_session c) (cr_session r),
                  cr_completed := opt_or (cr_completed c) (cr_completed r),
                  cr_status := opt_or (cr_status c) (cr_status r)\<rparr>)"

definition CompleteMCPCall ::
    "64 word \<Rightarrow> jsstring \<Rightarrow> 64 word \<Rightarrow> jsstring \<Rightarrow> (jsstring, call_row) jsmap \<Rightarrow> (jsstring, call_row) jsmap" where
  "CompleteMCPCall now rid completedAt status m =
     update_row rid (\<lambda>r. r\<lparr>cr_completed := Some (if completedAt = 0 then now else completedAt),
       cr_status := nullString status\<rparr>) m"

subsection \<open>Deriving the rows of an event\<close>

definition derive_session ::
    "64 word \<Rightarrow> ingest_event \<Rightarrow> (jsstring, session_row) jsmap \<Rightarrow> (jsstring, session_row) jsmap" where
  "derive_session now body m =
     (if in_session_id body \<noteq> [] \<and> in_client_source_key body \<noteq> [] then
        (case extractSessionFields (in_event_type body) (parsePayload (in_payload body)) of (mdl, dir, approval) \<Rightarrow>
           writeSessionTitle (in_session_id body) (in_event_type body) (parsePayload (in_payload body))
             (UpsertSession now (in_session_id body) (in_client_source_key body) mdl dir approval m))
      else m)"

definition derive_call ::
    "64 word \<Rightarrow> 64 word \<Rightarrow> ingest_event \<Rightarrow> (jsstring, call_row) jsmap \<Rightarrow> (jsstring, call_row) jsmap" where
  "derive_call now occurredAt body m =
     (let p = parsePayload (in_payload body);
          begun = in_request_id body \<noteq> [] \<and> in_direction body = jstr ''upstream_to_codex''
            \<and> in_event_type body = jstr ''tools/call'' \<and> pp_name p \<noteq> []
            \<and> in_proxy_instance_id body \<noteq> [] \<and> in_client_source_key body \<noteq> [];
          m = (if begun then UpsertMCPCall now (in_request_id body)
                 \<lparr>cr_proxy = in_proxy_instance_id body, cr_source = in_client_source_key body,
                  cr_session = nullString (in_session_id body), cr_tool = pp_name p, cr_started = occurredAt,
                  cr_completed = None, cr_status = None\<rparr> m else m);
          ended = in_request_id body \<noteq> [] \<and> in_direction body = jstr ''codex_to_upstream''
            \<and> (in_category body = jstr ''response'' \<or> in_category body = jstr ''error'');
          status = (if in_category body = jstr ''error'' then jstr ''error'' else jstr ''ok'')
      in if ended then CompleteMCPCall now (in_request_id body) occurredAt status m else m)"

definition derivePersistentRows :: "64 word \<Rightarrow> 64 word \<Rightarrow> ingest_event \<Rightarrow> hub_db \<Rightarrow> hub_db" where
  "derivePersistentRows now occurredAt body db =
     db\<lparr>db_sessions := derive_session now body (db_sessions db),
        db_calls := derive_call now occurredAt body (db_calls db)\<rparr>"

text \<open>The whole handler: the event is stored, the rows are derived, the event is published. When the
  insertion fails nothing is derived.\<close>

definition ingest ::
    "(jsstring \<Rightarrow> 64 word option) \<Rightarrow> (64 word \<Rightarrow> jsstring) \<Rightarrow> jsstring \<Rightarrow> 64 word \<Rightarrow> ingest_event \<Rightarrow> hub_db
     \<Rightarrow> (jsstring + broker_event) \<times> hub_db" where
  "ingest parse fmt hex now body db =
     (case eventsHandler parse fmt hex now body (db_events db) of
        (Inl err, rows) \<Rightarrow> (Inl err, db\<lparr>db_events := rows\<rparr>)
      | (Inr b, rows) \<Rightarrow> (Inr b, derivePersistentRows now (ev_occurred_at (ingest_record parse now body)) body
                                  (db\<lparr>db_events := rows\<rparr>)))"

subsection \<open>Registration\<close>

definition UpsertClientSource ::
    "64 word \<Rightarrow> registration \<Rightarrow> (jsstring, source_row) jsmap \<Rightarrow> (jsstring, source_row) jsmap" where
  "UpsertClientSource now g m =
     map_put m (rg_key g) (case map_get m (rg_key g) of
       None \<Rightarrow> \<lparr>so_reg = g, so_first_seen = now, so_last_seen = now\<rparr>
     | Some r \<Rightarrow> r\<lparr>so_reg := g, so_last_seen := now\<rparr>)"

definition RegisterProxy ::
    "64 word \<Rightarrow> jsstring \<Rightarrow> jsstring \<Rightarrow> int \<Rightarrow> (jsstring, proxy_row) jsmap \<Rightarrow> (jsstring, proxy_row) jsmap" where
  "RegisterProxy now inst source cpid m =
     map_put m inst (case map_get m inst of
       None \<Rightarrow> \<lparr>pr_source = nullString source, pr_pid = cpid, pr_started = now, pr_heartbeat = now, pr_exited = None\<rparr>
     | Some r \<Rightarrow> r\<lparr>pr_source := nullString source, pr_pid := cpid, pr_heartbeat := now, pr_exited := None\<rparr>)"

definition HeartbeatProxy :: "64 word \<Rightarrow> jsstring \<Rightarrow> (jsstring, proxy_row) jsmap \<Rightarrow> (jsstring, proxy_row) jsmap" where
  "HeartbeatProxy now inst m = update_row inst (\<lambda>r. r\<lparr>pr_heartbeat := now\<rparr>) m"

text \<open>\<open>registerHandler\<close> and \<open>heartbeatHandler\<close>; \<open>False\<close> is the response 400.\<close>

definition registerHandler ::
    "64 word \<Rightarrow> jsstring \<Rightarrow> jsstring \<Rightarrow> int \<Rightarrow> registration \<Rightarrow> hub_db \<Rightarrow> bool \<times> hub_db" where
  "registerHandler now inst source cpid g db =
     (if inst = [] \<or> source = [] then (False, db)
      else (True, db\<lparr>db_sources := UpsertClientSource now g (db_sources db),
                     db_proxies := RegisterProxy now inst source cpid (db_proxies db)\<rparr>))"

definition heartbeatHandler :: "64 word \<Rightarrow> jsstring \<Rightarrow> hub_db \<Rightarrow> bool \<times> hub_db" where
  "heartbeatHandler now inst db =
     (if inst = [] then (False, db) else (True, db\<lparr>db_proxies := HeartbeatProxy now inst (db_proxies db)\<rparr>))"

subsection \<open>The list endpoints\<close>

definition latest_first :: "('v \<Rightarrow> 64 word) \<Rightarrow> 'k \<times> 'v \<Rightarrow> 'k \<times> 'v \<Rightarrow> int" where
  "latest_first seen x y = sint (seen (snd y)) - sint (seen (snd x))"

definition ListSessionsBySource ::
    "jsstring \<Rightarrow> (jsstring, session_row) jsmap \<Rightarrow> (jsstring \<times> session_row) list" where
  "ListSessionsBySource source m =
     js_sort (latest_first sr_last_seen) (filter (\<lambda>(k, r). sr_source r = source) m)"

definition toSessionDTO :: "(64 word \<Rightarrow> jsstring) \<Rightarrow> jsstring \<times> session_row \<Rightarrow> session" where
  "toSessionDTO fmt x = (case x of (k, r) \<Rightarrow>
     \<lparr>s_thread_id = k, s_source_key = sr_source r, s_title = nullString (opt_default (sr_title r) []),
      model = nullString (opt_default (sr_model r) []), s_cwd = nullString (opt_default (sr_cwd r) []),
      approval_policy = nullString (opt_default (sr_approval r) []), sandbox = None,
      first_seen = unixMillisToISO fmt (sr_first_seen r), last_seen = unixMillisToISO fmt (sr_last_seen r),
      s_status = None\<rparr>)"

definition sessionsForClientSourceHandler ::
    "(64 word \<Rightarrow> jsstring) \<Rightarrow> hub_db \<Rightarrow> jsstring \<Rightarrow> session list http_response" where
  "sessionsForClientSourceHandler fmt db key = HttpOk (map (toSessionDTO fmt) (ListSessionsBySource key (db_sessions db)))"

definition ListClientSourcesWithSessionCounts :: "hub_db \<Rightarrow> ((jsstring \<times> source_row) \<times> nat) list" where
  "ListClientSourcesWithSessionCounts db =
     map (\<lambda>x. (x, length (filter (\<lambda>(k, r). sr_source r = fst x) (db_sessions db))))
       (js_sort (latest_first so_last_seen) (db_sources db))"

definition toClientSourceDTO :: "(64 word \<Rightarrow> jsstring) \<Rightarrow> (jsstring \<times> source_row) \<times> nat \<Rightarrow> client_source" where
  "toClientSourceDTO fmt x = (case x of ((k, r), n) \<Rightarrow>
     \<lparr>cs_source_key = k, client_name = rg_name (so_reg r), pid = rg_pid (so_reg r),
      protocol_version = nullString (rg_protocol (so_reg r)), executable = nullString (rg_executable (so_reg r)),
      cs_cwd = nullString (rg_cwd (so_reg r)), cs_first_seen = unixMillisToISO fmt (so_first_seen r),
      cs_last_seen = unixMillisToISO fmt (so_last_seen r), session_count = int n\<rparr>)"

definition clientSourcesHandler :: "(64 word \<Rightarrow> jsstring) \<Rightarrow> hub_db \<Rightarrow> client_source list http_response" where
  "clientSourcesHandler fmt db = HttpOk (map (toClientSourceDTO fmt) (ListClientSourcesWithSessionCounts db))"

subsection \<open>The sessions table as a function of what was ingested\<close>

text \<open>The events, with the times of their upserts, that count for a session.\<close>

definition of_session :: "jsstring \<Rightarrow> (64 word \<times> ingest_event) list \<Rightarrow> (64 word \<times> ingest_event) list" where
  "of_session t xs = filter (\<lambda>(now, b). in_session_id b = t \<and> in_client_source_key b \<noteq> []) xs"

text \<open>The non-empty values of a field in the events of a type.\<close>

definition said :: "string \<Rightarrow> (parsed_payload \<Rightarrow> jsstring) \<Rightarrow> (64 word \<times> ingest_event) list \<Rightarrow> jsstring list" where
  "said ty f xs = filter (\<lambda>s. s \<noteq> []) (map (\<lambda>(now, b). f (parsePayload (in_payload b)))
     (filter (\<lambda>(now, b). in_event_type b = jstr ty) xs))"

definition suggestion :: "ingest_event \<Rightarrow> jsstring" where
  "suggestion b = (let p = parsePayload (in_payload b) in
     if in_event_type b = jstr ''session_configured'' then pp_thread_name p
     else if in_event_type b = jstr ''user_message'' then summarizeForTitle (pp_message p) else [])"

text \<open>The last rename, else the first suggestion.\<close>

definition title_spec :: "(64 word \<times> ingest_event) list \<Rightarrow> jsstring option" where
  "title_spec xs = opt_or (last_of (said ''thread_name_updated'' pp_thread_name xs))
     (case filter (\<lambda>s. s \<noteq> []) (map (\<lambda>(now, b). suggestion b) xs) of [] \<Rightarrow> None | s # ss \<Rightarrow> Some s)"

definition row_spec :: "(64 word \<times> ingest_event) list \<Rightarrow> session_row option" where
  "row_spec xs =
     (if xs = [] then None
      else Some \<lparr>sr_source = in_client_source_key (snd (last xs)),
        sr_model = last_of (said ''session_configured'' pp_model xs),
        sr_cwd = last_of (said ''session_configured'' pp_cwd xs),
        sr_approval = last_of (said ''session_configured'' pp_approval xs),
        sr_title = title_spec xs, sr_first_seen = fst (hd xs), sr_last_seen = fst (last xs)\<rparr>)"

definition session_spec :: "jsstring \<Rightarrow> (64 word \<times> ingest_event) list \<Rightarrow> session_row option" where
  "session_spec t xs = row_spec (of_session t xs)"

definition run_sessions :: "(64 word \<times> ingest_event) list \<Rightarrow> (jsstring, session_row) jsmap" where
  "run_sessions xs = foldl (\<lambda>m (now, b). derive_session now b m) [] xs"

lemma said_snoc:
  "said ty f (xs @ [(now, b)]) = said ty f xs
     @ (if in_event_type b = jstr ty \<and> f (parsePayload (in_payload b)) \<noteq> [] then [f (parsePayload (in_payload b))] else [])"
  by (simp add: said_def)

lemma said_Nil [simp]: "said ty f [] = []"
  by (simp add: said_def)

lemma said_ne: "last_of (said ty f xs) \<noteq> Some []"
  using last_in_set [of "said ty f xs"] by (auto simp: last_of_def said_def)

lemma title_spec_ne: "title_spec xs \<noteq> Some []"
proof -
  have "hd (filter (\<lambda>s. s \<noteq> []) ys) \<noteq> []" if "filter (\<lambda>s. s \<noteq> []) ys \<noteq> []" for ys :: "jsstring list"
    using hd_in_set [OF that] by simp
  from this [of "map (\<lambda>(now, b). suggestion b) xs"] show ?thesis
    using said_ne [of "''thread_name_updated''" pp_thread_name xs]
    by (auto simp: title_spec_def opt_or_def split: option.splits list.splits)
qed

text \<open>What one event does to the row of its session.\<close>

definition upserted :: "64 word \<Rightarrow> ingest_event \<Rightarrow> session_row option \<Rightarrow> session_row" where
  "upserted now b old =
     (let p = parsePayload (in_payload b);
          new = (\<lambda>f. if in_event_type b = jstr ''session_configured'' then nullString (f p) else None)
      in case old of
        None \<Rightarrow> \<lparr>sr_source = in_client_source_key b, sr_model = new pp_model, sr_cwd = new pp_cwd,
                 sr_approval = new pp_approval, sr_title = None, sr_first_seen = now, sr_last_seen = now\<rparr>
      | Some r \<Rightarrow> r\<lparr>sr_source := in_client_source_key b, sr_model := opt_or (new pp_model) (sr_model r),
                   sr_cwd := opt_or (new pp_cwd) (sr_cwd r),
                   sr_approval := opt_or (new pp_approval) (sr_approval r), sr_last_seen := now\<rparr>)"

definition retitled :: "ingest_event \<Rightarrow> jsstring option \<Rightarrow> jsstring option" where
  "retitled b old =
     (let name = pp_thread_name (parsePayload (in_payload b)) in
      if in_event_type b = jstr ''thread_name_updated'' then (if name = [] then old else Some name)
      else if old = None \<or> old = Some [] then (if suggestion b = [] then old else Some (suggestion b))
      else old)"

definition entered :: "64 word \<Rightarrow> ingest_event \<Rightarrow> session_row option \<Rightarrow> session_row" where
  "entered now b old = (upserted now b old)\<lparr>sr_title := retitled b (sr_title (upserted now b old))\<rparr>"

lemma event_types_apart [simp]:
  "jstr ''session_configured'' \<noteq> jstr ''thread_name_updated''" "jstr ''user_message'' \<noteq> jstr ''thread_name_updated''"
  "jstr ''user_message'' \<noteq> jstr ''session_configured''"
  by (simp_all add: jstr_def)

lemma get_writeSessionTitle:
  assumes "in_session_id b \<noteq> []"
  shows "map_get (writeSessionTitle (in_session_id b) (in_event_type b) (parsePayload (in_payload b)) m) t =
    (if t = in_session_id b then map_option (\<lambda>r. r\<lparr>sr_title := retitled b (sr_title r)\<rparr>) (map_get m t)
     else map_get m t)"
  using assms
  by (cases "map_get m (in_session_id b)")
    (auto simp: writeSessionTitle_def SetSessionTitleAlways_def SetSessionTitleIfEmpty_def retitled_def
      suggestion_def Let_def)

lemma get_derive_session:
  "map_get (derive_session now b m) t =
    (if t = in_session_id b \<and> t \<noteq> [] \<and> in_client_source_key b \<noteq> [] then Some (entered now b (map_get m t))
     else map_get m t)"
proof -
  have "map_get (UpsertSession now (in_session_id b) (in_client_source_key b) mdl dir approval m) t =
      (if t = in_session_id b then Some (upserted now b (map_get m t)) else map_get m t)"
    if "extractSessionFields (in_event_type b) (parsePayload (in_payload b)) = (mdl, dir, approval)"
    for mdl dir approval
    using that
    by (auto simp: UpsertSession_def upserted_def extractSessionFields_def nullString_def Let_def
        split: option.splits if_splits)
  then show ?thesis
    by (cases "extractSessionFields (in_event_type b) (parsePayload (in_payload b))")
      (auto simp: derive_session_def get_writeSessionTitle entered_def)
qed

lemma last_of_said_snoc:
  "last_of (said ty f (xs @ [(now, b)])) =
     opt_or (if in_event_type b = jstr ty then nullString (f (parsePayload (in_payload b))) else None)
       (last_of (said ty f xs))"
  by (simp add: said_snoc nullString_def opt_or_def)

lemma title_spec_snoc: "title_spec (xs @ [(now, b)]) = retitled b (title_spec xs)"
proof (cases "in_event_type b = jstr ''thread_name_updated''")
  case True
  then have "suggestion b = []"
    using event_types_apart by (auto simp: suggestion_def Let_def)
  with True show ?thesis
    by (auto simp: title_spec_def last_of_said_snoc retitled_def nullString_def opt_or_def Let_def split: option.split)
next
  case False
  with said_ne [of "''thread_name_updated''" pp_thread_name xs] title_spec_ne [of xs] show ?thesis
    by (auto simp: title_spec_def last_of_said_snoc retitled_def opt_or_def Let_def split: option.splits list.splits)
qed

lemma row_spec_snoc: "row_spec (xs @ [(now, b)]) = Some (entered now b (row_spec xs))"
proof (cases "xs = []")
  case True
  moreover have "title_spec [] = None" by (simp add: title_spec_def opt_or_def)
  ultimately show ?thesis
    using last_of_said_snoc [of _ _ "[]" now b] title_spec_snoc [of "[]" now b]
    by (simp add: row_spec_def entered_def upserted_def opt_or_def Let_def split: option.split)
next
  case False
  then show ?thesis
    by (simp add: row_spec_def entered_def upserted_def last_of_said_snoc title_spec_snoc opt_or_def Let_def)
qed

lemma session_spec_snoc:
  "session_spec t (xs @ [(now, b)]) =
    (if t = in_session_id b \<and> in_client_source_key b \<noteq> [] then Some (entered now b (session_spec t xs))
     else session_spec t xs)"
  by (auto simp: session_spec_def of_session_def row_spec_snoc)

text \<open>C26. The sessions table refines its specification: whatever was ingested, the row of a session names the
  source of its last event, the last model, directory and approval policy that a configuration gave,
  the last name the session was given, or else the first thread name or user message that suggests
  one, and the times of its first and last event; there is a row exactly when there was an event.\<close>

theorem sessions_refine_spec:
  assumes "t \<noteq> []"
  shows "map_get (run_sessions xs) t = session_spec t xs"
proof (induction xs rule: rev_induct)
  case Nil
  show ?case by (simp add: run_sessions_def session_spec_def row_spec_def of_session_def)
next
  case (snoc x xs)
  obtain now b where x: "x = (now, b)" by (cases x)
  have "run_sessions (xs @ [x]) = derive_session now b (run_sessions xs)" by (simp add: run_sessions_def x)
  then show ?case using assms snoc by (auto simp: x session_spec_snoc get_derive_session)
qed

lemma sessions_refine_spec_witness:
  "map_option sr_title (map_get (run_sessions
     [(7, sample_ingest\<lparr>in_client_source_key := jstr ''src'', in_event_type := jstr ''user_message'',
         in_payload := JObj [(jstr ''params'', JObj [(jstr ''msg'', JObj [(jstr ''message'', JStr (jstr '' Fix  it ''))])])]\<rparr>)])
     (jstr ''th'')) = Some (Some (jstr ''Fix it''))"
proof -
  have "summarizeForTitle (jstr '' Fix  it '') = jstr ''Fix it''"
    by (simp add: summarizeForTitle_def byte_length_def title_max_def jstr_def unit_of_char_def go_space_def
        js_of_points_def utf16_units.simps utf8_bytes.simps Let_def)
  then show ?thesis
    using event_types_apart
    by (simp add: sessions_refine_spec jstr_def [of "[]"] session_spec_def of_session_def row_spec_def sample_ingest_def
        title_spec_def said_def suggestion_def parsePayload_def lenient_struct_def lenient_string_def field_def
        opt_or_def Let_def)
qed

text \<open>A message whose eightieth byte falls into a character: its title ends in replacement characters.\<close>

lemma title_splits_character:
  "summarizeForTitle (replicate 79 0x61 @ [0xE9, 0x62]) = replicate 79 0x61 @ [0xFFFD, 0x2026]"
proof -
  have r: "runes (map unat (replicate n (0x61 :: code_unit) @ [0xE9, 0x62])) = replicate n 0x61 @ [0xE9, 0x62]" for n
    by (induction n) simp_all
  have f: "fields_from w (replicate n 0x61 @ [0xE9, 0x62]) = [w @ replicate n 0x61 @ [0xE9, 0x62]]" for w n
    by (induction n arbitrary: w) (simp_all add: go_space_def)
  have l: "concat (map utf8_bytes (replicate n 0x61)) = replicate n 0x61" for n
    by (induction n) (simp_all add: utf8_bytes.simps)
  have c: "cut_bytes (n + 1) (replicate n 0x61 @ [0xE9, 0x62]) = replicate n 0x61 @ [0xFFFD]" for n
    by (induction n) (simp_all add: utf8_bytes.simps)
  have j: "js_of_points (replicate n 0x61 @ [0xFFFD, 0x2026]) = replicate n 0x61 @ [0xFFFD, 0x2026]" for n
    by (induction n) (simp_all add: js_of_points_def utf16_units.simps)
  have "summarizeForTitle (replicate n 0x61 @ [0xE9, 0x62]) = replicate n 0x61 @ [0xFFFD, 0x2026]"
    if n: "title_max = n + 1" for n
    unfolding summarizeForTitle_def r f Let_def n
    using c [of n] j [of n] by (simp add: byte_length_def l utf8_bytes.simps)
  from this [of 79] show ?thesis by (simp add: title_max_def)
qed

text \<open>What an ingestion leaves in the sessions table.\<close>

lemma ingested_session:
  assumes "ingest parse fmt hex now body db = (Inr b, db')"
    and "in_session_id body = t" and "t \<noteq> []" and "in_client_source_key body = k" and "k \<noteq> []"
  shows "\<exists>r. map_get (db_sessions db') t = Some r \<and> sr_source r = k \<and> db_sources db' = db_sources db"
proof -
  from assms(1) have "db_sessions db' = derive_session now body (db_sessions db)" "db_sources db' = db_sources db"
    by (auto simp: ingest_def derivePersistentRows_def split: prod.splits sum.splits)
  then show ?thesis
    using assms(2-5) by (simp add: get_derive_session entered_def upserted_def Let_def split: option.split)
qed

lemma session_endpoint:
  assumes "map_get (db_sessions db) t = Some r"
  shows "\<exists>s\<in>set (projr (getJSON (sessionsForClientSourceHandler fmt db (sr_source r)))). s_thread_id s = t"
  using map_get_mem [OF assms]
  by (force simp: getJSON_def sessionsForClientSourceHandler_def ListSessionsBySource_def toSessionDTO_def)

lemma source_endpoint:
  assumes "map_get (db_sources db) k \<noteq> None"
  shows "k \<in> cs_source_key ` set (projr (getJSON (clientSourcesHandler fmt db)))"
  using map_get_mem [of "db_sources db" k] assms
  by (force simp: getJSON_def clientSourcesHandler_def ListClientSourcesWithSessionCounts_def toClientSourceDTO_def)

end
