(* ===== verification/Hub_Detail.thy ===== *)
theory Hub_Detail
  imports Hub_Sessions
begin

section \<open>The hub's detail endpoint, its proxies and the repair of old databases\<close>

text \<open>
  \<open>sessionDetailHandler\<close> and \<open>proxiesHandler\<close> of \<^verbatim>\<open>internal/hub/http/query.go\<close>, with the operations of
  \<^verbatim>\<open>internal/store/sqlite/store.go\<close> behind them, and \<open>BackfillSessionsFromEvents\<close>, which \<open>NewApp\<close> runs
  when the hub starts. The three lookups of the detail handler run concurrently on one state of the
  database; the only one that can fail is that of the source. A lookup without a row is \<open>None\<close>
  (\<open>sql.ErrNoRows\<close>).
\<close>

definition GetSession :: "hub_db \<Rightarrow> jsstring \<Rightarrow> session_row option" where
  "GetSession db sid = map_get (db_sessions db) sid"

definition GetClientSource :: "hub_db \<Rightarrow> jsstring \<Rightarrow> source_row option" where
  "GetClientSource db key = map_get (db_sources db) key"

definition CountSessionsByClientSource :: "hub_db \<Rightarrow> jsstring \<Rightarrow> nat" where
  "CountSessionsByClientSource db key = length (filter (\<lambda>(k, r). sr_source r = key) (db_sessions db))"

definition ListSessionEvents ::
    "(jsstring \<Rightarrow> jsstring \<Rightarrow> int) \<Rightarrow> event_row list \<Rightarrow> jsstring \<Rightarrow> int \<Rightarrow> jsstring \<Rightarrow> jsstring + stored_event list" where
  "ListSessionEvents bin rows sessionID limit cursor =
     (case ListSessionEventsPage bin rows sessionID limit cursor of
        Inl err \<Rightarrow> Inl err | Inr (evs, nxt) \<Rightarrow> Inr evs)"

text \<open>The argument is \<open>None\<close> when the hub has no store.\<close>

definition sessionDetailHandler ::
    "(jsstring \<Rightarrow> jsstring \<Rightarrow> int) \<Rightarrow> (64 word \<Rightarrow> jsstring) \<Rightarrow> hub_db option \<Rightarrow> jsstring \<Rightarrow> session_detail http_response" where
  "sessionDetailHandler bin fmt st threadID =
     (case st of
        None \<Rightarrow> HttpError 503 (jstr ''Service Unavailable'')
      | Some db \<Rightarrow>
          (case GetSession db threadID of
             None \<Rightarrow> HttpError 404 (jstr ''Not Found'')
           | Some s \<Rightarrow>
               (case (GetClientSource db (sr_source s), ListSessionEvents bin (db_events db) threadID 100 []) of
                  (Some so, Inr evs) \<Rightarrow> HttpOk
                    \<lparr>session_of = toSessionDTO fmt (threadID, s),
                     client_source_of = toClientSourceDTO fmt
                       ((sr_source s, so), CountSessionsByClientSource db (sr_source s)),
                     recent_events = map (toEventDTO fmt) evs\<rparr>
                | _ \<Rightarrow> HttpError 500 (jstr ''Internal Server Error''))))"

subsection \<open>Proxies\<close>

record proxy_dto =
  px_instance :: jsstring
  px_source :: jsstring
  px_pid :: int
  px_started :: jsstring
  px_heartbeat :: jsstring
  px_exited :: jsstring

definition ListActiveProxies :: "(jsstring, proxy_row) jsmap \<Rightarrow> (jsstring \<times> proxy_row) list" where
  "ListActiveProxies m = js_sort (latest_first pr_started) (filter (\<lambda>(k, r). pr_exited r = None) m)"

definition toProxyDTO :: "(64 word \<Rightarrow> jsstring) \<Rightarrow> jsstring \<times> proxy_row \<Rightarrow> proxy_dto" where
  "toProxyDTO fmt x = (case x of (k, r) \<Rightarrow>
     \<lparr>px_instance = k, px_source = opt_default (pr_source r) [], px_pid = pr_pid r,
      px_started = unixMillisToISO fmt (pr_started r), px_heartbeat = unixMillisToISO fmt (pr_heartbeat r),
      px_exited = unixMillisToISO fmt (opt_default (pr_exited r) 0)\<rparr>)"

definition proxiesHandler :: "(64 word \<Rightarrow> jsstring) \<Rightarrow> hub_db option \<Rightarrow> proxy_dto list http_response" where
  "proxiesHandler fmt st = (case st of None \<Rightarrow> HttpOk []
     | Some db \<Rightarrow> HttpOk (map (toProxyDTO fmt) (ListActiveProxies (db_proxies db))))"

subsection \<open>The repair at the start\<close>

definition thread_rows :: "jsstring \<Rightarrow> event_row list \<Rightarrow> event_row list" where
  "thread_rows t rows = filter (\<lambda>r. r_session_id r = Some t) rows"

text \<open>\<open>MIN(occurred_at)\<close> and \<open>MAX(occurred_at)\<close> of the signed times of a group.\<close>

definition min_time :: "event_row list \<Rightarrow> 64 word" where
  "min_time rs = foldl (\<lambda>a r. if sint (r_occurred_at r) < sint a then r_occurred_at r else a) (r_occurred_at (hd rs)) rs"

definition max_time :: "event_row list \<Rightarrow> 64 word" where
  "max_time rs = foldl (\<lambda>a r. if sint a < sint (r_occurred_at r) then r_occurred_at r else a) (r_occurred_at (hd rs)) rs"

text \<open>The column \<open>client_source_key\<close> is not aggregated: SQLite takes it from one of the rows of the group,
  here the one that \<open>pick\<close> chooses.\<close>

definition backfill_row :: "(event_row list \<Rightarrow> event_row) \<Rightarrow> event_row list \<Rightarrow> jsstring \<Rightarrow> session_row" where
  "backfill_row pick rows t = (let g = thread_rows t rows in
     \<lparr>sr_source = opt_default (r_client_source_key (pick g)) [], sr_model = None, sr_cwd = None, sr_approval = None,
      sr_title = None, sr_first_seen = min_time g, sr_last_seen = max_time g\<rparr>)"

definition stored_threads :: "event_row list \<Rightarrow> jsstring list" where
  "stored_threads rows = firsts (filter (\<lambda>t. t \<noteq> []) (List.map_filter r_session_id rows))"

definition BackfillSessionsFromEvents :: "(event_row list \<Rightarrow> event_row) \<Rightarrow> hub_db \<Rightarrow> nat \<times> hub_db" where
  "BackfillSessionsFromEvents pick db =
     (if db_sessions db \<noteq> [] then (0, db)
      else let ts = stored_threads (db_events db) in
        (length ts, db\<lparr>db_sessions := map (\<lambda>t. (t, backfill_row pick (db_events db) t)) ts\<rparr>))"

subsection \<open>The detail endpoint\<close>

lemma list_first_events:
  assumes "collation bin"
  shows "ListSessionEvents bin rows t 100 [] =
    Inr (map eventRecordFromEventRow (take 100 (page_rows bin rows t None)))"
proof -
  obtain ts eid where k: "parseSessionEventCursor [] = Some (ts, eid)" by (simp add: parseSessionEventCursor_def)
  have "ListSessionEventsSince bin rows (nullString t) False ts eid 101 = take 101 (page_rows bin rows t None)"
    using since_page [OF assms, of None ts eid rows t 101] k by (simp add: cursor_ok_def)
  then show ?thesis by (simp add: ListSessionEvents_def ListSessionEventsPage_def k Let_def)
qed

lemma detail_found:
  assumes "collation bin" and "map_get (db_sessions db) t = Some s" and "map_get (db_sources db) (sr_source s) = Some so"
  shows "sessionDetailHandler bin fmt (Some db) t = HttpOk
    \<lparr>session_of = toSessionDTO fmt (t, s),
     client_source_of = toClientSourceDTO fmt ((sr_source s, so), CountSessionsByClientSource db (sr_source s)),
     recent_events = map (row_dto fmt) (take 100 (page_rows bin (db_events db) t None))\<rparr>"
  by (simp add: sessionDetailHandler_def GetSession_def GetClientSource_def assms(2,3)
      list_first_events [OF assms(1)] row_dto_def comp_def)

text \<open>C27. The detail of a session agrees with the lists: it is returned exactly for a thread that has a
  row and whose source is registered (404 without the row, 500 without the source); its session is
  the one the source's list holds, its source, with the number of sessions, the one the list of
  sources holds, and its events are the first hundred of the thread's history.\<close>

theorem session_detail_agrees_with_lists:
  assumes "collation bin"
  shows "case sessionDetailHandler bin fmt (Some db) t of
     HttpError code reason \<Rightarrow>
       (if map_get (db_sessions db) t = None then code = 404
        else code = 500 \<and> map_get (db_sources db) (sr_source (the (map_get (db_sessions db) t))) = None)
   | HttpOk d \<Rightarrow> s_thread_id (session_of d) = t
       \<and> session_of d \<in> set (projr (getJSON (sessionsForClientSourceHandler fmt db (s_source_key (session_of d)))))
       \<and> cs_source_key (client_source_of d) = s_source_key (session_of d)
       \<and> client_source_of d \<in> set (projr (getJSON (clientSourcesHandler fmt db)))
       \<and> recent_events d = map (row_dto fmt) (take 100 (page_rows bin (db_events db) t None))"
proof (cases "map_get (db_sessions db) t")
  case None
  then show ?thesis by (simp add: sessionDetailHandler_def GetSession_def)
next
  case s: (Some s)
  show ?thesis
  proof (cases "map_get (db_sources db) (sr_source s)")
    case None
    with s show ?thesis by (simp add: sessionDetailHandler_def GetSession_def GetClientSource_def)
  next
    case (Some so)
    have "(t, s) \<in> set (db_sessions db)" "(sr_source s, so) \<in> set (db_sources db)"
      using s Some by (simp_all add: map_get_mem)
    then show ?thesis
      unfolding detail_found [OF assms s Some]
      by (force simp: getJSON_def sessionsForClientSourceHandler_def ListSessionsBySource_def toSessionDTO_def
          clientSourcesHandler_def ListClientSourcesWithSessionCounts_def toClientSourceDTO_def
          CountSessionsByClientSource_def)
  qed
qed

definition sample_registration :: registration where
  "sample_registration = \<lparr>rg_key = jstr ''src'', rg_pid = 7, rg_protocol = [], rg_name = jstr ''cli'', rg_version = [],
     rg_capabilities = [], rg_executable = [], rg_command = [], rg_cwd = []\<rparr>"

definition empty_db :: hub_db where
  "empty_db = \<lparr>db_events = [], db_sessions = [], db_calls = [], db_sources = [], db_proxies = []\<rparr>"

text \<open>A hub after one registration and one event of the session \<open>th\<close>.\<close>

definition sample_db :: hub_db where
  "sample_db = snd (ingest (\<lambda>_. None) (\<lambda>w. show_int (sint w)) (jstr ''0a'') 7 sample_ingest
     (snd (registerHandler 5 (jstr ''proxy-1'') (jstr ''src'') 7 sample_registration empty_db)))"

lemma sample_db_session:
  "map_option sr_source (map_get (db_sessions sample_db) (jstr ''th'')) = Some (jstr ''src'')"
  "map_get (db_sources sample_db) (jstr ''src'') \<noteq> None"
  by (simp_all add: sample_db_def ingest_def eventsHandler_def AppendEventReturningID_def ingest_record_def
      sample_ingest_def registerHandler_def empty_db_def sample_registration_def derivePersistentRows_def
      get_derive_session entered_def upserted_def UpsertClientSource_def Let_def)

lemma session_detail_agrees_with_lists_witness:
  "case sessionDetailHandler compare_units (\<lambda>w. show_int (sint w)) (Some sample_db) (jstr ''th'') of
     HttpError code reason \<Rightarrow> False
   | HttpOk d \<Rightarrow> s_thread_id (session_of d) = jstr ''th''
       \<and> client_source_of d \<in> set (projr (getJSON (clientSourcesHandler (\<lambda>w. show_int (sint w)) sample_db)))"
proof -
  have "map_get (db_sessions sample_db) (jstr ''th'') \<noteq> None"
      "map_get (db_sources sample_db) (sr_source (the (map_get (db_sessions sample_db) (jstr ''th'')))) \<noteq> None"
    using sample_db_session by auto
  with session_detail_agrees_with_lists [OF units.collation_axioms,
      where fmt = "\<lambda>w. show_int (sint w)" and db = sample_db and t = "jstr ''th''"]
  show ?thesis by (auto split: http_response.splits)
qed

subsection \<open>Proxies never leave\<close>

text \<open>The requests that change the table of proxies. Nothing else does: \<open>MarkProxyExited\<close> is generated
  from the SQL, but no code calls it.\<close>

datatype proxy_request =
    Register "64 word" jsstring jsstring int registration
  | Heartbeat "64 word" jsstring

fun proxy_step :: "hub_db \<Rightarrow> proxy_request \<Rightarrow> hub_db" where
  "proxy_step db (Register now inst source cpid g) = snd (registerHandler now inst source cpid g db)"
| "proxy_step db (Heartbeat now inst) = snd (heartbeatHandler now inst db)"

text \<open>No proxy has an exit time, and those of a set are in the table.\<close>

definition proxies_alive :: "jsstring set \<Rightarrow> hub_db \<Rightarrow> bool" where
  "proxies_alive ids db \<longleftrightarrow> (\<forall>p\<in>set (db_proxies db). pr_exited (snd p) = None)
     \<and> (\<forall>i\<in>ids. map_get (db_proxies db) i \<noteq> None)"

lemma map_put_all: "(\<forall>p\<in>set m. P (snd p)) \<Longrightarrow> P v \<Longrightarrow> \<forall>p\<in>set (map_put m k v). P (snd p)"
  using set_map_put [of m k v] by auto

lemma proxies_alive_put:
  "proxies_alive ids db \<Longrightarrow> pr_exited r = None \<Longrightarrow>
   proxies_alive (insert i ids) (db\<lparr>db_sources := so, db_proxies := map_put (db_proxies db) i r\<rparr>)"
  using map_put_all [of "db_proxies db" "\<lambda>r. pr_exited r = None" r i] by (simp add: proxies_alive_def)

lemma proxies_alive_register:
  "proxies_alive ids db \<Longrightarrow> proxies_alive ids (proxy_step db (Register now i source cpid g))
     \<and> (i \<noteq> [] \<longrightarrow> source \<noteq> [] \<longrightarrow> proxies_alive (insert i ids) (proxy_step db (Register now i source cpid g)))"
  using proxies_alive_put [of ids db "case map_get (db_proxies db) i of
       None \<Rightarrow> \<lparr>pr_source = nullString source, pr_pid = cpid, pr_started = now, pr_heartbeat = now, pr_exited = None\<rparr>
     | Some r \<Rightarrow> r\<lparr>pr_source := nullString source, pr_pid := cpid, pr_heartbeat := now, pr_exited := None\<rparr>" i
     "UpsertClientSource now g (db_sources db)"]
  by (auto simp: registerHandler_def RegisterProxy_def proxies_alive_def split: option.splits)

lemma proxies_alive_heartbeat:
  "proxies_alive ids db \<Longrightarrow> proxies_alive ids (proxy_step db (Heartbeat now i))"
proof (cases "map_get (db_proxies db) i")
  case (Some r)
  assume ok: "proxies_alive ids db"
  with Some map_get_mem [OF Some] have "pr_exited (r\<lparr>pr_heartbeat := now\<rparr>) = None"
    by (auto simp: proxies_alive_def)
  from proxies_alive_put [OF ok this, of i "db_sources db"] Some ok show ?thesis
    by (auto simp: heartbeatHandler_def HeartbeatProxy_def update_row_def proxies_alive_def)
qed (simp add: heartbeatHandler_def HeartbeatProxy_def update_row_def)

lemma proxies_alive_step: "proxies_alive ids db \<Longrightarrow> proxies_alive ids (proxy_step db a)"
  using proxies_alive_register proxies_alive_heartbeat by (cases a) auto

interpretation proxies: fold_invariant proxy_step "proxies_alive ids" for ids
  by unfold_locales (rule proxies_alive_step)

text \<open>The list of active proxies never shrinks: whatever registrations and heartbeats follow, and
  however long ago its last heartbeat was, a proxy that has registered once is listed as active.\<close>

theorem registered_proxy_stays_active:
  assumes "Register now i source cpid g \<in> set reqs" and "i \<noteq> []" and "source \<noteq> []"
  shows "i \<in> px_instance ` set (projr (getJSON (proxiesHandler fmt (Some (foldl proxy_step empty_db reqs)))))"
proof -
  obtain xs ys where reqs: "reqs = xs @ Register now i source cpid g # ys"
    using assms(1) by (auto simp: in_set_conv_decomp)
  have "proxies_alive {} empty_db" by (simp add: proxies_alive_def empty_db_def)
  then have "proxies_alive {} (foldl proxy_step empty_db xs)" by (rule proxies.foldl_inv)
  with assms(2,3) have "proxies_alive {i} (proxy_step (foldl proxy_step empty_db xs) (Register now i source cpid g))"
    using proxies_alive_register by blast
  then have "proxies_alive {i} (foldl proxy_step empty_db reqs)"
    unfolding reqs by (simp add: proxies.foldl_inv)
  then obtain r where "map_get (db_proxies (foldl proxy_step empty_db reqs)) i = Some r" "pr_exited r = None"
    by (fastforce simp: proxies_alive_def dest: map_get_mem)
  with map_get_mem [OF this(1)] show ?thesis
    by (force simp: getJSON_def proxiesHandler_def ListActiveProxies_def toProxyDTO_def)
qed

lemma registered_proxy_stays_active_witness:
  "jstr ''proxy-1'' \<in> px_instance ` set (projr (getJSON (proxiesHandler (\<lambda>w. show_int (sint w))
     (Some (foldl proxy_step empty_db [Register 5 (jstr ''proxy-1'') (jstr ''src'') 7 sample_registration,
        Heartbeat 6 (jstr ''proxy-1''), Register 900000000 (jstr ''proxy-2'') (jstr ''src'') 8 sample_registration])))))"
  by (rule registered_proxy_stays_active [of 5 _ "jstr ''src''" 7 sample_registration]) simp_all

subsection \<open>The repair\<close>

lemma min_time_from:
  "(\<forall>r\<in>set rs. sint (foldl (\<lambda>a r. if sint (r_occurred_at r) < sint a then r_occurred_at r else a) a rs) \<le> sint (r_occurred_at r))
   \<and> sint (foldl (\<lambda>a r. if sint (r_occurred_at r) < sint a then r_occurred_at r else a) a rs) \<le> sint a
   \<and> foldl (\<lambda>a r. if sint (r_occurred_at r) < sint a then r_occurred_at r else a) a rs \<in> insert a (r_occurred_at ` set rs)"
proof (induction rs arbitrary: a)
  case (Cons r rs)
  from Cons [of "if sint (r_occurred_at r) < sint a then r_occurred_at r else a"] show ?case
    by (auto split: if_splits)
qed simp

lemma max_time_from:
  "(\<forall>r\<in>set rs. sint (r_occurred_at r) \<le> sint (foldl (\<lambda>a r. if sint a < sint (r_occurred_at r) then r_occurred_at r else a) a rs))
   \<and> sint a \<le> sint (foldl (\<lambda>a r. if sint a < sint (r_occurred_at r) then r_occurred_at r else a) a rs)
   \<and> foldl (\<lambda>a r. if sint a < sint (r_occurred_at r) then r_occurred_at r else a) a rs \<in> insert a (r_occurred_at ` set rs)"
proof (induction rs arbitrary: a)
  case (Cons r rs)
  from Cons [of "if sint a < sint (r_occurred_at r) then r_occurred_at r else a"] show ?case
    by (auto split: if_splits)
qed simp

lemma min_max_time:
  assumes "rs \<noteq> []"
  shows "list_all (\<lambda>r. sint (min_time rs) \<le> sint (r_occurred_at r) \<and> sint (r_occurred_at r) \<le> sint (max_time rs)) rs
    \<and> min_time rs \<in> r_occurred_at ` set rs \<and> max_time rs \<in> r_occurred_at ` set rs"
  using min_time_from [of rs "r_occurred_at (hd rs)"] max_time_from [of rs "r_occurred_at (hd rs)"] assms
  by (auto simp: min_time_def max_time_def list_all_iff)

lemma set_stored_threads: "t \<in> set (stored_threads rows) \<longleftrightarrow> t \<noteq> [] \<and> thread_rows t rows \<noteq> []"
  by (auto simp: stored_threads_def map_filter_in thread_rows_def filter_empty_conv)

text \<open>C28. The repair of an old database is exact: when the table of sessions is empty it gets one row for
  each thread that an event names, and no other, with the times of the first and the last event
  of the thread (as signed numbers) and the source of one of them; it reports their number, running it
  again changes nothing, and a table that has rows is left alone.\<close>

theorem backfill_spec:
  assumes "BackfillSessionsFromEvents pick db = (n, db')" and "\<And>g. g \<noteq> [] \<Longrightarrow> pick g \<in> set g"
  shows "(if db_sessions db \<noteq> [] then n = 0 \<and> db' = db
      else distinct (map_keys (db_sessions db')) \<and> n = length (db_sessions db')
        \<and> db' = db\<lparr>db_sessions := db_sessions db'\<rparr>
        \<and> (\<forall>t. case map_get (db_sessions db') t of
              None \<Rightarrow> t = [] \<or> thread_rows t (db_events db) = []
            | Some s \<Rightarrow> t \<noteq> [] \<and> thread_rows t (db_events db) \<noteq> []
                \<and> list_all (\<lambda>r. sint (sr_first_seen s) \<le> sint (r_occurred_at r)
                      \<and> sint (r_occurred_at r) \<le> sint (sr_last_seen s)) (thread_rows t (db_events db))
                \<and> {sr_first_seen s, sr_last_seen s} \<subseteq> r_occurred_at ` set (thread_rows t (db_events db))
                \<and> sr_source s \<in> (\<lambda>r. opt_default (r_client_source_key r) []) ` set (thread_rows t (db_events db))))
    \<and> BackfillSessionsFromEvents pick db' = (0, db')"
proof (cases "db_sessions db = []")
  case False
  with assms(1) show ?thesis by (auto simp: BackfillSessionsFromEvents_def)
next
  case True
  let ?ts = "stored_threads (db_events db)" and ?row = "backfill_row pick (db_events db)"
  let ?m = "map (\<lambda>t. (t, ?row t)) ?ts"
  have db': "n = length ?ts" "db' = db\<lparr>db_sessions := ?m\<rparr>"
    using assms(1) True by (simp_all add: BackfillSessionsFromEvents_def Let_def)
  have get: "map_get ?m t = (if t \<in> set ?ts then Some (?row t) else None)" for t
    by (auto simp: map_get_def map_of_map_restrict restrict_map_def)
  have again: "BackfillSessionsFromEvents pick db' = (0, db')"
    by (cases ?ts) (simp_all add: BackfillSessionsFromEvents_def db' Let_def)
  have row: "list_all (\<lambda>r. sint (sr_first_seen (?row t)) \<le> sint (r_occurred_at r)
        \<and> sint (r_occurred_at r) \<le> sint (sr_last_seen (?row t))) (thread_rows t (db_events db))
      \<and> {sr_first_seen (?row t), sr_last_seen (?row t)} \<subseteq> r_occurred_at ` set (thread_rows t (db_events db))
      \<and> sr_source (?row t) \<in> (\<lambda>r. opt_default (r_client_source_key r) []) ` set (thread_rows t (db_events db))"
    if "thread_rows t (db_events db) \<noteq> []" for t
    using min_max_time [OF that] assms(2) [OF that] by (simp add: backfill_row_def Let_def)
  have keys: "map_keys ?m = ?ts" by (simp add: map_keys_def comp_def)
  have dist: "distinct ?ts" unfolding stored_threads_def by (rule distinct_firsts)
  have all: "case map_get ?m t of
              None \<Rightarrow> t = [] \<or> thread_rows t (db_events db) = []
            | Some s \<Rightarrow> t \<noteq> [] \<and> thread_rows t (db_events db) \<noteq> []
                \<and> list_all (\<lambda>r. sint (sr_first_seen s) \<le> sint (r_occurred_at r)
                      \<and> sint (r_occurred_at r) \<le> sint (sr_last_seen s)) (thread_rows t (db_events db))
                \<and> {sr_first_seen s, sr_last_seen s} \<subseteq> r_occurred_at ` set (thread_rows t (db_events db))
                \<and> sr_source s \<in> (\<lambda>r. opt_default (r_client_source_key r) []) ` set (thread_rows t (db_events db))" for t
    using row [of t] unfolding get set_stored_threads by (simp split: if_split)
  have s': "db_sessions db' = ?m" by (simp add: db')
  show ?thesis using True again dist all unfolding s' keys by (simp add: db')
qed

lemma backfill_spec_witness:
  "map_option (\<lambda>s. (sr_source s, sr_first_seen s, sr_last_seen s)) (map_get (db_sessions (snd (BackfillSessionsFromEvents hd
     (sample_db\<lparr>db_sessions := []\<rparr>)))) (jstr ''th'')) = Some (jstr ''src'', 7, 7)"
proof -
  let ?db = "sample_db\<lparr>db_sessions := []\<rparr>"
  let ?r = "BackfillSessionsFromEvents hd ?db"
  have rows: "thread_rows (jstr ''th'') (db_events sample_db) \<noteq> []"
      "(\<lambda>r. opt_default (r_client_source_key r) []) ` set (thread_rows (jstr ''th'') (db_events sample_db)) = {jstr ''src''}"
      "r_occurred_at ` set (thread_rows (jstr ''th'') (db_events sample_db)) = {7}"
    by (simp_all add: sample_db_def ingest_def eventsHandler_def AppendEventReturningID_def ingest_record_def
        sample_ingest_def registerHandler_def empty_db_def derivePersistentRows_def thread_rows_def
        nullString_def parseTimestampMs_def Let_def)
  have run: "BackfillSessionsFromEvents hd ?db = (fst ?r, snd ?r)" by simp
  let ?g = "thread_rows (jstr ''th'') (db_events ?db)"
  have empty: "\<not> db_sessions ?db \<noteq> []" by simp
  have spec: "case map_get (db_sessions (snd ?r)) (jstr ''th'') of
              None \<Rightarrow> jstr ''th'' = [] \<or> ?g = []
            | Some s \<Rightarrow> jstr ''th'' \<noteq> [] \<and> ?g \<noteq> []
                \<and> list_all (\<lambda>r. sint (sr_first_seen s) \<le> sint (r_occurred_at r)
                      \<and> sint (r_occurred_at r) \<le> sint (sr_last_seen s)) ?g
                \<and> {sr_first_seen s, sr_last_seen s} \<subseteq> r_occurred_at ` set ?g
                \<and> sr_source s \<in> (\<lambda>r. opt_default (r_client_source_key r) []) ` set ?g"
    using conjunct1 [OF backfill_spec [OF run]] unfolding if_not_P [OF empty] by simp
  show ?thesis
  proof (cases "map_get (db_sessions (snd ?r)) (jstr ''th'')")
    case None
    with spec rows(1) show ?thesis by simp
  next
    case (Some s)
    with spec rows(2,3) show ?thesis by simp
  qed
qed

text \<open>An event without a source makes a session of the source with the empty key, which no proxy can
  register: no list holds it, and its detail is a server error.\<close>

lemma backfilled_session_without_source:
  assumes "db_sessions db = []" and "map_get (db_sources db) [] = None" and "t \<noteq> []"
    and "thread_rows t (db_events db) \<noteq> []" and "\<And>g. g \<noteq> [] \<Longrightarrow> pick g \<in> set g"
    and "list_all (\<lambda>r. r_client_source_key r = None) (thread_rows t (db_events db))"
  shows "sessionDetailHandler bin fmt (Some (snd (BackfillSessionsFromEvents pick db))) t
      = HttpError 500 (jstr ''Internal Server Error'')"
proof -
  have "t \<in> set (stored_threads (db_events db))" using assms(3,4) by (simp add: set_stored_threads)
  then have "map_get (db_sessions (snd (BackfillSessionsFromEvents pick db))) t = Some (backfill_row pick (db_events db) t)"
    using assms(1) by (simp add: BackfillSessionsFromEvents_def Let_def map_get_def map_of_map_restrict)
  moreover have "sr_source (backfill_row pick (db_events db) t) = []"
    using assms(5) [OF assms(4)] assms(6) by (simp add: backfill_row_def list_all_iff Let_def)
  ultimately show ?thesis
    using assms(1,2) by (simp add: sessionDetailHandler_def GetSession_def GetClientSource_def
        BackfillSessionsFromEvents_def Let_def)
qed

end
