(* ===== verification/Hub_Admin.thy ===== *)
theory Hub_Admin
  imports Hub_Detail
begin

section \<open>The hub's routes, its administration, its handshake and its idle watcher\<close>

text \<open>
  \<open>NewRouter\<close> and \<open>touchMiddleware\<close> of \<^verbatim>\<open>internal/hub/http/router.go\<close>, \<open>requireLoopback\<close> and the handlers
  of \<^verbatim>\<open>admin.go\<close>, \<open>ValidateHandshake\<close> of \<^verbatim>\<open>handshake.go\<close> with the constants of \<^verbatim>\<open>internal/version\<close>, and
  \<open>Touch\<close>, \<open>TriggerShutdown\<close> and \<open>StartIdleWatcher\<close> of \<^verbatim>\<open>internal/hub/app.go\<close>. A request carries what the
  standard library makes of it: the peer's address as \<open>net.ParseIP\<close> gives it, and the body decoded as
  what a handler asks for (\<open>None\<close> when it is not JSON of that shape).
\<close>

subsection \<open>The handshake\<close>

definition AppVersion :: jsstring where "AppVersion = jstr ''0.0.0-dev''"
definition ProtocolVersion :: jsstring where "ProtocolVersion = jstr ''v1''"
definition ServiceName :: jsstring where "ServiceName = jstr ''codex-mcp-ui''"

definition RequiredCapabilities :: "jsstring list" where
  "RequiredCapabilities = [jstr ''ingest.events'', jstr ''admin.stop'']"

record handshake_response =
  hs_service :: jsstring
  hs_protocol :: jsstring
  hs_version :: jsstring
  hs_capabilities :: "jsstring list"
  hs_instance :: jsstring
  hs_pid :: int
  hs_data_dir :: jsstring

text \<open>The fields of \<open>App\<close> and its \<open>Config\<close> that the administration reads.\<close>

record app_identity =
  ai_instance :: jsstring
  ai_pid :: int
  ai_data_dir :: jsstring
  ai_ui_port :: int

definition Handshake :: "app_identity \<Rightarrow> handshake_response" where
  "Handshake a = \<lparr>hs_service = ServiceName, hs_protocol = ProtocolVersion, hs_version = AppVersion,
     hs_capabilities = RequiredCapabilities, hs_instance = ai_instance a, hs_pid = ai_pid a,
     hs_data_dir = ai_data_dir a\<rparr>"

record status_response =
  stt_service :: jsstring
  stt_version :: jsstring
  stt_pid :: int
  stt_data_dir :: jsstring
  stt_instance :: jsstring
  stt_ui_port :: int
  stt_active_proxies :: int

definition statusHandler :: "app_identity \<Rightarrow> status_response" where
  "statusHandler a = \<lparr>stt_service = ServiceName, stt_version = AppVersion, stt_pid = ai_pid a,
     stt_data_dir = ai_data_dir a, stt_instance = ai_instance a, stt_ui_port = ai_ui_port a,
     stt_active_proxies = 0\<rparr>"

fun containsString :: "jsstring list \<Rightarrow> jsstring \<Rightarrow> bool" where
  "containsString [] want = False"
| "containsString (v # vs) want = (v = want \<or> containsString vs want)"

text \<open>\<open>strings.TrimPrefix(semver, "v")\<close>, \<open>strings.IndexByte(s, '.')\<close> and \<open>strconv.Atoi\<close>.\<close>

definition majorOf :: "jsstring \<Rightarrow> int option" where
  "majorOf semver = (let s = (case semver of [] \<Rightarrow> [] | c # cs \<Rightarrow> if c = 0x76 then cs else semver) in
     if 0x2E \<notin> set s then None else ParseInt (takeWhile (\<lambda>c. c \<noteq> 0x2E) s))"

definition sameMajor :: "jsstring \<Rightarrow> jsstring \<Rightarrow> bool" where
  "sameMajor a b = (case (majorOf a, majorOf b) of (Some am, Some bm) \<Rightarrow> am = bm | _ \<Rightarrow> False)"

datatype handshake_error =
    RequestFailed
  | BadStatus nat
  | DecodeFailed
  | IncompatibleService jsstring
  | IncompatibleProtocol jsstring
  | MissingCapability jsstring
  | IncompatibleMajor jsstring jsstring

text \<open>What came back: no response, or a status and the decoded body.\<close>

datatype reply = Unreachable | Reply nat "handshake_response option"

fun missing_capability :: "jsstring list \<Rightarrow> jsstring list \<Rightarrow> jsstring option" where
  "missing_capability have [] = None"
| "missing_capability have (c # cs) = (if \<not> containsString have c then Some c else missing_capability have cs)"

definition ValidateHandshake :: "reply \<Rightarrow> jsstring \<Rightarrow> handshake_error + handshake_response" where
  "ValidateHandshake resp expected =
     (case resp of
        Unreachable \<Rightarrow> Inl RequestFailed
      | Reply code body \<Rightarrow>
          if code \<noteq> 200 then Inl (BadStatus code)
          else (case body of
             None \<Rightarrow> Inl DecodeFailed
           | Some hs \<Rightarrow>
               if hs_service hs \<noteq> ServiceName then Inl (IncompatibleService (hs_service hs))
               else if hs_protocol hs \<noteq> ProtocolVersion then Inl (IncompatibleProtocol (hs_protocol hs))
               else (case missing_capability (hs_capabilities hs) RequiredCapabilities of
                  Some c \<Rightarrow> Inl (MissingCapability c)
                | None \<Rightarrow>
                    if hs_version hs \<noteq> expected \<and> \<not> sameMajor (hs_version hs) expected
                    then Inl (IncompatibleMajor (hs_version hs) expected)
                    else Inr hs)))"

text \<open>\<open>waitForHub\<close> of \<^verbatim>\<open>internal/cli/proxy_cmd.go\<close>: the answers to the attempts made before the deadline, and
  whether the context is done after each.\<close>

fun waitForHub :: "(reply \<times> bool) list \<Rightarrow> bool" where
  "waitForHub [] = False"
| "waitForHub ((resp, cancelled) # attempts) =
     (case ValidateHandshake resp AppVersion of
        Inr hs \<Rightarrow> True
      | Inl e \<Rightarrow> if cancelled then False else waitForHub attempts)"

text \<open>What \<open>runProxyCmd\<close> does before it registers: the first answer, whether spawning a hub succeeds, and the
  attempts after it. The second component says whether a hub was spawned.\<close>

definition connect_hub :: "reply \<Rightarrow> bool \<Rightarrow> (reply \<times> bool) list \<Rightarrow> bool \<times> bool" where
  "connect_hub first_reply spawned attempts =
     (case ValidateHandshake first_reply AppVersion of
        Inr hs \<Rightarrow> (True, False)
      | Inl e \<Rightarrow> if spawned then (waitForHub attempts, True) else (False, False))"

lemma containsString_iff [simp]: "containsString vs want \<longleftrightarrow> want \<in> set vs"
  by (induction vs) auto

lemma missing_capability_None: "missing_capability have cs = None \<longleftrightarrow> set cs \<subseteq> set have"
  by (induction cs) auto

lemma sameMajor_iff: "sameMajor a b \<longleftrightarrow> majorOf a \<noteq> None \<and> majorOf a = majorOf b"
  by (auto simp: sameMajor_def split: option.splits)

lemma validate_iff:
  "ValidateHandshake resp expected = Inr hs \<longleftrightarrow>
     resp = Reply 200 (Some hs) \<and> hs_service hs = ServiceName \<and> hs_protocol hs = ProtocolVersion
     \<and> set RequiredCapabilities \<subseteq> set (hs_capabilities hs)
     \<and> (hs_version hs = expected \<or> majorOf (hs_version hs) \<noteq> None \<and> majorOf (hs_version hs) = majorOf expected)"
  by (cases resp) (auto simp: ValidateHandshake_def missing_capability_None sameMajor_iff
      split: option.splits if_splits dest: missing_capability_None [THEN iffD2])

lemma waitForHub_iff:
  "waitForHub attempts \<longleftrightarrow> (\<exists>early r c late. attempts = early @ (r, c) # late
     \<and> \<not> isl (ValidateHandshake r AppVersion)
     \<and> list_all (\<lambda>(r, c). isl (ValidateHandshake r AppVersion) \<and> \<not> c) early)"
proof (induction attempts rule: waitForHub.induct)
  case (2 resp cancelled attempts)
  show ?case
  proof (cases "ValidateHandshake resp AppVersion")
    case (Inl e)
    have "waitForHub ((resp, cancelled) # attempts) \<longleftrightarrow> \<not> cancelled \<and> waitForHub attempts"
      using Inl by simp
    also have "\<dots> \<longleftrightarrow> (\<exists>early r c late. (resp, cancelled) # attempts = early @ (r, c) # late
        \<and> \<not> isl (ValidateHandshake r AppVersion)
        \<and> list_all (\<lambda>(r, c). isl (ValidateHandshake r AppVersion) \<and> \<not> c) early)" (is "_ \<longleftrightarrow> (\<exists>early. ?P early)")
    proof
      assume "\<not> cancelled \<and> waitForHub attempts"
      with 2 [OF Inl] Inl obtain early r c late where "attempts = early @ (r, c) # late"
          "\<not> isl (ValidateHandshake r AppVersion)"
          "list_all (\<lambda>(r, c). isl (ValidateHandshake r AppVersion) \<and> \<not> c) early" "\<not> cancelled" by blast
      with Inl have "?P ((resp, cancelled) # early)" by simp
      then show "\<exists>early. ?P early" ..
    next
      assume "\<exists>early. ?P early"
      then obtain early where "?P early" ..
      with Inl 2 [OF Inl] show "\<not> cancelled \<and> waitForHub attempts" by (cases early) auto
    qed
    finally show ?thesis .
  next
    case (Inr hs)
    then have "(resp, cancelled) # attempts = [] @ (resp, cancelled) # attempts
      \<and> \<not> isl (ValidateHandshake resp AppVersion)" by simp
    with Inr show ?thesis by (auto intro!: exI [of _ "[]"])
  qed
qed simp

text \<open>C40. A proxy accepts exactly the compatible hubs: the handshake succeeds iff the answer has status 200 and a
  body with the service's name, the same protocol version, every required capability, and the
  expected version or one with the same major number. So a hub of the same build is accepted and the
  proxy starts no second one; after any other answer it goes on iff it has spawned a hub and a later
  attempt succeeds, with the context not done before.\<close>

theorem proxy_accepts_compatible_hubs:
  "(ValidateHandshake resp expected = Inr hs \<longleftrightarrow>
      resp = Reply 200 (Some hs) \<and> hs_service hs = ServiceName \<and> hs_protocol hs = ProtocolVersion
      \<and> set RequiredCapabilities \<subseteq> set (hs_capabilities hs)
      \<and> (hs_version hs = expected \<or> majorOf (hs_version hs) \<noteq> None \<and> majorOf (hs_version hs) = majorOf expected))
   \<and> connect_hub (Reply 200 (Some (Handshake a))) spawned attempts = (True, False)
   \<and> (connect_hub resp spawned attempts = (True, True) \<longleftrightarrow>
        spawned \<and> isl (ValidateHandshake resp AppVersion)
        \<and> (\<exists>early r c late. attempts = early @ (r, c) # late \<and> \<not> isl (ValidateHandshake r AppVersion)
             \<and> list_all (\<lambda>(r, c). isl (ValidateHandshake r AppVersion) \<and> \<not> c) early))"
proof (intro conjI)
  have "ValidateHandshake (Reply 200 (Some (Handshake a))) AppVersion = Inr (Handshake a)"
    by (simp add: validate_iff Handshake_def)
  then show "connect_hub (Reply 200 (Some (Handshake a))) spawned attempts = (True, False)"
    by (simp add: connect_hub_def)
qed (rule validate_iff, unfold waitForHub_iff [symmetric], auto simp: connect_hub_def split: sum.splits)

subsection \<open>Routes\<close>

datatype route =
    RtHandshake | RtStatus | RtShutdown | RtRegister | RtHeartbeat | RtEvents | RtSources | RtSourceSessions
  | RtProxies | RtSession | RtSessionEvents | RtStream | RtUi

datatype pattern_segment = Lit string | Wild

definition router :: "(string \<times> pattern_segment list \<times> route) list" where
  "router =
     [(''GET'', [Lit ''api'', Lit ''v1'', Lit ''handshake''], RtHandshake),
      (''GET'', [Lit ''api'', Lit ''v1'', Lit ''status''], RtStatus),
      (''POST'', [Lit ''api'', Lit ''v1'', Lit ''admin'', Lit ''shutdown''], RtShutdown),
      (''POST'', [Lit ''api'', Lit ''v1'', Lit ''ingest'', Lit ''register''], RtRegister),
      (''POST'', [Lit ''api'', Lit ''v1'', Lit ''ingest'', Lit ''heartbeat''], RtHeartbeat),
      (''POST'', [Lit ''api'', Lit ''v1'', Lit ''ingest'', Lit ''events''], RtEvents),
      (''GET'', [Lit ''api'', Lit ''v1'', Lit ''client-sources''], RtSources),
      (''GET'', [Lit ''api'', Lit ''v1'', Lit ''client-sources'', Wild, Lit ''sessions''], RtSourceSessions),
      (''GET'', [Lit ''api'', Lit ''v1'', Lit ''proxies''], RtProxies),
      (''GET'', [Lit ''api'', Lit ''v1'', Lit ''sessions'', Wild], RtSession),
      (''GET'', [Lit ''api'', Lit ''v1'', Lit ''sessions'', Wild, Lit ''events''], RtSessionEvents),
      (''GET'', [Lit ''api'', Lit ''v1'', Lit ''stream''], RtStream)]"

text \<open>The segments of a path after its first slash.\<close>

fun segments :: "jsstring \<Rightarrow> jsstring list" where
  "segments [] = [[]]"
| "segments (c # cs) =
     (if c = 0x2F then [] # segments cs
      else (case segments cs of [] \<Rightarrow> [[c]] | s # ss \<Rightarrow> (c # s) # ss))"

text \<open>The mux redirects a path with empty or dot segments to the clean one; a slash at the end is kept.\<close>

definition clean_path :: "jsstring \<Rightarrow> bool" where
  "clean_path path \<longleftrightarrow> (let ss = segments path in hd ss = [] \<and> length ss > 1
     \<and> list_all (\<lambda>s. s \<noteq> jstr ''.'' \<and> s \<noteq> jstr ''..'') (tl ss) \<and> [] \<notin> set (butlast (tl ss)))"

fun segment_matches :: "pattern_segment \<Rightarrow> jsstring \<Rightarrow> bool" where
  "segment_matches (Lit l) s = (s = jstr l)"
| "segment_matches Wild s = (s \<noteq> [])"

text \<open>A pattern for GET also takes HEAD. \<open>GET /\<close> takes every other path, so only other methods find nothing.\<close>

definition method_matches :: "string \<Rightarrow> string \<Rightarrow> bool" where
  "method_matches pat m \<longleftrightarrow> m = pat \<or> pat = ''GET'' \<and> m = ''HEAD''"

definition find_route :: "string \<Rightarrow> jsstring \<Rightarrow> route option" where
  "find_route m path =
     (case find (\<lambda>(pm, ps, rt). method_matches pm m \<and> list_all2 segment_matches ps (tl (segments path))) router of
        Some (pm, ps, rt) \<Rightarrow> Some rt
      | None \<Rightarrow> if method_matches ''GET'' m then Some RtUi else None)"

definition requires_loopback :: "route \<Rightarrow> bool" where
  "requires_loopback rt \<longleftrightarrow> rt \<in> {RtShutdown, RtRegister, RtHeartbeat, RtEvents}"

subsection \<open>Requests\<close>

text \<open>An address as \<open>net.IP\<close> holds it: four octets, or eight groups, which are an IPv4 address when they
  begin with \<open>::ffff\<close>.\<close>

datatype ip = IP4 "8 word" "8 word" "8 word" "8 word" | IP6 "16 word list"

fun IsLoopback :: "ip \<Rightarrow> bool" where
  "IsLoopback (IP4 a b c d) = (a = 127)"
| "IsLoopback (IP6 gs) =
     (if take 6 gs = [0, 0, 0, 0, 0, 0xFFFF] then drop_bit 8 (gs ! 6) = 127
      else gs = [0, 0, 0, 0, 0, 0, 0, 1])"

record hub_request =
  rq_method :: string
  rq_path :: jsstring
  rq_remote :: "ip option"
  rq_register :: "(jsstring \<times> jsstring \<times> int \<times> registration) option"
  rq_heartbeat :: "jsstring option"
  rq_event :: "ingest_event option"
  rq_now :: "64 word"
  rq_random :: jsstring

definition loopback :: "hub_request \<Rightarrow> bool" where
  "loopback r = (case rq_remote r of None \<Rightarrow> False | Some a \<Rightarrow> IsLoopback a)"

record hub_app =
  ha_db :: "hub_db option"
  ha_published :: "broker_event list"
  ha_stopped :: bool
  ha_touched :: bool

text \<open>A request is redirected, answered with a status, or handled by a handler that only reads.\<close>

datatype served = Redirected | Answered nat | ReadOnly route

definition touchMiddleware :: "hub_request \<Rightarrow> hub_app \<Rightarrow> hub_app" where
  "touchMiddleware r a = (if take 8 (rq_path r) = jstr ''/api/v1/'' then a\<lparr>ha_touched := True\<rparr> else a)"

definition posted_register :: "hub_request \<Rightarrow> hub_app \<Rightarrow> hub_app \<times> served" where
  "posted_register r a =
     (case ha_db a of None \<Rightarrow> (a, Answered 503) | Some db \<Rightarrow>
       (case rq_register r of None \<Rightarrow> (a, Answered 400)
        | Some (inst, source, cpid, g) \<Rightarrow>
            (case registerHandler (rq_now r) inst source cpid g db of (ok, db') \<Rightarrow>
               (a\<lparr>ha_db := Some db'\<rparr>, Answered (if ok then 200 else 400)))))"

definition posted_heartbeat :: "hub_request \<Rightarrow> hub_app \<Rightarrow> hub_app \<times> served" where
  "posted_heartbeat r a =
     (case ha_db a of None \<Rightarrow> (a, Answered 503) | Some db \<Rightarrow>
       (case rq_heartbeat r of None \<Rightarrow> (a, Answered 400)
        | Some inst \<Rightarrow>
            (case heartbeatHandler (rq_now r) inst db of (ok, db') \<Rightarrow>
               (a\<lparr>ha_db := Some db'\<rparr>, Answered (if ok then 200 else 400)))))"

definition posted_event ::
    "(jsstring \<Rightarrow> 64 word option) \<Rightarrow> (64 word \<Rightarrow> jsstring) \<Rightarrow> hub_request \<Rightarrow> hub_app \<Rightarrow> hub_app \<times> served" where
  "posted_event parse fmt r a =
     (case ha_db a of None \<Rightarrow> (a, Answered 503) | Some db \<Rightarrow>
       (case rq_event r of None \<Rightarrow> (a, Answered 400)
        | Some body \<Rightarrow>
            (case ingest parse fmt (rq_random r) (rq_now r) body db of
               (Inl err, db') \<Rightarrow> (a\<lparr>ha_db := Some db'\<rparr>, Answered 500)
             | (Inr b, db') \<Rightarrow>
                 (a\<lparr>ha_db := Some db', ha_published := ha_published a @ [b]\<rparr>, Answered 200))))"

definition shutdownHandler :: "hub_app \<Rightarrow> hub_app \<times> served" where
  "shutdownHandler a = (a\<lparr>ha_stopped := True\<rparr>, Answered 200)"

definition serve ::
    "(jsstring \<Rightarrow> 64 word option) \<Rightarrow> (64 word \<Rightarrow> jsstring) \<Rightarrow> hub_app \<Rightarrow> hub_request \<Rightarrow> hub_app \<times> served" where
  "serve parse fmt app r = (let a = touchMiddleware r app in
     if \<not> clean_path (rq_path r) then (a, Redirected)
     else (case find_route (rq_method r) (rq_path r) of
        None \<Rightarrow> (a, Answered 405)
      | Some rt \<Rightarrow>
          if requires_loopback rt \<and> \<not> loopback r then (a, Answered 403)
          else (case rt of
             RtShutdown \<Rightarrow> shutdownHandler a
           | RtRegister \<Rightarrow> posted_register r a
           | RtHeartbeat \<Rightarrow> posted_heartbeat r a
           | RtEvents \<Rightarrow> posted_event parse fmt r a
           | _ \<Rightarrow> (a, ReadOnly rt))))"

text \<open>What a request may only change from the machine itself.\<close>

definition hub_view :: "hub_app \<Rightarrow> hub_db option \<times> broker_event list \<times> bool" where
  "hub_view a = (ha_db a, ha_published a, ha_stopped a)"

definition may_change :: "hub_request \<Rightarrow> bool" where
  "may_change r \<longleftrightarrow> loopback r \<and> rq_method r = ''POST'' \<and>
     (\<exists>rt. find_route (rq_method r) (rq_path r) = Some rt \<and> requires_loopback rt)"

definition answered :: "(jsstring \<Rightarrow> 64 word option) \<Rightarrow> (64 word \<Rightarrow> jsstring) \<Rightarrow> hub_app \<Rightarrow> hub_request \<Rightarrow> hub_app" where
  "answered parse fmt a r = fst (serve parse fmt a r)"

lemma guarded_patterns: "list_all (\<lambda>(pm, ps, rt). requires_loopback rt \<longrightarrow> pm = ''POST'') router"
  by (simp add: router_def requires_loopback_def)

lemma guarded_routes_are_posts:
  assumes "find_route m path = Some rt" and "requires_loopback rt"
  shows "m = ''POST''"
proof (cases "find (\<lambda>(pm, ps, rt). method_matches pm m \<and> list_all2 segment_matches ps (tl (segments path))) router")
  case None
  with assms show ?thesis by (simp add: find_route_def requires_loopback_def split: if_splits)
next
  case (Some x)
  then obtain pm ps where x: "x = (pm, ps, rt)" using assms(1) by (cases x) (simp add: find_route_def)
  from Some x have "(pm, ps, rt) \<in> set router" "method_matches pm m" by (auto simp: find_Some_iff in_set_conv_nth)
  with guarded_patterns assms(2) show ?thesis by (auto simp: list_all_iff method_matches_def)
qed

lemma touch_view [simp]: "hub_view (touchMiddleware r a) = hub_view a"
  by (simp add: hub_view_def touchMiddleware_def)

lemma unguarded_keeps_view:
  assumes "\<not> may_change r"
  shows "hub_view (answered parse fmt a r) = hub_view a"
proof (cases "find_route (rq_method r) (rq_path r)")
  case None
  then show ?thesis by (simp add: answered_def serve_def Let_def)
next
  case (Some rt)
  show ?thesis
  proof (cases "requires_loopback rt")
    case True
    from assms guarded_routes_are_posts [OF Some True] Some True have "\<not> loopback r" by (simp add: may_change_def)
    with Some True show ?thesis by (simp add: answered_def serve_def Let_def)
  next
    case False
    with Some show ?thesis by (cases rt) (simp_all add: answered_def serve_def Let_def requires_loopback_def)
  qed
qed

lemma answered_view:
  assumes "hub_view a = hub_view a'"
  shows "hub_view (answered parse fmt a r) = hub_view (answered parse fmt a' r)"
proof -
  have same: "hub_view (touchMiddleware r a) = hub_view (touchMiddleware r a')" using assms by simp
  show ?thesis
    using same unfolding answered_def serve_def Let_def
    by (auto simp: hub_view_def shutdownHandler_def posted_register_def posted_heartbeat_def posted_event_def
        split: option.splits route.splits prod.splits sum.splits)
qed

text \<open>C31. Only the machine itself changes the hub: whatever requests arrive, the database, the events
  published and whether the hub was stopped are what they would be if only the POST requests from
  loopback addresses to the four guarded routes had arrived.\<close>

theorem only_loopback_changes_hub:
  "hub_view (foldl (answered parse fmt) app reqs) = hub_view (foldl (answered parse fmt) app (filter may_change reqs))"
proof -
  have "hub_view (foldl (answered parse fmt) a reqs) = hub_view (foldl (answered parse fmt) a' (filter may_change reqs))"
    if "hub_view a = hub_view a'" for a a'
    using that
  proof (induction reqs arbitrary: a a')
    case (Cons r reqs)
    show ?case
    proof (cases "may_change r")
      case True
      with Cons.IH [OF answered_view [OF Cons.prems]] show ?thesis by simp
    next
      case False
      with Cons.prems unguarded_keeps_view [OF False, of parse fmt a] Cons.IH [of "answered parse fmt a r" a']
      show ?thesis by simp
    qed
  qed simp
  then show ?thesis by simp
qed

text \<open>The routes are found, with and without wildcards, and a shutdown from another machine is refused.\<close>

lemma routes_found:
  "find_route ''POST'' (jstr ''/api/v1/admin/shutdown'') = Some RtShutdown"
  "find_route ''HEAD'' (jstr ''/api/v1/sessions/th/events'') = Some RtSessionEvents"
  "find_route ''GET'' (jstr ''/api/v1/sessions/th'') = Some RtSession"
  "find_route ''GET'' (jstr ''/assets/index.js'') = Some RtUi"
  "find_route ''POST'' (jstr ''/api/v1/sessions/th'') = None"
  by code_simp+

definition shutdown_from :: "ip option \<Rightarrow> hub_request" where
  "shutdown_from peer = \<lparr>rq_method = ''POST'', rq_path = jstr ''/api/v1/admin/shutdown'', rq_remote = peer,
     rq_register = None, rq_heartbeat = None, rq_event = None, rq_now = 7, rq_random = []\<rparr>"

lemma shutdown_needs_loopback:
  "snd (serve parse fmt a (shutdown_from peer)) =
     (if case peer of None \<Rightarrow> False | Some i \<Rightarrow> IsLoopback i then Answered 200 else Answered 403)"
proof -
  have "clean_path (jstr ''/api/v1/admin/shutdown'')" by code_simp
  then show ?thesis
    by (simp add: serve_def shutdown_from_def Let_def routes_found requires_loopback_def loopback_def
        shutdownHandler_def)
qed

subsection \<open>The idle watcher\<close>

text \<open>The channel \<open>touchCh\<close> of capacity one, the timer with the time it has left (its channel holds a value when
  it is zero), the goroutine of \<open>StartIdleWatcher\<close>, and how often \<open>ShutdownCh\<close> was closed. The time-out
  is positive, otherwise the goroutine is not started.\<close>

record watcher =
  touchCh :: bool
  wt_left :: nat
  wt_alive :: bool
  wt_closes :: nat
  stopOnce :: bool

definition StartIdleWatcher :: "nat \<Rightarrow> watcher" where
  "StartIdleWatcher timeout =
     \<lparr>touchCh = False, wt_left = timeout, wt_alive = 0 < timeout, wt_closes = 0, stopOnce = False\<rparr>"

definition TriggerShutdown :: "watcher \<Rightarrow> watcher" where
  "TriggerShutdown w = (if stopOnce w then w else w\<lparr>stopOnce := True, wt_closes := Suc (wt_closes w)\<rparr>)"

definition IsStopped :: "watcher \<Rightarrow> bool" where
  "IsStopped w \<longleftrightarrow> 0 < wt_closes w"

datatype watch_action = Touch | Tick | TakeTouch | Expire | AdminStop | WatcherEnds

inductive watcher_step :: "nat \<Rightarrow> watcher \<Rightarrow> watch_action \<Rightarrow> watcher \<Rightarrow> bool" for timeout where
  touched: "watcher_step timeout w Touch (w\<lparr>touchCh := True\<rparr>)"
| ticked: "wt_left w = Suc n \<Longrightarrow> watcher_step timeout w Tick (w\<lparr>wt_left := n\<rparr>)"
| took: "wt_alive w \<Longrightarrow> touchCh w \<Longrightarrow>
    watcher_step timeout w TakeTouch (w\<lparr>touchCh := False, wt_left := timeout\<rparr>)"
| expired: "wt_alive w \<Longrightarrow> wt_left w = 0 \<Longrightarrow>
    watcher_step timeout w Expire (TriggerShutdown (w\<lparr>wt_alive := False\<rparr>))"
| admin: "watcher_step timeout w AdminStop (TriggerShutdown w)"
| ended: "wt_alive w \<Longrightarrow> watcher_step timeout w WatcherEnds (w\<lparr>wt_alive := False\<rparr>)"

inductive_cases expire_case: "watcher_step timeout w Expire w'"

inductive_simps watcher_step_simps:
  "watcher_step timeout w Touch w'" "watcher_step timeout w Tick w'" "watcher_step timeout w Expire w'"

inductive watched :: "nat \<Rightarrow> watch_action list \<Rightarrow> watcher \<Rightarrow> bool" for timeout where
  started: "watched timeout [] (StartIdleWatcher timeout)"
| acted: "watched timeout tr w \<Longrightarrow> watcher_step timeout w a w' \<Longrightarrow> watched timeout (tr @ [a]) w'"

text \<open>The time since the watcher last saw a request.\<close>

definition idle :: "watch_action list \<Rightarrow> nat" where
  "idle tr = foldl (\<lambda>n a. case a of Tick \<Rightarrow> Suc n | TakeTouch \<Rightarrow> 0 | _ \<Rightarrow> n) 0 tr"

definition watcher_ok :: "nat \<Rightarrow> watch_action list \<Rightarrow> watcher \<Rightarrow> bool" where
  "watcher_ok timeout tr w \<longleftrightarrow> wt_left w + idle tr = timeout \<and> wt_closes w = (if stopOnce w then 1 else 0)
     \<and> (stopOnce w \<longleftrightarrow> AdminStop \<in> set tr \<or> Expire \<in> set tr)"

lemma watcher_ok_run: "watched timeout tr w \<Longrightarrow> watcher_ok timeout tr w"
proof (induction rule: watched.induct)
  case started
  show ?case by (simp add: watcher_ok_def StartIdleWatcher_def idle_def)
next
  case (acted tr w a w')
  from acted.hyps(2) acted.IH show ?case
    by cases (auto simp: watcher_ok_def idle_def TriggerShutdown_def)
qed

text \<open>The watcher stops the hub only when it has seen no request for the time-out, and \<open>ShutdownCh\<close> is closed at
  most once, exactly when an administrator or the watcher asked for it.\<close>

lemma idle_shutdown_after_timeout:
  assumes "watched timeout tr w"
  shows "wt_closes w \<le> 1 \<and> (IsStopped w \<longleftrightarrow> AdminStop \<in> set tr \<or> Expire \<in> set tr)
    \<and> (\<forall>w'. watcher_step timeout w Expire w' \<longrightarrow> idle tr = timeout)"
  using watcher_ok_run [OF assms] by (auto simp: watcher_ok_def IsStopped_def elim!: expire_case)

text \<open>A request that arrives when the timer has just fired does not save the hub: both channels of the
  \<open>select\<close> are ready, and Go takes either.\<close>

lemma request_does_not_save_hub:
  "\<exists>w. watched 1 [Tick, Touch, Expire] w \<and> touchCh w \<and> IsStopped w"
proof -
  let ?w0 = "StartIdleWatcher 1"
  let ?w1 = "?w0\<lparr>wt_left := 0\<rparr>" and ?w3 = "TriggerShutdown (?w0\<lparr>wt_left := 0, touchCh := True, wt_alive := False\<rparr>)"
  have "watched 1 ([] @ [Tick]) ?w1"
    by (rule watched.acted [OF watched.started]) (simp add: watcher_step_simps StartIdleWatcher_def)
  then have "watched 1 (([] @ [Tick]) @ [Touch]) (?w1\<lparr>touchCh := True\<rparr>)"
    by (rule watched.acted) (simp add: watcher_step_simps)
  then have "watched 1 ((([] @ [Tick]) @ [Touch]) @ [Expire]) ?w3"
    by (rule watched.acted) (simp add: watcher_step_simps StartIdleWatcher_def)
  then show ?thesis by (intro exI [of _ ?w3]) (simp add: TriggerShutdown_def StartIdleWatcher_def IsStopped_def)
qed

end
