(* ===== verification/Wire_Format.thy ===== *)
theory Wire_Format
  imports Hub_Detail Proxy_Envelope
begin

section \<open>The JSON between proxy, hub and dashboard\<close>

text \<open>
  The tags of the Go structs that cross the wire, and what the other side reads: the proxy's
  \<open>EventEnvelope\<close> (\<^verbatim>\<open>internal/proxy/envelope.go\<close>) is decoded by the hub as an \<open>ingestEvent\<close>
  (\<^verbatim>\<open>internal/hub/http/ingest.go\<close>); the DTOs of \<^verbatim>\<open>internal/hub/api/types.go\<close> and the \<open>BrokerEvent\<close> are read
  by the dashboard as the interfaces of \<^verbatim>\<open>web/src/lib/types.ts\<close>. A struct is marshalled to the list of
  its fields; \<open>omitempty\<close> leaves out empty strings and zeros, and a raw message without bytes is
  \<open>null\<close>. The readers are partial: they fail where a property does not have the type the interface
  gives it, which TypeScript does not check.
\<close>

type_synonym go_field = "string \<times> bool \<times> js"

definition is_zero :: "js \<Rightarrow> bool" where
  "is_zero v \<longleftrightarrow> v = JStr [] \<or> v = JNum 0"

definition marshal_struct :: "go_field list \<Rightarrow> js" where
  "marshal_struct fs = JObj (map (\<lambda>(k, om, v). (jstr k, v)) (filter (\<lambda>(k, om, v). \<not> (om \<and> is_zero v)) fs))"

definition must :: "string \<Rightarrow> jsstring \<Rightarrow> go_field" where "must k s = (k, False, JStr s)"
definition omitempty :: "string \<Rightarrow> jsstring \<Rightarrow> go_field" where "omitempty k s = (k, True, JStr s)"
definition json_number :: "string \<Rightarrow> int \<Rightarrow> go_field" where "json_number k n = (k, False, JNum (of_int n))"
definition raw_message :: "string \<Rightarrow> js \<Rightarrow> go_field" where "raw_message k v = (k, False, if v = JUndef then JNull else v)"

subsection \<open>From the proxy to the hub\<close>

definition marshal_envelope :: "ingest_event \<Rightarrow> js" where
  "marshal_envelope e = marshal_struct
     [must ''event_id'' (in_event_id e), must ''proxy_instance_id'' (in_proxy_instance_id e),
      must ''source_key'' (in_client_source_key e), omitempty ''thread_id'' (in_session_id e),
      omitempty ''turn_id'' (in_turn_id e), omitempty ''request_id'' (in_request_id e),
      must ''direction'' (in_direction e), must ''category'' (in_category e),
      omitempty ''event_type'' (in_event_type e), omitempty ''command_call_id'' (in_command_call_id e),
      omitempty ''tool_call_id'' (in_tool_call_id e), must ''timestamp'' (in_timestamp e),
      raw_message ''payload'' (in_payload e)]"

definition decode_field :: "js \<Rightarrow> string \<Rightarrow> (jsstring \<Rightarrow> 'a option) \<Rightarrow> 'a option" where
  "decode_field v k f = opt_bind2 (decode_string (field v k)) f"

definition decode_ingest :: "js \<Rightarrow> ingest_event option" where
  "decode_ingest v =
     decode_field v ''event_id'' (\<lambda>eid. decode_field v ''proxy_instance_id'' (\<lambda>inst.
     decode_field v ''source_key'' (\<lambda>source. decode_field v ''thread_id'' (\<lambda>t.
     decode_field v ''turn_id'' (\<lambda>turn. decode_field v ''request_id'' (\<lambda>req.
     decode_field v ''direction'' (\<lambda>dir. decode_field v ''category'' (\<lambda>cat.
     decode_field v ''event_type'' (\<lambda>ty. decode_field v ''command_call_id'' (\<lambda>cc.
     decode_field v ''tool_call_id'' (\<lambda>tc. decode_field v ''timestamp'' (\<lambda>ts.
       Some \<lparr>in_event_id = eid, in_proxy_instance_id = inst, in_client_source_key = source,
         in_session_id = t, in_turn_id = turn, in_request_id = req, in_direction = dir,
         in_category = cat, in_event_type = ty, in_command_call_id = cc, in_tool_call_id = tc,
         in_timestamp = ts, in_payload = field v ''payload''\<rparr>))))))))))))"

subsection \<open>From the hub to the dashboard\<close>

definition marshal_event :: "(64 word \<Rightarrow> jsstring) \<Rightarrow> stored_event \<Rightarrow> js" where
  "marshal_event fmt r = marshal_struct
     [must ''event_id'' (ev_event_id r), must ''timestamp'' (unixMillisToISO fmt (ev_occurred_at r)),
      must ''proxy_instance_id'' (ev_proxy_instance_id r), must ''source_key'' (ev_client_source_key r),
      omitempty ''thread_id'' (ev_session_id r), omitempty ''turn_id'' (ev_turn_id r),
      omitempty ''request_id'' (ev_request_id r), must ''direction'' (ev_direction r),
      must ''category'' (if ev_category r = [] then categoryForEvent r else ev_category r),
      omitempty ''event_type'' (ev_event_type r), omitempty ''command_call_id'' (ev_command_call_id r),
      omitempty ''tool_call_id'' (ev_tool_call_id r), raw_message ''payload'' (ev_raw_json r)]"

definition marshal_broker_event :: "broker_event \<Rightarrow> js" where
  "marshal_broker_event b = marshal_struct
     [must ''event_id'' (be_event_id b), must ''proxy_instance_id'' (be_proxy_instance_id b),
      omitempty ''source_key'' (be_client_source_key b), omitempty ''thread_id'' (be_session_id b),
      omitempty ''turn_id'' (be_turn_id b), omitempty ''request_id'' (be_request_id b),
      must ''direction'' (be_direction b), must ''category'' (be_category b),
      omitempty ''event_type'' (be_event_type b), omitempty ''command_call_id'' (be_command_call_id b),
      omitempty ''tool_call_id'' (be_tool_call_id b), must ''timestamp'' (be_timestamp b),
      raw_message ''payload'' (be_payload b)]"

definition marshal_session :: "(64 word \<Rightarrow> jsstring) \<Rightarrow> jsstring \<times> session_row \<Rightarrow> js" where
  "marshal_session fmt x = (case x of (k, r) \<Rightarrow> marshal_struct
     [must ''thread_id'' k, must ''source_key'' (sr_source r), omitempty ''title'' (opt_default (sr_title r) []),
      omitempty ''model'' (opt_default (sr_model r) []), omitempty ''cwd'' (opt_default (sr_cwd r) []),
      omitempty ''approval_policy'' (opt_default (sr_approval r) []), omitempty ''sandbox'' [],
      must ''first_seen'' (unixMillisToISO fmt (sr_first_seen r)),
      must ''last_seen'' (unixMillisToISO fmt (sr_last_seen r)), omitempty ''status'' []])"

definition marshal_source :: "(64 word \<Rightarrow> jsstring) \<Rightarrow> (jsstring \<times> source_row) \<times> nat \<Rightarrow> js" where
  "marshal_source fmt x = (case x of ((k, r), n) \<Rightarrow> marshal_struct
     [must ''source_key'' k, must ''client_name'' (rg_name (so_reg r)), json_number ''pid'' (rg_pid (so_reg r)),
      omitempty ''protocol_version'' (rg_protocol (so_reg r)), omitempty ''executable'' (rg_executable (so_reg r)),
      omitempty ''cwd'' (rg_cwd (so_reg r)), must ''first_seen'' (unixMillisToISO fmt (so_first_seen r)),
      must ''last_seen'' (unixMillisToISO fmt (so_last_seen r)), json_number ''session_count'' (int n)])"

text \<open>A page: \<open>CursorItemsResponse\<close>, whose \<open>cursor\<close> the dashboard does not read.\<close>

definition marshal_page :: "(64 word \<Rightarrow> jsstring) \<Rightarrow> jsstring \<Rightarrow> stored_event list \<Rightarrow> jsstring \<Rightarrow> js" where
  "marshal_page fmt cursor evs nxt = marshal_struct
     [omitempty ''cursor'' cursor, (''items'', False, JArr (map (marshal_event fmt) evs)),
      omitempty ''next_cursor'' nxt]"

text \<open>Properties of an interface: a string, an optional string, a whole number.\<close>

definition as_string :: "js \<Rightarrow> jsstring option" where
  "as_string v = (case v of JStr s \<Rightarrow> Some s | _ \<Rightarrow> None)"

definition as_optional :: "js \<Rightarrow> jsstring option option" where
  "as_optional v = (case v of JUndef \<Rightarrow> Some None | JStr s \<Rightarrow> Some (Some s) | _ \<Rightarrow> None)"

definition as_int :: "js \<Rightarrow> int option" where
  "as_int v = (case v of JNum n \<Rightarrow> if of_int \<lfloor>n\<rfloor> = n then Some \<lfloor>n\<rfloor> else None | _ \<Rightarrow> None)"

definition prop_str :: "js \<Rightarrow> string \<Rightarrow> (jsstring \<Rightarrow> 'a option) \<Rightarrow> 'a option" where
  "prop_str v k f = opt_bind2 (as_string (field v k)) f"

definition prop_opt :: "js \<Rightarrow> string \<Rightarrow> (jsstring option \<Rightarrow> 'a option) \<Rightarrow> 'a option" where
  "prop_opt v k f = opt_bind2 (as_optional (field v k)) f"

definition prop_int :: "js \<Rightarrow> string \<Rightarrow> (int \<Rightarrow> 'a option) \<Rightarrow> 'a option" where
  "prop_int v k f = opt_bind2 (as_int (field v k)) f"

definition read_event :: "js \<Rightarrow> event_record option" where
  "read_event v =
     prop_str v ''event_id'' (\<lambda>eid. prop_str v ''timestamp'' (\<lambda>ts. prop_str v ''proxy_instance_id'' (\<lambda>inst.
     prop_str v ''source_key'' (\<lambda>source. prop_opt v ''thread_id'' (\<lambda>t. prop_opt v ''turn_id'' (\<lambda>turn.
     prop_opt v ''request_id'' (\<lambda>req. prop_str v ''direction'' (\<lambda>dir. prop_str v ''category'' (\<lambda>cat.
     prop_opt v ''event_type'' (\<lambda>ty. prop_opt v ''command_call_id'' (\<lambda>cc. prop_opt v ''tool_call_id'' (\<lambda>tc.
       Some \<lparr>event_id = eid, timestamp = ts, proxy_instance_id = inst, source_key = source, thread_id = t,
         turn_id = turn, request_id = req, direction = dir, category = cat, event_type = ty,
         command_call_id = cc, tool_call_id = tc, payload = field v ''payload''\<rparr>))))))))))))"

definition read_session :: "js \<Rightarrow> session option" where
  "read_session v =
     prop_str v ''thread_id'' (\<lambda>t. prop_str v ''source_key'' (\<lambda>source. prop_opt v ''title'' (\<lambda>ti.
     prop_opt v ''model'' (\<lambda>mo. prop_opt v ''cwd'' (\<lambda>cw. prop_opt v ''approval_policy'' (\<lambda>ap.
     prop_opt v ''sandbox'' (\<lambda>sb. prop_str v ''first_seen'' (\<lambda>fs. prop_str v ''last_seen'' (\<lambda>ls.
     prop_opt v ''status'' (\<lambda>st.
       Some \<lparr>s_thread_id = t, s_source_key = source, s_title = ti, model = mo, s_cwd = cw, approval_policy = ap,
         sandbox = sb, first_seen = fs, last_seen = ls, s_status = st\<rparr>))))))))))"

definition read_source :: "js \<Rightarrow> client_source option" where
  "read_source v =
     prop_str v ''source_key'' (\<lambda>k. prop_str v ''client_name'' (\<lambda>cn. prop_int v ''pid'' (\<lambda>p.
     prop_opt v ''protocol_version'' (\<lambda>pv. prop_opt v ''executable'' (\<lambda>ex. prop_opt v ''cwd'' (\<lambda>cw.
     prop_str v ''first_seen'' (\<lambda>fs. prop_str v ''last_seen'' (\<lambda>ls. prop_int v ''session_count'' (\<lambda>n.
       Some \<lparr>cs_source_key = k, client_name = cn, pid = p, protocol_version = pv, executable = ex, cs_cwd = cw,
         cs_first_seen = fs, cs_last_seen = ls, session_count = n\<rparr>)))))))))"

definition read_page :: "js \<Rightarrow> paginated_events option" where
  "read_page v =
     (case field v ''items'' of
        JArr xs \<Rightarrow> opt_bind2 (those (map read_event xs)) (\<lambda>evs.
          prop_opt v ''next_cursor'' (\<lambda>n. Some \<lparr>items = evs, next_cursor = n\<rparr>))
      | _ \<Rightarrow> None)"

subsection \<open>What is read is what was meant\<close>

lemma field_marshal [simp]:
  "field (marshal_struct []) k = JUndef"
  "field (marshal_struct ((k', om, v) # fs)) k = (if k = k' \<and> \<not> (om \<and> is_zero v) then v else field (marshal_struct fs) k)"
  by (auto simp: field_def marshal_struct_def)

lemma field_marshal_tags [simp]:
  "field (marshal_struct (must k' s # fs)) k = (if k = k' then JStr s else field (marshal_struct fs) k)"
  "field (marshal_struct (omitempty k' s # fs)) k =
     (if k = k' then if s = [] then field (marshal_struct fs) k else JStr s else field (marshal_struct fs) k)"
  "field (marshal_struct (json_number k' n # fs)) k = (if k = k' then JNum (of_int n) else field (marshal_struct fs) k)"
  "field (marshal_struct (raw_message k' v # fs)) k = (if k = k' then if v = JUndef then JNull else v else field (marshal_struct fs) k)"
  by (auto simp: must_def omitempty_def json_number_def raw_message_def is_zero_def)

lemma read_fields:
  "decode_string (JStr s) = Some s" "decode_string (if s = [] then JUndef else JStr s) = Some s"
  "as_string (JStr s) = Some s" "as_optional JUndef = Some None"
  "as_optional (if s = [] then JUndef else JStr s) = Some (nullString s)" "as_int (JNum (of_int n)) = Some n"
  "as_int (JNum (of_nat m)) = Some (int m)"
  "opt_bind2 (Some x) f = f x"
  by (auto simp: decode_string_def as_string_def as_optional_def as_int_def opt_bind2_def nullString_def)

lemmas wire_eval = read_fields decode_field_def prop_str_def prop_opt_def prop_int_def

lemma decode_envelope: "in_payload e \<noteq> JUndef \<Longrightarrow> decode_ingest (marshal_envelope e) = Some e"
  by (simp add: decode_ingest_def marshal_envelope_def wire_eval cong del: if_weak_cong)

lemma read_event_dto: "ev_raw_json r \<noteq> JUndef \<Longrightarrow> read_event (marshal_event fmt r) = Some (toEventDTO fmt r)"
  by (simp add: read_event_def marshal_event_def wire_eval toEventDTO_def unixMillisToISO_def cong del: if_weak_cong)

lemma read_broker_event:
  "be_payload b \<noteq> JUndef \<Longrightarrow> be_client_source_key b \<noteq> [] \<Longrightarrow>
   read_event (marshal_broker_event b) = Some (wire_event b)"
  by (simp add: read_event_def marshal_broker_event_def wire_eval wire_event_def cong del: if_weak_cong)

lemma read_session_fields:
  "read_session (marshal_struct
     [must ''thread_id'' k, must ''source_key'' source, omitempty ''title'' ti, omitempty ''model'' mo,
      omitempty ''cwd'' cw, omitempty ''approval_policy'' ap, omitempty ''sandbox'' sb,
      must ''first_seen'' f, must ''last_seen'' l, omitempty ''status'' st])
   = Some \<lparr>s_thread_id = k, s_source_key = source, s_title = nullString ti, model = nullString mo,
       s_cwd = nullString cw, approval_policy = nullString ap, sandbox = nullString sb, first_seen = f,
       last_seen = l, s_status = nullString st\<rparr>"
  by (simp add: read_session_def wire_eval cong del: if_weak_cong)

lemma read_session_dto: "read_session (marshal_session fmt x) = Some (toSessionDTO fmt x)"
  by (cases x) (simp add: marshal_session_def read_session_fields toSessionDTO_def nullString_def [of "[]"])

lemma read_source_dto: "read_source (marshal_source fmt x) = Some (toClientSourceDTO fmt x)"
proof -
  obtain k r n where "x = ((k, r), n)" by (metis surj_pair)
  then show ?thesis
    by (simp add: read_source_def marshal_source_def wire_eval toClientSourceDTO_def cong del: if_weak_cong)
qed

lemma those_map_Some: "(\<forall>x\<in>set xs. f x = Some (g x)) \<Longrightarrow> those (map f xs) = Some (map g xs)"
  by (induction xs) auto

lemma read_page_dto:
  "\<forall>r\<in>set evs. ev_raw_json r \<noteq> JUndef \<Longrightarrow>
   read_page (marshal_page fmt cursor evs nxt)
     = Some \<lparr>items = map (toEventDTO fmt) evs, next_cursor = nullString nxt\<rparr>"
  using those_map_Some [of evs "\<lambda>r. read_event (marshal_event fmt r)" "toEventDTO fmt"]
  by (simp add: read_page_def marshal_page_def wire_eval read_event_dto comp_def cong del: if_weak_cong)

text \<open>C21. The wire formats agree: the hub decodes from the proxy's JSON the event the proxy meant, and the
  dashboard reads from the hub's JSON, under the interfaces it declares, exactly the records that the
  rest of the library works with, for the pages of the history, the stream, sessions and sources. The
  hypotheses are that events carry a payload, and for the stream that the event has a source.\<close>

theorem wire_formats_agree:
  assumes "in_payload e \<noteq> JUndef" and "\<forall>r\<in>set evs. ev_raw_json r \<noteq> JUndef"
    and "be_payload b \<noteq> JUndef" and "be_client_source_key b \<noteq> []"
  shows "decode_ingest (marshal_envelope e) = Some e
    \<and> read_page (marshal_page fmt cursor evs nxt)
        = Some \<lparr>items = map (toEventDTO fmt) evs, next_cursor = nullString nxt\<rparr>
    \<and> read_event (marshal_broker_event b) = Some (wire_event b)
    \<and> read_session (marshal_session fmt x) = Some (toSessionDTO fmt x)
    \<and> read_source (marshal_source fmt y) = Some (toClientSourceDTO fmt y)"
  using assms by (simp add: decode_envelope read_page_dto read_broker_event read_session_dto read_source_dto)

lemma wire_formats_agree_witness:
  "decode_ingest (marshal_envelope sample_ingest) = Some sample_ingest
    \<and> read_event (marshal_broker_event (sample_broker_event ''e1'' ''th'')) = Some (wire_event (sample_broker_event ''e1'' ''th''))
    \<and> read_page (marshal_page (\<lambda>w. show_int (sint w)) [] [sample_stored ''e1'' 5] [])
        = Some \<lparr>items = [toEventDTO (\<lambda>w. show_int (sint w)) (sample_stored ''e1'' 5)], next_cursor = None\<rparr>"
proof -
  have h: "in_payload sample_ingest \<noteq> JUndef" "\<forall>r\<in>set [sample_stored ''e1'' 5]. ev_raw_json r \<noteq> JUndef"
    "be_payload (sample_broker_event ''e1'' ''th'') \<noteq> JUndef"
    "be_client_source_key (sample_broker_event ''e1'' ''th'') \<noteq> []"
    by (simp_all add: sample_ingest_def sample_stored_def sample_broker_event_def)
  from wire_formats_agree [OF h, of "\<lambda>w. show_int (sint w)" "[]" "[]"] show ?thesis
    by (simp add: nullString_def)
qed

text \<open>\<open>BrokerEvent\<close> leaves an empty source out, and the interface of the dashboard requires it: what the
  stream sends for such an event is no \<open>EventRecord\<close>, although the history of the same event is.\<close>

lemma stream_event_without_source:
  "be_client_source_key b = [] \<Longrightarrow> read_event (marshal_broker_event b) = None"
  by (simp add: read_event_def marshal_broker_event_def wire_eval opt_bind2_def as_string_def cong del: if_weak_cong)

end
