(* ===== verification/Proxy_Pipeline.thy ===== *)
theory Proxy_Pipeline
  imports Proxy_Bridge Observer_Queue Hub_Admin Wire_Format
begin

section \<open>Bridge, observer and hub together\<close>

text \<open>
  \<open>runProxyCmd\<close> of \<^verbatim>\<open>internal/cli/proxy_cmd.go\<close> connects the parts: the bridge calls \<open>OnFrame\<close> of the
  observer for every frame, the goroutine of the observer posts envelopes with \<open>IngestEvent\<close> and
  \<open>postJSON\<close> of \<^verbatim>\<open>internal/proxy/hub_client.go\<close>, and the hub answers. The step relation interleaves
  the actions of the bridge with those of the observer, the answers to its posts, posts that were given
  up (the time-out of two seconds, a broken connection) and may reach the hub later or never, requests
  of other clients, and restarts of the hub on the same database. As in \<open>Proxy_Bridge\<close> a line is
  observed and written in one step.
\<close>

subsection \<open>The posts of the proxy\<close>

text \<open>What the parts are given: the JSON text of a value and the JSON value of a frame, who the proxy is, and
  the hub's reading and writing of times.\<close>

record proxy_setup =
  su_raw :: "js \<Rightarrow> jsstring"
  su_json :: "octet list \<Rightarrow> js option"
  su_instance :: jsstring
  su_key :: jsstring
  su_parse :: "jsstring \<Rightarrow> 64 word option"
  su_fmt :: "64 word \<Rightarrow> jsstring"

fun flow_name :: "flow \<Rightarrow> string" where
  "flow_name FromClient = ''upstream''"
| "flow_name FromCodex = ''downstream''"

text \<open>The payload of a frame is a copy of its bytes. That of an empty line is nil, which is marshalled as
  \<open>null\<close>; bytes that are not JSON cannot be marshalled.\<close>

definition frame_json :: "proxy_setup \<Rightarrow> octet list \<Rightarrow> js option" where
  "frame_json u frame = (if frame = [] then Some JNull else su_json u frame)"

definition envelope :: "proxy_setup \<Rightarrow> flow \<times> octet list \<Rightarrow> jsstring \<Rightarrow> ingest_event" where
  "envelope u x now = (case x of (d, frame) \<Rightarrow>
     OnFrame (su_raw u) now (su_instance u) (su_key u) (flow_name d) (frame_json u frame))"

text \<open>A send on the channel of the observer: \<open>None\<close> as long as its buffer is full, when a goroutine that
  executes it waits. A \<open>select\<close> with one case and without a default waits with it; with a default it takes
  the case when that can proceed and the default otherwise. So \<open>None\<close> of \<open>enqueue\<close> would be a caller that
  waits, and that caller is a pump of the bridge.\<close>

definition chan_send :: "ingest_event \<Rightarrow> observer \<Rightarrow> observer option" where
  "chan_send env s = (if length (o_queue s) < shipQueueSize then Some (s\<lparr>o_queue := o_queue s @ [env]\<rparr>) else None)"

fun select_case :: "'s option \<Rightarrow> 's option \<Rightarrow> 's option" where
  "select_case (Some s) dflt = Some s"
| "select_case None dflt = dflt"

definition enqueue :: "ingest_event \<Rightarrow> observer \<Rightarrow> observer option" where
  "enqueue env s = select_case (chan_send env s) (Some (s\<lparr>o_reports := Suc (o_reports s)\<rparr>))"

text \<open>The frames of a step, one after the other; a pump goes on when the call has returned.\<close>

fun observe_frames :: "ingest_event list \<Rightarrow> observer \<Rightarrow> observer option" where
  "observe_frames [] s = Some s"
| "observe_frames (env # envs) s = (case enqueue env (s\<lparr>o_observed := o_observed s @ [env]\<rparr>) of
     None \<Rightarrow> None | Some s' \<Rightarrow> observe_frames envs s')"

text \<open>The call always returns, with the envelope in the queue or a report to be made.\<close>

definition offered :: "ingest_event \<Rightarrow> observer \<Rightarrow> observer" where
  "offered env s =
     (if length (o_queue s) < shipQueueSize then s\<lparr>o_queue := o_queue s @ [env], o_observed := o_observed s @ [env]\<rparr>
      else s\<lparr>o_reports := Suc (o_reports s), o_observed := o_observed s @ [env]\<rparr>)"

lemma enqueue_returns: "enqueue env (s\<lparr>o_observed := o_observed s @ [env]\<rparr>) = Some (offered env s)"
  by (simp add: enqueue_def chan_send_def offered_def)

lemma observe_frames_returns: "observe_frames envs s = Some (fold offered envs s)"
  by (induction envs arbitrary: s) (simp_all add: enqueue_returns)

text \<open>A bare send would wait.\<close>

lemma chan_send_waits: "chan_send env s = None \<longleftrightarrow> shipQueueSize \<le> length (o_queue s)"
  by (simp add: chan_send_def not_less)

text \<open>The request of \<open>IngestEvent\<close>, as the hub sees it: the body is what \<open>json.Marshal\<close> wrote; time and random
  digits are those the hub takes when it handles the request.\<close>

definition IngestEvent :: "ingest_event \<Rightarrow> 64 word \<Rightarrow> jsstring \<Rightarrow> hub_request" where
  "IngestEvent env now hex =
     \<lparr>rq_method = ''POST'', rq_path = jstr ''/api/v1/ingest/events'', rq_remote = Some (IP4 127 0 0 1),
      rq_register = None, rq_heartbeat = None, rq_event = decode_ingest (marshal_envelope env),
      rq_now = now, rq_random = hex\<rparr>"

text \<open>\<open>postJSON\<close> takes a status from 300 on for an error.\<close>

fun accepted :: "served \<Rightarrow> bool" where
  "accepted (Answered code) = (code < 300)"
| "accepted (ReadOnly rt) = True"
| "accepted Redirected = False"

definition json_marshals :: "ingest_event \<Rightarrow> bool" where
  "json_marshals env \<longleftrightarrow> in_payload env \<noteq> JUndef"

text \<open>\<open>ship\<close> after the call of \<open>IngestEvent\<close>.\<close>

definition ship_result :: "bool \<Rightarrow> ingest_event \<Rightarrow> observer \<Rightarrow> observer" where
  "ship_result success env s =
     (if success then reportRecovered (s\<lparr>o_current := None, o_shipped := o_shipped s @ [env]\<rparr>)
      else reportDegraded (s\<lparr>o_current := None\<rparr>))"

subsection \<open>The pipeline\<close>

text \<open>\<open>pl_flight\<close> holds the posts that were given up and may still be handled; \<open>pl_times\<close> and \<open>pl_ingested\<close>
  record when frames were observed and which envelopes the hub accepted, in the order it did.\<close>

record pipeline =
  pl_bridge :: bridge
  pl_observer :: observer
  pl_app :: hub_app
  pl_flight :: "ingest_event list"
  pl_times :: "jsstring list"
  pl_ingested :: "ingest_event list"

definition pipeline_start :: "hub_app \<Rightarrow> pipeline" where
  "pipeline_start app = \<lparr>pl_bridge = NewBridge, pl_observer = NewObserver, pl_app = app, pl_flight = [],
     pl_times = [], pl_ingested = []\<rparr>"

datatype pipeline_action =
    Bridged bridge_action jsstring
  | Noticed
  | Picked
  | Unmarshallable
  | Posted "64 word" jsstring
  | GivenUp
  | Late ingest_event "64 word" jsstring
  | Requested hub_request
  | Restarted "event_row list \<Rightarrow> event_row"

text \<open>The frames that the bridge has seen in a step.\<close>

definition new_frames :: "bridge \<Rightarrow> bridge \<Rightarrow> (flow \<times> octet list) list" where
  "new_frames b b' = drop (length (br_seen b)) (br_seen b')"

definition handled :: "proxy_setup \<Rightarrow> ingest_event \<Rightarrow> 64 word \<Rightarrow> jsstring \<Rightarrow> pipeline \<Rightarrow> bool \<times> pipeline" where
  "handled u env now hex p =
     (case serve (su_parse u) (su_fmt u) (pl_app p) (IngestEvent env now hex) of
        (app, reply) \<Rightarrow> (accepted reply, p\<lparr>pl_app := app,
          pl_ingested := (if accepted reply then pl_ingested p @ [env] else pl_ingested p)\<rparr>))"

definition restart :: "(event_row list \<Rightarrow> event_row) \<Rightarrow> hub_app \<Rightarrow> hub_app" where
  "restart pick app = \<lparr>ha_db = map_option (\<lambda>db. snd (BackfillSessionsFromEvents pick db)) (ha_db app),
     ha_published = [], ha_stopped = False, ha_touched = False\<rparr>"

fun pipeline_step :: "proxy_setup \<Rightarrow> pipeline \<Rightarrow> pipeline_action \<Rightarrow> pipeline option" where
  "pipeline_step u p (Bridged a now) = (case bridge_step (pl_bridge p) a of
       None \<Rightarrow> None
     | Some b' \<Rightarrow> (let seen' = new_frames (pl_bridge p) b' in
         case observe_frames (map (\<lambda>x. envelope u x now) seen') (pl_observer p) of
           None \<Rightarrow> None
         | Some s' \<Rightarrow> Some (p\<lparr>pl_bridge := b', pl_observer := s', pl_times := pl_times p @ map (\<lambda>_. now) seen'\<rparr>)))"
| "pipeline_step u p Noticed = (let s = pl_observer p in case o_reports s of
       0 \<Rightarrow> None
     | Suc n \<Rightarrow> Some (p\<lparr>pl_observer := reportDegraded (s\<lparr>o_reports := n\<rparr>)\<rparr>))"
| "pipeline_step u p Picked = (let s = pl_observer p in case (o_current s, o_queue s) of
       (None, env # rest) \<Rightarrow> Some (p\<lparr>pl_observer := s\<lparr>o_current := Some env, o_queue := rest\<rparr>\<rparr>)
     | _ \<Rightarrow> None)"
| "pipeline_step u p Unmarshallable = (case o_current (pl_observer p) of
       None \<Rightarrow> None
     | Some env \<Rightarrow> if json_marshals env then None
         else Some (p\<lparr>pl_observer := ship_result False env (pl_observer p)\<rparr>))"
| "pipeline_step u p (Posted now hex) = (case o_current (pl_observer p) of
       None \<Rightarrow> None
     | Some env \<Rightarrow> if \<not> json_marshals env then None
         else (case handled u env now hex p of
            (success, p') \<Rightarrow> Some (p'\<lparr>pl_observer := ship_result success env (pl_observer p)\<rparr>)))"
| "pipeline_step u p GivenUp = (case o_current (pl_observer p) of
       None \<Rightarrow> None
     | Some env \<Rightarrow> if \<not> json_marshals env then None
         else Some (p\<lparr>pl_observer := ship_result False env (pl_observer p), pl_flight := pl_flight p @ [env]\<rparr>))"
| "pipeline_step u p (Late env now hex) =
     (if env \<in> set (pl_flight p) then Some (snd (handled u env now hex (p\<lparr>pl_flight := remove1 env (pl_flight p)\<rparr>)))
      else None)"
| "pipeline_step u p (Requested r) = Some (p\<lparr>pl_app := answered (su_parse u) (su_fmt u) (pl_app p) r\<rparr>)"
| "pipeline_step u p (Restarted pick) = Some (p\<lparr>pl_app := restart pick (pl_app p)\<rparr>)"

lemma pipeline_step_bridged:
  "pipeline_step u p (Bridged a now) = map_option
     (\<lambda>b'. let seen' = new_frames (pl_bridge p) b' in
        p\<lparr>pl_bridge := b', pl_observer := fold (\<lambda>x. offered (envelope u x now)) seen' (pl_observer p),
          pl_times := pl_times p @ map (\<lambda>_. now) seen'\<rparr>)
     (bridge_step (pl_bridge p) a)"
  by (simp add: observe_frames_returns fold_map comp_def Let_def split: option.split)

declare pipeline_step.simps(1) [simp del]
declare pipeline_step_bridged [simp]

inductive pipeline_run :: "proxy_setup \<Rightarrow> hub_app \<Rightarrow> pipeline_action list \<Rightarrow> pipeline \<Rightarrow> bool" for u app where
  started: "pipeline_run u app [] (pipeline_start app)"
| acted: "pipeline_run u app tr p \<Longrightarrow> pipeline_step u p a = Some p' \<Longrightarrow> pipeline_run u app (tr @ [a]) p'"

text \<open>Runs as computations.\<close>

fun pipeline_exec :: "proxy_setup \<Rightarrow> pipeline_action list \<Rightarrow> pipeline \<Rightarrow> pipeline option" where
  "pipeline_exec u [] p = Some p"
| "pipeline_exec u (a # as) p = (case pipeline_step u p a of None \<Rightarrow> None | Some p' \<Rightarrow> pipeline_exec u as p')"

lemma pipeline_exec_run:
  "pipeline_run u app tr p \<Longrightarrow> pipeline_exec u as p = Some p' \<Longrightarrow> pipeline_run u app (tr @ as) p'"
proof (induction as arbitrary: tr p)
  case (Cons a as)
  then obtain q where "pipeline_step u p a = Some q" "pipeline_exec u as q = Some p'" by (auto split: option.splits)
  with Cons.IH [OF pipeline_run.acted [OF Cons.prems(1)]] show ?case by simp
qed simp

definition bridge_actions :: "pipeline_action list \<Rightarrow> bridge_action list" where
  "bridge_actions tr = List.map_filter (\<lambda>x. case x of Bridged a now \<Rightarrow> Some a | _ \<Rightarrow> None) tr"

subsection \<open>The rows of the hub\<close>

text \<open>What the hub stores of an envelope; the identifier and the time of the row are the hub's.\<close>

definition stored_as :: "ingest_event \<Rightarrow> event_row \<Rightarrow> bool" where
  "stored_as e r \<longleftrightarrow> r_proxy_instance_id r = in_proxy_instance_id e
     \<and> r_client_source_key r = nullString (in_client_source_key e) \<and> r_session_id r = nullString (in_session_id e)
     \<and> r_turn_id r = nullString (in_turn_id e) \<and> r_request_id r = nullString (in_request_id e)
     \<and> r_direction r = (if in_direction e = [] then jstr ''codex_to_upstream'' else in_direction e)
     \<and> r_category r = in_category e \<and> r_event_type r = in_event_type e
     \<and> r_command_call_id r = nullString (in_command_call_id e)
     \<and> r_tool_call_id r = nullString (in_tool_call_id e) \<and> r_raw_json r = in_payload e"

text \<open>The rows of a database that were added to those of another.\<close>

definition app_table :: "hub_app \<Rightarrow> event_row list" where
  "app_table app = (case ha_db app of None \<Rightarrow> [] | Some db \<Rightarrow> db_events db)"

definition rows_added :: "hub_app \<Rightarrow> hub_app \<Rightarrow> event_row list \<Rightarrow> bool" where
  "rows_added app app' new \<longleftrightarrow> map_option db_events (ha_db app') = map_option (\<lambda>db. db_events db @ new) (ha_db app)
     \<and> (rows_ok (app_table app) \<longrightarrow> rows_ok (app_table app'))"

lemma rows_added_refl [simp]: "rows_added app app []"
  by (simp add: rows_added_def cong: option.map_cong)

lemma app_table_added: "rows_added app app' new \<Longrightarrow> ha_db app \<noteq> None \<Longrightarrow> app_table app' = app_table app @ new"
  by (cases "ha_db app"; cases "ha_db app'") (simp_all add: rows_added_def app_table_def)

lemma rows_added_trans: "rows_added a b xs \<Longrightarrow> rows_added b c ys \<Longrightarrow> rows_added a c (xs @ ys)"
  by (cases "ha_db a"; cases "ha_db b"; cases "ha_db c") (simp_all add: rows_added_def)

lemma rows_added_same_db: "ha_db app' = ha_db app \<Longrightarrow> rows_added app app' []"
  by (simp add: rows_added_def app_table_def cong: option.map_cong)

lemma touch_db [simp]: "ha_db (touchMiddleware r app) = ha_db app"
  by (simp add: touchMiddleware_def)

lemma eventsHandler_rows:
  "snd (eventsHandler parse fmt hex now body rows) = rows
   \<and> isl (fst (eventsHandler parse fmt hex now body rows))
   \<or> (\<exists>r. snd (eventsHandler parse fmt hex now body rows) = rows @ [r] \<and> stored_as body r
        \<and> (rows_ok rows \<longrightarrow> rows_ok (rows @ [r])) \<and> \<not> isl (fst (eventsHandler parse fmt hex now body rows)))"
  by (auto simp: eventsHandler_def AppendEventReturningID_def ingest_record_def stored_as_def Let_def rows_ok_def newID_def)

lemma ingest_rows:
  "db_events (snd (ingest parse fmt hex now body db)) = snd (eventsHandler parse fmt hex now body (db_events db))"
  "isl (fst (ingest parse fmt hex now body db)) = isl (fst (eventsHandler parse fmt hex now body (db_events db)))"
  by (simp_all add: ingest_def derivePersistentRows_def split: prod.splits sum.splits)

lemma posted_event_rows:
  "(case posted_event parse fmt r app of (app', reply) \<Rightarrow>
      (accepted reply \<longrightarrow> (\<exists>body db row. rq_event r = Some body \<and> ha_db app = Some db
         \<and> rows_added app app' [row] \<and> stored_as body row))
      \<and> (\<not> accepted reply \<longrightarrow> rows_added app app' []))"
proof (cases "ha_db app"; cases "rq_event r")
  fix db body
  assume some: "ha_db app = Some db" "rq_event r = Some body"
  obtain res db' where res: "ingest parse fmt (rq_random r) (rq_now r) body db = (res, db')" by fastforce
  with eventsHandler_rows [of parse fmt "rq_random r" "rq_now r" body "db_events db"]
    ingest_rows [of parse fmt "rq_random r" "rq_now r" body db] some
  show ?thesis by (cases res) (auto simp: posted_event_def rows_added_def app_table_def)
qed (simp_all add: posted_event_def)

lemma serve_rows: "\<exists>new. rows_added app (fst (serve parse fmt app r)) new"
proof -
  let ?a = "touchMiddleware r app"
  have "\<exists>new. rows_added ?a (fst (posted_event parse fmt r ?a)) new"
    by (cases "accepted (snd (posted_event parse fmt r ?a))") (use posted_event_rows [where parse = parse and fmt = fmt and r = r and app = ?a] in \<open>auto split: prod.splits\<close>)
  moreover have "\<exists>new. rows_added ?a (fst (posted_register r ?a)) new"
      "\<exists>new. rows_added ?a (fst (posted_heartbeat r ?a)) new"
    by (rule exI [of _ "[]"], auto simp: posted_register_def posted_heartbeat_def registerHandler_def
        heartbeatHandler_def rows_added_def app_table_def split: option.split)+
  moreover have "\<exists>new. rows_added ?a (fst (shutdownHandler ?a)) new" "\<exists>new. rows_added ?a ?a new"
    by (rule exI [of _ "[]"], simp add: shutdownHandler_def rows_added_same_db)+
  ultimately have "\<exists>new. rows_added ?a (fst (serve parse fmt app r)) new"
    unfolding serve_def Let_def by (simp split: option.split route.split)
  then show ?thesis by (simp add: rows_added_def app_table_def)
qed

lemma events_route:
  "clean_path (jstr ''/api/v1/ingest/events'')"
  "find_route ''POST'' (jstr ''/api/v1/ingest/events'') = Some RtEvents"
  by code_simp+

lemma serve_posted:
  "serve parse fmt app (IngestEvent env now hex)
     = posted_event parse fmt (IngestEvent env now hex) (touchMiddleware (IngestEvent env now hex) app)"
  by (simp add: serve_def IngestEvent_def Let_def events_route loopback_def)

text \<open>An accepted post adds one row, that of the envelope; any other adds none.\<close>

lemma serve_IngestEvent:
  assumes "json_marshals env" and "serve parse fmt app (IngestEvent env now hex) = (app', reply)"
  shows "if accepted reply then \<exists>row. ha_db app \<noteq> None \<and> rows_added app app' [row] \<and> stored_as env row
    else rows_added app app' []"
proof -
  let ?r = "IngestEvent env now hex"
  let ?a = "touchMiddleware ?r app"
  have "rq_event ?r = Some env" using assms(1) by (simp add: IngestEvent_def json_marshals_def decode_envelope)
  moreover have "serve parse fmt app ?r = posted_event parse fmt ?r ?a" by (rule serve_posted)
  ultimately show ?thesis
    using posted_event_rows [where parse = parse and fmt = fmt and r = ?r and app = ?a] assms(2) by (auto simp: rows_added_def app_table_def)
qed

text \<open>What the hub has done when it has accepted a post.\<close>

lemma accepted_IngestEvent:
  assumes "json_marshals env" and "serve parse fmt app (IngestEvent env now hex) = (app', reply)" and "accepted reply"
    and "ha_db app = Some db" and "ha_db app' = Some db'"
  shows "\<exists>b. ingest parse fmt hex now env db = (Inr b, db')"
proof -
  let ?r = "IngestEvent env now hex"
  have "rq_event ?r = Some env" using assms(1) by (simp add: IngestEvent_def json_marshals_def decode_envelope)
  moreover have "rq_random ?r = hex" "rq_now ?r = now" by (simp_all add: IngestEvent_def)
  ultimately show ?thesis using assms(2-5)
    by (auto simp: serve_posted posted_event_def split: prod.splits sum.splits)
qed

subsection \<open>What a run keeps\<close>

definition waiting :: "observer \<Rightarrow> ingest_event list" where
  "waiting s = (case o_current s of None \<Rightarrow> [] | Some e \<Rightarrow> [e]) @ o_queue s"

lemma kept_waiting: "kept s = o_shipped s @ waiting s"
  by (simp add: kept_def waiting_def)

text \<open>The observer of the pipeline takes the steps of \<open>Observer_Queue\<close>.\<close>

lemma observed_enqueue: "observed True s \<Longrightarrow> observed True (offered env s)"
  using observed.step [of True s "offered env s"] observer_step.enqueued [of s True env]
    observer_step.dropped [of s True env] by (auto simp: offered_def)

lemma observed_fold: "observed True s \<Longrightarrow> observed True (fold (\<lambda>x. offered (f x)) xs s)"
  by (induction xs arbitrary: s) (simp_all add: observed_enqueue)

lemma observed_ship: "observed True s \<Longrightarrow> o_current s = Some env \<Longrightarrow> observed True (ship_result success env s)"
  using observed.step [of True s "ship_result success env s"] observer_step.posted [of True s env]
    observer_step.failed [of True s env] by (auto simp: ship_result_def)

lemma observed_pipeline_step:
  assumes "pipeline_step u p a = Some p'" and "observed True (pl_observer p)"
  shows "observed True (pl_observer p')"
proof (cases a)
  case Noticed
  with assms show ?thesis
    using observed.step [OF assms(2) observer_step.reported]
    by (auto simp: Let_def split: nat.splits)
next
  case Picked
  with assms show ?thesis
    using observed.step [OF assms(2) observer_step.taken]
    by (auto simp: Let_def split: option.splits list.splits)
qed (use assms in \<open>auto simp: Let_def observed_fold observed_ship handled_def split: option.splits if_splits prod.splits\<close>)

text \<open>Every frame that the bridge has seen was observed, in order.\<close>

lemma bridge_sees_more: "bridge_step b a = Some b' \<Longrightarrow> br_seen b' = br_seen b @ new_frames b b'"
proof -
  assume step: "bridge_step b a = Some b'"
  have "\<exists>new. br_seen b' = br_seen b @ new"
  proof (cases a)
    case (Pump d failure)
    with step have "pump_iteration d failure b = Some b'" by simp
    then show ?thesis by (cases rule: pump_iteration_cases) (auto simp: pump_ends_def)
  qed (use step in \<open>auto simp: Let_def codex_gone_def Run_returns_def split: if_splits\<close>)
  then show ?thesis by (auto simp: new_frames_def)
qed

definition frames_ok :: "proxy_setup \<Rightarrow> pipeline \<Rightarrow> bool" where
  "frames_ok u p \<longleftrightarrow> length (pl_times p) = length (br_seen (pl_bridge p))
     \<and> o_observed (pl_observer p) = map2 (envelope u) (br_seen (pl_bridge p)) (pl_times p)"

lemma observed_by_enqueue [simp]:
  "o_observed (fold (\<lambda>x. offered (f x)) xs s) = o_observed s @ map f xs"
  by (induction xs arbitrary: s) (simp_all add: offered_def)

lemma observed_by_ship [simp]:
  "o_observed (reportDegraded s) = o_observed s" "o_observed (ship_result success env s) = o_observed s"
  by (simp_all add: ship_result_def reportDegraded_def reportRecovered_def)

lemma frames_ok_step:
  assumes "pipeline_step u p a = Some p'" and "frames_ok u p"
  shows "frames_ok u p'"
proof (cases a)
  case (Bridged x now)
  have "map2 (envelope u) xs (map (\<lambda>_. now) xs) = map (\<lambda>x. envelope u x now) xs" for xs
    by (induction xs) simp_all
  with Bridged assms show ?thesis
    by (auto simp: frames_ok_def Let_def bridge_sees_more)
qed (use assms in \<open>auto simp: frames_ok_def Let_def handled_def split: option.splits nat.splits list.splits
    if_splits prod.splits\<close>)

text \<open>No envelope is handled twice, and without a failure the hub has accepted exactly what was shipped.\<close>

definition posts_ok :: "pipeline \<Rightarrow> bool" where
  "posts_ok p \<longleftrightarrow> mset (pl_ingested p) + mset (pl_flight p) + mset (waiting (pl_observer p))
       \<subseteq># mset (o_observed (pl_observer p))
     \<and> (o_log (pl_observer p) = [] \<longrightarrow> pl_ingested p = o_shipped (pl_observer p) \<and> pl_flight p = [])
     \<and> list_all json_marshals (pl_flight p)"

lemma enqueue_fold [simp]:
  "o_log (fold (\<lambda>x. offered (f x)) xs s) = o_log s"
  "o_shipped (fold (\<lambda>x. offered (f x)) xs s) = o_shipped s"
  by (induction xs arbitrary: s) (simp_all add: offered_def)

lemma waiting_fold:
  "mset (waiting (fold (\<lambda>x. offered (f x)) xs s)) \<subseteq># mset (waiting s) + mset (map f xs)"
proof (induction xs arbitrary: s)
  case (Cons x xs)
  have "mset (waiting (offered (f x) s)) \<subseteq># add_mset (f x) (mset (waiting s))"
    by (simp add: offered_def waiting_def subset_mset.add_increasing)
  then have "mset (waiting (offered (f x) s)) + mset (map f xs) \<subseteq># mset (waiting s) + mset (map f (x # xs))"
    by (simp add: subset_mset.add_mono)
  with Cons [of "offered (f x) s"] show ?case by (simp add: subset_mset.order_trans)
qed simp

lemma waiting_report [simp]: "waiting (reportDegraded (s\<lparr>o_reports := n\<rparr>)) = waiting s"
  by (simp add: waiting_def reportDegraded_def)

lemma waiting_ship:
  "o_current s = Some env \<Longrightarrow> mset (waiting s) = add_mset env (mset (waiting (ship_result success env s)))"
  by (simp_all add: waiting_def ship_result_def reportRecovered_def reportDegraded_def)

lemma log_ship:
  assumes "observer_ok s"
  shows "o_log (ship_result success env s) = [] \<longleftrightarrow> success \<and> o_log s = []"
    and "o_log (reportDegraded (s\<lparr>o_reports := n\<rparr>)) \<noteq> []"
  using assms by (auto simp: observer_ok_def ship_result_def reportRecovered_def reportDegraded_def)

lemma shipped_ship [simp]:
  "o_shipped (ship_result success env s) = o_shipped s @ (if success then [env] else [])"
  by (simp add: ship_result_def reportRecovered_def reportDegraded_def)

lemma handled_cases:
  "handled u env now hex p = (success, p') \<Longrightarrow>
   pl_bridge p' = pl_bridge p \<and> pl_observer p' = pl_observer p \<and> pl_flight p' = pl_flight p \<and> pl_times p' = pl_times p
     \<and> pl_ingested p' = pl_ingested p @ (if success then [env] else [])"
  by (auto simp: handled_def split: prod.splits)

lemma mset_le_drop: "add_mset x A \<subseteq># B \<Longrightarrow> A \<subseteq># B"
  by (metis mset_subset_eq_insertD subset_mset.less_imp_le)

lemma posts_ok_step:
  assumes "pipeline_step u p a = Some p'" and "posts_ok p" and ok: "observer_ok (pl_observer p)"
  shows "posts_ok p'"
proof (cases a)
  case (Bridged x now)
  with assms(1) obtain fs where p': "pl_observer p' = fold (\<lambda>x. offered (envelope u x now)) fs (pl_observer p)"
      "pl_flight p' = pl_flight p" "pl_ingested p' = pl_ingested p"
    by (auto simp: Let_def)
  let ?old = "mset (pl_ingested p) + mset (pl_flight p)" and ?f = "\<lambda>x. envelope u x now"
  have "?old + mset (waiting (pl_observer p')) \<subseteq># ?old + mset (waiting (pl_observer p)) + mset (map ?f fs)"
    unfolding p' add.assoc by (intro subset_mset.add_left_mono waiting_fold)
  also have "\<dots> \<subseteq># mset (o_observed (pl_observer p)) + mset (map ?f fs)"
    using assms(2) by (intro subset_mset.add_right_mono) (simp add: posts_ok_def)
  finally show ?thesis using assms(2) by (simp add: posts_ok_def p')
next
  case Noticed
  with assms log_ship(2) [OF ok] show ?thesis
    by (auto simp: posts_ok_def Let_def split: nat.splits)
next
  case Picked
  with assms show ?thesis
    by (auto simp: posts_ok_def Let_def waiting_def split: option.splits list.splits)
next
  case Unmarshallable
  then obtain env where env: "o_current (pl_observer p) = Some env"
      "p' = p\<lparr>pl_observer := ship_result False env (pl_observer p)\<rparr>"
    using assms(1) by (auto split: option.splits if_splits)
  with assms(2) waiting_ship [OF env(1), of False] log_ship(1) [OF ok, of False] show ?thesis
    by (auto simp: posts_ok_def dest: mset_le_drop)
next
  case (Posted now hex)
  then obtain env success q where env: "o_current (pl_observer p) = Some env" "handled u env now hex p = (success, q)"
      "p' = q\<lparr>pl_observer := ship_result success env (pl_observer p)\<rparr>"
    using assms(1) by (auto split: option.splits if_splits prod.splits)
  note q = handled_cases [OF env(2)]
  from assms(2) waiting_ship [OF env(1), of success] log_ship(1) [OF ok, of success] q show ?thesis
    by (auto simp: posts_ok_def env(3) dest: mset_le_drop)
next
  case GivenUp
  then obtain env where env: "o_current (pl_observer p) = Some env" "json_marshals env"
      "p' = p\<lparr>pl_observer := ship_result False env (pl_observer p), pl_flight := pl_flight p @ [env]\<rparr>"
    using assms(1) by (auto split: option.splits if_splits)
  with assms(2) waiting_ship [OF env(1), of False] log_ship(1) [OF ok, of False] show ?thesis
    by (auto simp: posts_ok_def)
next
  case (Late env now hex)
  define rest where "rest = remove1 env (pl_flight p)"
  from Late assms(1) obtain success where q: "handled u env now hex (p\<lparr>pl_flight := rest\<rparr>) = (success, p')"
      "env \<in> set (pl_flight p)"
    by (cases "handled u env now hex (p\<lparr>pl_flight := rest\<rparr>)") (auto simp: rest_def split: if_splits)
  then have flight: "mset (pl_flight p) = add_mset env (mset rest)" "set rest \<subseteq> set (pl_flight p)"
      "pl_flight p \<noteq> []"
    by (auto simp: rest_def dest: subsetD [OF set_remove1_subset])
  from handled_cases [OF q(1)] have p': "pl_flight p' = rest" "pl_observer p' = pl_observer p"
      "pl_ingested p' = pl_ingested p @ (if success then [env] else [])" by auto
  from assms(2) flight show ?thesis
    by (cases success) (auto simp: posts_ok_def p' list_all_iff dest: mset_le_drop)
qed (use assms in \<open>auto simp: posts_ok_def\<close>)

text \<open>The events table only grows, by the rows of what was accepted and those of other clients.\<close>

definition stored_ok :: "hub_app \<Rightarrow> pipeline \<Rightarrow> bool" where
  "stored_ok app p \<longleftrightarrow> (\<exists>new rs. rows_added app (pl_app p) new \<and> subseq rs new \<and> list_all2 stored_as (pl_ingested p) rs)
     \<and> (ha_db app = None \<longrightarrow> pl_ingested p = [])"

lemma stored_ok_more:
  assumes "stored_ok app p" and "rows_added (pl_app p) (pl_app p') new" and "pl_ingested p' = pl_ingested p"
  shows "stored_ok app p'"
  using assms rows_added_trans [OF _ assms(2)] subseq_rev_drop_many
  unfolding stored_ok_def by (metis append_Nil2 list_emb_append_mono list_emb_Nil)

lemma stored_ok_cong:
  "stored_ok app p \<Longrightarrow> pl_app p' = pl_app p \<Longrightarrow> pl_ingested p' = pl_ingested p \<Longrightarrow> stored_ok app p'"
  by (simp add: stored_ok_def)

lemma rows_added_None: "rows_added a b xs \<Longrightarrow> ha_db a = None \<longleftrightarrow> ha_db b = None"
  by (cases "ha_db a"; cases "ha_db b") (simp_all add: rows_added_def)

lemma stored_ok_handled:
  assumes "stored_ok app p" and "handled u env now hex p = (success, p')" and "json_marshals env"
  shows "stored_ok app p'"
proof -
  obtain reply where reply: "serve (su_parse u) (su_fmt u) (pl_app p) (IngestEvent env now hex) = (pl_app p', reply)"
      "success = accepted reply" "pl_ingested p' = pl_ingested p @ (if success then [env] else [])"
    using assms(2) by (auto simp: handled_def split: prod.splits)
  note served = serve_IngestEvent [OF assms(3) reply(1)]
  show ?thesis
  proof (cases success)
    case True
    with served reply(2) obtain row where row: "rows_added (pl_app p) (pl_app p') [row]" "stored_as env row"
        "ha_db (pl_app p) \<noteq> None" by auto
    from assms(1) obtain new rs where old: "rows_added app (pl_app p) new" "subseq rs new"
        "list_all2 stored_as (pl_ingested p) rs" by (auto simp: stored_ok_def)
    from row(2) old(3) have "list_all2 stored_as (pl_ingested p') (rs @ [row])"
      by (simp add: reply(3) True list_all2_appendI)
    moreover from old(2) have "subseq (rs @ [row]) (new @ [row])" by simp
    moreover have "ha_db app \<noteq> None" using rows_added_None [OF old(1)] row(3) by simp
    ultimately show ?thesis using rows_added_trans [OF old(1) row(1)] unfolding stored_ok_def by blast
  next
    case False
    with served reply(2) have "rows_added (pl_app p) (pl_app p') []" by simp
    from stored_ok_more [OF assms(1) this] False reply(3) show ?thesis by simp
  qed
qed

lemma restart_rows: "rows_added app (restart pick app) []"
  by (cases "ha_db app") (simp_all add: restart_def rows_added_def app_table_def BackfillSessionsFromEvents_def Let_def)

lemma stored_ok_step:
  assumes "pipeline_step u p a = Some p'" and "stored_ok app p" and "posts_ok p"
  shows "stored_ok app p'"
proof (cases a)
  case (Posted now hex)
  then obtain env success q where "json_marshals env" "handled u env now hex p = (success, q)"
      "p' = q\<lparr>pl_observer := ship_result success env (pl_observer p)\<rparr>"
    using assms(1) by (auto split: option.splits if_splits prod.splits)
  with stored_ok_handled [OF assms(2)] show ?thesis by (simp add: stored_ok_def)
next
  case (Late env now hex)
  let ?q = "p\<lparr>pl_flight := remove1 env (pl_flight p)\<rparr>"
  from Late assms(1) obtain success where "handled u env now hex ?q = (success, p')" "env \<in> set (pl_flight p)"
    by (cases "handled u env now hex ?q") (auto split: if_splits)
  moreover have "stored_ok app ?q" using assms(2) by (simp add: stored_ok_def)
  ultimately show ?thesis using stored_ok_handled assms(3) by (simp add: posts_ok_def list_all_iff)
next
  case (Requested r)
  with assms(1,2) serve_rows [of "pl_app p" "su_parse u" "su_fmt u" r] show ?thesis
    by (auto simp: answered_def intro: stored_ok_more)
next
  case (Restarted pick)
  with assms(1) stored_ok_more [OF assms(2), of p' "[]"] restart_rows show ?thesis by auto
qed (use assms(1) in \<open>auto simp: Let_def split: option.splits nat.splits list.splits if_splits
    intro!: stored_ok_cong [OF assms(2)]\<close>)

lemma pipeline_step_rows:
  assumes "pipeline_step u p a = Some p'"
  shows "\<exists>new. rows_added (pl_app p) (pl_app p') new"
proof -
  have served: "\<exists>new. rows_added (pl_app p) app' new"
    if "serve (su_parse u) (su_fmt u) (pl_app p) r = (app', reply)" for r app' reply
    using serve_rows [of "pl_app p" "su_parse u" "su_fmt u" r] that by simp
  have same: "\<exists>new. rows_added (pl_app p) (pl_app p) new" "\<exists>new. rows_added (pl_app p) (restart pick (pl_app p)) new" for pick
    using rows_added_refl restart_rows by blast+
  have "\<exists>new. rows_added (pl_app p) (answered (su_parse u) (su_fmt u) (pl_app p) r) new" for r
    unfolding answered_def by (rule serve_rows)
  with assms same served show ?thesis
    by (cases a) (auto simp: Let_def handled_def split: option.splits nat.splits list.splits if_splits prod.splits)
qed

lemma pipeline_exec_rows:
  "pipeline_exec u as p = Some p' \<Longrightarrow> \<exists>new. rows_added (pl_app p) (pl_app p') new"
proof (induction as arbitrary: p)
  case Nil
  then show ?case by (auto intro!: exI [of _ "[]"])
next
  case (Cons a as)
  then obtain q where "pipeline_step u p a = Some q" "pipeline_exec u as q = Some p'" by (auto split: option.splits)
  with Cons.IH pipeline_step_rows rows_added_trans show ?case by blast
qed

text \<open>The row of a \<open>codex/event\<close> notification, as the history returns it.\<close>

lemma codex_row:
  assumes "frame = JObj ps" and "field frame ''method'' = JStr (jstr ''codex/event'')"
    and "decode_codex (field frame ''params'') = Some q" and "cp_threadId q \<noteq> []"
    and "is_object (field (field frame ''params'') ''msg'')"
    and "stored_as (OnFrame raw_text now inst key dir (Some frame)) r"
  shows "r_session_id r = Some (cp_threadId q)" and "\<not> ignored (row_dto fmt r)"
    and "msgOf (row_dto fmt r) = field (field frame ''params'') ''msg''"
    and "event_type (row_dto fmt r) = Some (if cp_type q = [] then jstr ''codex/event'' else cp_type q)"
proof -
  note env = OnFrame_codex [OF assms(1-3)]
  from assms(4,6) show "r_session_id r = Some (cp_threadId q)" by (simp add: stored_as_def env nullString_def)
  have "category (row_dto fmt r) = jstr ''codex_event''"
    using assms(6) by (simp add: stored_as_def env row_dto_def toEventDTO_def eventRecordFromEventRow_def)
  then show "\<not> ignored (row_dto fmt r)" by (simp add: ignored_def jstr_def)
  have "payload (row_dto fmt r) = frame"
    using assms(6) by (simp add: stored_as_def env row_dto_def toEventDTO_def eventRecordFromEventRow_def)
  from codex_notification_msg [OF assms(1,3,5) this]
  show "msgOf (row_dto fmt r) = field (field frame ''params'') ''msg''" .
  show "event_type (row_dto fmt r) = Some (if cp_type q = [] then jstr ''codex/event'' else cp_type q)"
    using assms(6) by (simp add: stored_as_def env row_dto_def toEventDTO_def eventRecordFromEventRow_def nullString_def)
qed

lemma pipeline_invariant:
  "pipeline_run u app tr p \<Longrightarrow> observed True (pl_observer p) \<and> frames_ok u p \<and> posts_ok p \<and> stored_ok app p"
proof (induction rule: pipeline_run.induct)
  case started
  have "posts_ok (pipeline_start app)"
    by (simp add: posts_ok_def pipeline_start_def waiting_def NewObserver_def)
  moreover have "stored_ok app (pipeline_start app)"
    by (auto simp: stored_ok_def pipeline_start_def intro!: exI [of _ "[]"])
  ultimately show ?case
    using observed.start by (simp add: frames_ok_def pipeline_start_def NewBridge_def NewObserver_def)
next
  case (acted tr p a p')
  then show ?case
    using observed_pipeline_step frames_ok_step posts_ok_step stored_ok_step observed_ok by blast
qed

lemma bridge_run_of_pipeline: "pipeline_run u app tr p \<Longrightarrow> bridge_run (bridge_actions tr) (pl_bridge p)"
proof (induction rule: pipeline_run.induct)
  case started
  show ?case using bridge_run.start by (simp add: bridge_actions_def pipeline_start_def List.map_filter_simps)
next
  case (acted tr p a p')
  show ?case
  proof (cases a)
    case (Bridged x now)
    with acted.hyps(2) have "bridge_step (pl_bridge p) x = Some (pl_bridge p')" by (auto simp: Let_def)
    from bridge_run.step [OF acted.IH this] Bridged show ?thesis
      by (simp add: bridge_actions_def List.map_filter_def)
  qed (use acted in \<open>auto simp: bridge_actions_def List.map_filter_def Let_def handled_def
      split: option.splits nat.splits list.splits if_splits prod.splits\<close>)
qed

subsection \<open>Delivering what waits\<close>

text \<open>The actions by which the goroutine of the observer takes and posts envelopes, each with the time and the
  random digits of the hub; one that cannot be marshalled is given up without a request.\<close>

fun deliver :: "ingest_event \<Rightarrow> 64 word \<times> jsstring \<Rightarrow> pipeline_action" where
  "deliver env (now, hex) = (if json_marshals env then Posted now hex else Unmarshallable)"

fun posts :: "ingest_event list \<Rightarrow> (64 word \<times> jsstring) list \<Rightarrow> pipeline_action list" where
  "posts (env # envs) (x # xs) = Picked # deliver env x # posts envs xs"
| "posts envs xs = []"

definition drain :: "observer \<Rightarrow> (64 word \<times> jsstring) list \<Rightarrow> pipeline_action list" where
  "drain s xs = (if o_current s = None then posts (waiting s) xs else tl (posts (waiting s) xs))"

text \<open>The random digits give identifiers that are new.\<close>

definition fresh_ids :: "jsstring list \<Rightarrow> hub_app \<Rightarrow> bool" where
  "fresh_ids hs app \<longleftrightarrow> distinct hs
     \<and> (\<exists>db. ha_db app = Some db \<and> newID ''evt'' ` set hs \<inter> r_event_id ` set (db_events db) = {})"

lemma newID_inject [simp]: "newID k h = newID k h' \<longleftrightarrow> h = h'"
  by (simp add: newID_def)

lemma serve_fresh:
  assumes "json_marshals env" and "in_event_id env = []" and "fresh_ids (hex # hs) app"
  shows "case serve parse fmt app (IngestEvent env now hex) of (app', reply) \<Rightarrow> accepted reply \<and> fresh_ids hs app'"
proof -
  let ?r = "IngestEvent env now hex"
  let ?a = "touchMiddleware ?r app"
  have "rq_event ?r = Some env" using assms(1) by (simp add: IngestEvent_def json_marshals_def decode_envelope)
  moreover have "serve parse fmt app ?r = posted_event parse fmt ?r ?a" by (rule serve_posted)
  moreover have "rq_random ?r = hex" by (simp add: IngestEvent_def)
  ultimately show ?thesis using assms
    by (auto simp: posted_event_def fresh_ids_def ingest_def eventsHandler_def AppendEventReturningID_def Let_def
        ingest_record_def json_marshals_def derivePersistentRows_def)
qed

lemma fresh_ids_tl: "fresh_ids (h # hs) app \<Longrightarrow> fresh_ids hs app"
  by (auto simp: fresh_ids_def)

lemma post_waiting_step:
  assumes "o_current (pl_observer p) = Some env" and "in_event_id env = []"
    and "fresh_ids (hex # hs) (pl_app p)"
  obtains p' where "pipeline_step u p (deliver env (now, hex)) = Some p'" "pl_bridge p' = pl_bridge p"
    "o_current (pl_observer p') = None" "o_queue (pl_observer p') = o_queue (pl_observer p)"
    "pl_ingested p' = pl_ingested p @ filter json_marshals [env]" "fresh_ids hs (pl_app p')"
proof (cases "json_marshals env")
  case True
  obtain app' reply where sv: "serve (su_parse u) (su_fmt u) (pl_app p) (IngestEvent env now hex) = (app', reply)"
    by fastforce
  with serve_fresh [OF True assms(2,3), of "su_parse u" "su_fmt u" now] have "accepted reply" "fresh_ids hs app'" by auto
  with sv assms(1) True that show ?thesis
    by (auto simp: handled_def ship_result_def reportRecovered_def)
next
  case False
  with assms(1) fresh_ids_tl [OF assms(3)] that show ?thesis
    by (auto simp: ship_result_def reportDegraded_def)
qed

lemma posts_drain:
  assumes "o_current (pl_observer p) = None" and "\<forall>e\<in>set (o_queue (pl_observer p)). in_event_id e = []"
    and "length xs = length (o_queue (pl_observer p))" and "fresh_ids (map snd xs) (pl_app p)"
  shows "\<exists>p'. pipeline_exec u (posts (o_queue (pl_observer p)) xs) p = Some p' \<and> pl_bridge p' = pl_bridge p
    \<and> waiting (pl_observer p') = [] \<and> pl_ingested p' = pl_ingested p @ filter json_marshals (o_queue (pl_observer p))"
  using assms
proof (induction "o_queue (pl_observer p)" arbitrary: p xs)
  case Nil
  then show ?case by (simp add: waiting_def Nil.hyps [symmetric])
next
  case (Cons env envs)
  from Cons.prems(3) Cons.hyps(2) [symmetric] obtain now hex ys where xs: "xs = (now, hex) # ys"
    by (cases xs) auto
  define q where "q = p\<lparr>pl_observer := (pl_observer p)\<lparr>o_current := Some env, o_queue := envs\<rparr>\<rparr>"
  have pick: "pipeline_step u p Picked = Some q"
    using Cons.prems(1) Cons.hyps(2) [symmetric] by (simp add: q_def Let_def)
  have "o_current (pl_observer q) = Some env" "in_event_id env = []" "fresh_ids (hex # map snd ys) (pl_app q)"
    using Cons.prems(2,4) Cons.hyps(2) [symmetric] by (simp_all add: q_def xs)
  from post_waiting_step [OF this, of u now] obtain p1 where p1: "pipeline_step u q (deliver env (now, hex)) = Some p1"
      "pl_bridge p1 = pl_bridge q" "o_current (pl_observer p1) = None" "o_queue (pl_observer p1) = o_queue (pl_observer q)"
      "pl_ingested p1 = pl_ingested q @ filter json_marshals [env]" "fresh_ids (map snd ys) (pl_app p1)" .
  have q: "o_queue (pl_observer p1) = envs" using p1(4) by (simp add: q_def)
  from Cons.hyps(1) [of p1 ys] q p1(3,6) Cons.prems(2,3) Cons.hyps(2) [symmetric]
  obtain p' where "pipeline_exec u (posts envs ys) p1 = Some p'" "pl_bridge p' = pl_bridge p1"
      "waiting (pl_observer p') = []" "pl_ingested p' = pl_ingested p1 @ filter json_marshals envs"
    by (auto simp: xs)
  with pick p1 show ?case
    by (auto simp: Cons.hyps(2) [symmetric] xs q_def simp del: pipeline_step.simps)
qed

subsection \<open>A run\<close>

text \<open>One frame, of which the JSON value is given, goes from Codex to the client and to an empty hub.\<close>

definition sample_setup :: "js \<Rightarrow> proxy_setup" where
  "sample_setup v = \<lparr>su_raw = \<lambda>_. [], su_json = \<lambda>_. Some v, su_instance = jstr ''proxy-1'', su_key = jstr ''src'',
     su_parse = \<lambda>_. None, su_fmt = \<lambda>w. show_int (sint w)\<rparr>"

definition sample_app :: hub_app where
  "sample_app = \<lparr>ha_db = Some empty_db, ha_published = [], ha_stopped = False, ha_touched = False\<rparr>"

definition sample_line :: "flow \<times> octet list" where "sample_line = (FromCodex, [0x7B, 0x7D])"

definition sample_trace :: "pipeline_action list" where
  "sample_trace = [Bridged (Arrives FromCodex (Line (snd sample_line))) [], Bridged (Pump FromCodex None) [],
     Picked, Posted 7 (jstr ''0a'')]"

lemma sample_post:
  "v \<noteq> JUndef \<Longrightarrow> serve (\<lambda>_. None) (\<lambda>w. show_int (sint w)) sample_app (IngestEvent (envelope (sample_setup v) sample_line []) 7 (jstr ''0a''))
   = (fst (posted_event (\<lambda>_. None) (\<lambda>w. show_int (sint w))
        (IngestEvent (envelope (sample_setup v) sample_line []) 7 (jstr ''0a'')) (sample_app\<lparr>ha_touched := True\<rparr>)), Answered 200)"
proof -
  assume v: "v \<noteq> JUndef"
  let ?env = "envelope (sample_setup v) sample_line []"
  have pay: "in_payload ?env = v"
    by (simp add: envelope_def sample_line_def frame_json_def sample_setup_def)
  with v have dec: "decode_ingest (marshal_envelope ?env) = Some ?env" by (simp add: decode_envelope)
  have "take 8 (jstr ''/api/v1/ingest/events'') = jstr ''/api/v1/''" by (simp add: jstr_def unit_of_char_def)
  then show ?thesis
    by (simp add: serve_def IngestEvent_def Let_def events_route loopback_def touchMiddleware_def dec
        posted_event_def sample_app_def empty_db_def ingest_def eventsHandler_def AppendEventReturningID_def
        ingest_record_def pay v)
qed

lemma sample_pipeline:
  "v \<noteq> JUndef \<Longrightarrow> \<exists>p. pipeline_run (sample_setup v) sample_app sample_trace p \<and> pl_ingested p = [envelope (sample_setup v) sample_line []]"
proof -
  assume v: "v \<noteq> JUndef"
  then have m: "json_marshals (envelope (sample_setup v) (FromCodex, [0x7B, 0x7D]) [])"
    by (simp add: json_marshals_def envelope_def frame_json_def sample_setup_def)
  have "\<exists>p. pipeline_exec (sample_setup v) sample_trace (pipeline_start sample_app) = Some p
      \<and> pl_ingested p = [envelope (sample_setup v) sample_line []]"
    using sample_post [OF v] m
    by (simp add: sample_trace_def sample_line_def pipeline_start_def bridge_eval NewObserver_def new_frames_def offered_def
        shipQueueSize_def handled_def sample_setup_def)
  then show ?thesis using pipeline_exec_run [OF pipeline_run.started] by fastforce
qed

subsection \<open>Properties\<close>

text \<open>C23. The hub holds what the bridge forwarded: in every run of bridge, observer and hub, with requests of
  other clients, failed, late and refused posts and restarts of the hub in between, what was observed are
  the envelopes of the frames the bridge has seen, one each and in their order; the hub accepts each
  of them at most once, and exactly those that do not wait, in order, as long as nothing was logged or
  is about to be; and to the events it had before the hub only adds rows, among them, in the order of
  acceptance, one for every accepted envelope, with its source, thread, classification and payload.\<close>

theorem hub_stores_what_was_forwarded:
  assumes "pipeline_run u app tr p" and "ha_db app = Some db"
  shows "length (pl_times p) = length (br_seen (pl_bridge p))
    \<and> o_observed (pl_observer p) = map2 (envelope u) (br_seen (pl_bridge p)) (pl_times p)
    \<and> mset (pl_ingested p) \<subseteq># mset (o_observed (pl_observer p))
    \<and> (o_log (pl_observer p) = [] \<and> o_reports (pl_observer p) = 0 \<longrightarrow>
         o_observed (pl_observer p) = pl_ingested p @ waiting (pl_observer p))
    \<and> (\<exists>db' new rs. ha_db (pl_app p) = Some db' \<and> db_events db' = db_events db @ new
         \<and> subseq rs new \<and> list_all2 stored_as (pl_ingested p) rs)"
proof (intro conjI impI)
  have inv: "observer_ok (pl_observer p)" "frames_ok u p" "posts_ok p" "stored_ok app p"
    using pipeline_invariant [OF assms(1)] observed_ok by auto
  from inv(2) show "length (pl_times p) = length (br_seen (pl_bridge p))"
      "o_observed (pl_observer p) = map2 (envelope u) (br_seen (pl_bridge p)) (pl_times p)"
    by (simp_all add: frames_ok_def)
  have "mset (pl_ingested p) \<subseteq># mset (pl_ingested p) + mset (pl_flight p) + mset (waiting (pl_observer p))" by simp
  with inv(3) show "mset (pl_ingested p) \<subseteq># mset (o_observed (pl_observer p))"
    unfolding posts_ok_def by (blast intro: subset_mset.order_trans)
  show "o_observed (pl_observer p) = pl_ingested p @ waiting (pl_observer p)"
    if "o_log (pl_observer p) = [] \<and> o_reports (pl_observer p) = 0"
    using that inv(1,3) by (simp add: observer_ok_def posts_ok_def kept_waiting)
  show "\<exists>db' new rs. ha_db (pl_app p) = Some db' \<and> db_events db' = db_events db @ new
      \<and> subseq rs new \<and> list_all2 stored_as (pl_ingested p) rs"
    using inv(4) assms(2) by (fastforce simp: stored_ok_def rows_added_def)
qed

lemma hub_stores_what_was_forwarded_witness:
  "\<exists>p db' r. pipeline_run (sample_setup (JObj [])) sample_app sample_trace p \<and> ha_db (pl_app p) = Some db'
     \<and> r \<in> set (db_events db') \<and> stored_as (envelope (sample_setup (JObj [])) sample_line []) r"
proof -
  obtain p where p: "pipeline_run (sample_setup (JObj [])) sample_app sample_trace p"
      "pl_ingested p = [envelope (sample_setup (JObj [])) sample_line []]" using sample_pipeline [of "JObj []"] by blast
  with hub_stores_what_was_forwarded [OF p(1), of empty_db] obtain db' new rs where
      "ha_db (pl_app p) = Some db'" "db_events db' = db_events empty_db @ new" "subseq rs new"
      "list_all2 stored_as [envelope (sample_setup (JObj [])) sample_line []] rs"
    by (auto simp: sample_app_def)
  moreover from this(4) obtain r where "rs = [r]" "stored_as (envelope (sample_setup (JObj [])) sample_line []) r"
    by (auto simp: list_all2_Cons1)
  ultimately show ?thesis using p(1) by (intro exI [of _ p] exI [of _ db'] exI [of _ r]) (simp add: subseq_singleton_left)
qed

text \<open>What the bridge leaves in the channel when nobody reads from it.\<close>

lemma offered_fold:
  "length (o_queue s) \<le> shipQueueSize \<Longrightarrow>
   o_queue (fold (\<lambda>x. offered (f x)) xs s) = take shipQueueSize (o_queue s @ map f xs)
   \<and> o_reports (fold (\<lambda>x. offered (f x)) xs s) = o_reports s + (length (o_queue s) + length xs - shipQueueSize)"
proof (induction xs arbitrary: s)
  case (Cons x xs)
  from Cons.prems have "length (o_queue (offered (f x) s)) \<le> shipQueueSize" by (simp add: offered_def)
  note ih = Cons.IH [OF this]
  show ?case
  proof (cases "length (o_queue s) < shipQueueSize")
    case True
    then have o: "o_queue (offered (f x) s) = o_queue s @ [f x]" "o_reports (offered (f x) s) = o_reports s"
      by (simp_all add: offered_def)
    from ih show ?thesis by (simp add: o)
  next
    case False
    with Cons.prems have o: "o_queue (offered (f x) s) = o_queue s" "o_reports (offered (f x) s) = Suc (o_reports s)"
        "length (o_queue s) = shipQueueSize"
      by (simp_all add: offered_def)
    from ih show ?thesis by (simp add: o)
  qed
qed simp

lemma take_twice: "take n (take n xs @ ys) = take n (xs @ ys)"
  by (cases "length xs \<le> n") simp_all

lemma bridge_goes_on:
  "bridge_exec (map fst xs) (pl_bridge p) = Some b' \<Longrightarrow> length (o_queue (pl_observer p)) \<le> shipQueueSize \<Longrightarrow>
   \<exists>p' envs. pipeline_exec u (map (\<lambda>(a, now). Bridged a now) xs) p = Some p' \<and> pl_bridge p' = b' \<and> pl_app p' = pl_app p
     \<and> length (br_seen b') = length (br_seen (pl_bridge p)) + length envs
     \<and> o_observed (pl_observer p') = o_observed (pl_observer p) @ envs
     \<and> o_queue (pl_observer p') = take shipQueueSize (o_queue (pl_observer p) @ envs)
     \<and> o_reports (pl_observer p') = o_reports (pl_observer p) + (length (o_queue (pl_observer p)) + length envs - shipQueueSize)"
proof (induction xs arbitrary: p)
  case Nil
  then show ?case by (intro exI [of _ p] exI [of _ "[]"]) simp
next
  case (Cons x xs)
  obtain a now where x: "x = (a, now)" by fastforce
  with Cons.prems(1) obtain b1 where b1: "bridge_step (pl_bridge p) a = Some b1" "bridge_exec (map fst xs) b1 = Some b'"
    by (auto split: option.splits)
  let ?new = "new_frames (pl_bridge p) b1" and ?f = "\<lambda>x. envelope u x now"
  define q where "q = p\<lparr>pl_bridge := b1, pl_observer := fold (\<lambda>x. offered (?f x)) ?new (pl_observer p),
    pl_times := pl_times p @ map (\<lambda>_. now) ?new\<rparr>"
  have step: "pipeline_step u p (Bridged a now) = Some q" by (simp add: b1(1) q_def Let_def)
  note q = offered_fold [OF Cons.prems(2), of ?f ?new]
  have q_queue: "o_queue (pl_observer q) = take shipQueueSize (o_queue (pl_observer p) @ map ?f ?new)"
    by (simp add: q_def q)
  then have "length (o_queue (pl_observer q)) \<le> shipQueueSize" by simp
  with Cons.IH [of q] b1(2) obtain p' envs where p': "pipeline_exec u (map (\<lambda>(a, now). Bridged a now) xs) q = Some p'"
      "pl_bridge p' = b'" "pl_app p' = pl_app q" "length (br_seen b') = length (br_seen b1) + length envs"
      "o_observed (pl_observer p') = o_observed (pl_observer q) @ envs"
      "o_queue (pl_observer p') = take shipQueueSize (o_queue (pl_observer q) @ envs)"
      "o_reports (pl_observer p') = o_reports (pl_observer q) + (length (o_queue (pl_observer q)) + length envs - shipQueueSize)"
    by (auto simp: q_def)
  show ?case
  proof (intro exI [of _ p'] exI [of _ "map ?f ?new @ envs"] conjI)
    show "length (br_seen b') = length (br_seen (pl_bridge p)) + length (map ?f ?new @ envs)"
      by (simp add: p'(4) bridge_sees_more [OF b1(1)])
    show "o_queue (pl_observer p') = take shipQueueSize (o_queue (pl_observer p) @ map ?f ?new @ envs)"
      using take_twice [of shipQueueSize "o_queue (pl_observer p) @ map ?f ?new" envs]
      by (simp only: p'(6) q_queue append_assoc)
    show "o_reports (pl_observer p') = o_reports (pl_observer p)
        + (length (o_queue (pl_observer p)) + length (map ?f ?new @ envs) - shipQueueSize)"
      using Cons.prems(2) by (simp add: p'(7) q_def q)
    show "pipeline_exec u (map (\<lambda>(a, now). Bridged a now) (x # xs)) p = Some p'"
      by (simp add: x step p'(1) del: pipeline_step.simps pipeline_step_bridged)
    show "o_observed (pl_observer p') = o_observed (pl_observer p) @ map ?f ?new @ envs"
      by (simp add: p'(5) q_def)
  qed (simp_all add: p'(2,3) q_def)
qed

text \<open>C25. Observation never blocks the traffic. The pumps of the bridge call \<open>OnFrame\<close>, and a send on a full
  channel waits; yet, from every state of a run, whatever the bridge could do alone, for any number of
  actions, it can do with the observer attached, and with the same result, even if from then on neither
  the observer's goroutine nor the hub takes a step. The queue then holds the first 1024 of the envelopes
  that waited and came, and there is one report to be made for every envelope beyond. Conversely the
  bridge's part of every run is a run of the bridge alone.\<close>

theorem observation_never_blocks:
  assumes "pipeline_run u app tr p" and "bridge_exec (map fst xs) (pl_bridge p) = Some b'"
  shows "bridge_run (bridge_actions tr) (pl_bridge p)
    \<and> (\<exists>p' envs. pipeline_exec u (map (\<lambda>(a, now). Bridged a now) xs) p = Some p'
         \<and> pl_bridge p' = b' \<and> pl_app p' = pl_app p
         \<and> length (br_seen b') = length (br_seen (pl_bridge p)) + length envs
         \<and> o_observed (pl_observer p') = o_observed (pl_observer p) @ envs
         \<and> o_queue (pl_observer p') = take 1024 (o_queue (pl_observer p) @ envs)
         \<and> o_reports (pl_observer p')
             = o_reports (pl_observer p) + (length (o_queue (pl_observer p)) + length envs - 1024))"
proof -
  have "length (o_queue (pl_observer p)) \<le> shipQueueSize"
    using pipeline_invariant [OF assms(1)] observed_ok by (auto simp: observer_ok_def)
  from bridge_goes_on [OF assms(2) this, of u] bridge_run_of_pipeline [OF assms(1)] show ?thesis
    by (simp add: shipQueueSize_def)
qed

text \<open>1025 lines while nobody reads from the channel: all are forwarded, and one is dropped with a report.\<close>

definition many_lines :: "nat \<Rightarrow> bridge_action list" where
  "many_lines n = concat (replicate n [Arrives FromClient (Line [0x7B, 0x7D]), Pump FromClient None])"

lemma many_lines_pass:
  assumes "br_codex b" and "\<not> br_cancelled b" and "br_pumps b FromClient
     = \<lparr>pm_input = [], pm_closed = False, pm_written = w, pm_end = None\<rparr>"
  shows "\<exists>b'. bridge_exec (many_lines n) b = Some b'
    \<and> pm_written (br_pumps b' FromClient) = w @ unlines (replicate n [0x7B, 0x7D])
    \<and> length (br_seen b') = length (br_seen b) + n"
  using assms
proof (induction n arbitrary: b w)
  case 0
  then show ?case by (simp add: many_lines_def)
next
  case (Suc n)
  let ?p = "\<lparr>pm_input = [], pm_closed = False, pm_written = w @ [0x7B, 0x7D, LF], pm_end = None\<rparr>"
  let ?b = "set_pump FromClient ?p (b\<lparr>br_seen := br_seen b @ [(FromClient, [0x7B, 0x7D])]\<rparr>)"
  have "bridge_exec (many_lines (Suc n)) b = bridge_exec (many_lines n) ?b"
    using Suc.prems by (simp add: many_lines_def pump_iteration_def Let_def)
  with Suc.IH [of ?b "w @ [0x7B, 0x7D, LF]"] Suc.prems show ?case by simp
qed

lemma observation_never_blocks_witness:
  "\<exists>p. pipeline_exec (sample_setup (JObj [])) (map (\<lambda>a. Bridged a []) (many_lines 1025)) (pipeline_start sample_app) = Some p
     \<and> pm_written (br_pumps (pl_bridge p) FromClient) = unlines (replicate 1025 [0x7B, 0x7D])
     \<and> length (o_queue (pl_observer p)) = 1024 \<and> o_reports (pl_observer p) = 1"
proof -
  obtain b where b: "bridge_exec (many_lines 1025) NewBridge = Some b"
      "pm_written (br_pumps b FromClient) = unlines (replicate 1025 [0x7B, 0x7D])" "length (br_seen b) = 1025"
    using many_lines_pass [of NewBridge "[]" 1025] by (auto simp: NewBridge_def)
  then have "bridge_exec (map fst (map (\<lambda>a. (a, [])) (many_lines 1025))) (pl_bridge (pipeline_start sample_app)) = Some b"
    by (simp add: comp_def pipeline_start_def)
  from observation_never_blocks [OF pipeline_run.started [of "sample_setup (JObj [])" sample_app] this] obtain p envs where
    "pipeline_exec (sample_setup (JObj [])) (map (\<lambda>(a, now). Bridged a now) (map (\<lambda>a. (a, [])) (many_lines 1025)))
       (pipeline_start sample_app) = Some p" "pl_bridge p = b" "length (br_seen b) = length envs"
    "o_queue (pl_observer p) = take 1024 envs" "o_reports (pl_observer p) = length envs - 1024"
    by (auto simp: pipeline_start_def NewBridge_def NewObserver_def)
  with b(2,3) show ?thesis by (intro exI [of _ p]) (simp add: comp_def)
qed

lemma envelope_has_no_id: "in_event_id (OnFrame raw_text now inst key dir frame) = []"
  by (simp add: OnFrame_def Normalize_def classifyCodexEvent_def Let_def split: option.split)

lemma waiting_has_no_id:
  assumes "pipeline_run u app tr p" and "e \<in> set (waiting (pl_observer p))"
  shows "in_event_id e = []"
proof -
  have inv: "frames_ok u p" "posts_ok p" using pipeline_invariant [OF assms(1)] by auto
  have "mset (waiting (pl_observer p)) \<subseteq># mset (pl_ingested p) + mset (pl_flight p) + mset (waiting (pl_observer p))" by simp
  with inv(2) have "mset (waiting (pl_observer p)) \<subseteq># mset (o_observed (pl_observer p))"
    unfolding posts_ok_def by (blast intro: subset_mset.order_trans)
  with assms(2) have "e \<in> set (o_observed (pl_observer p))" by (metis set_mset_mono set_mset_mset subsetD)
  then obtain x now where "e = envelope u x now" using inv(1) by (auto simp: frames_ok_def)
  then show ?thesis by (simp add: envelope_def envelope_has_no_id split: prod.split)
qed

text \<open>C24. What waits reaches a hub that answers: from every state of every run, when the hub has a database and
  its random identifiers are new, the goroutine of the observer can go on without the bridge until
  nothing waits, and then the hub has accepted, besides what it had accepted before, every frame that
  was waiting and is JSON, in order; so no sequence of failures, late posts and notices leaves it stuck.\<close>

theorem waiting_frames_get_stored:
  assumes "pipeline_run u app tr p" and "length xs = length (waiting (pl_observer p))"
    and "fresh_ids (map snd xs) (pl_app p)"
  shows "\<exists>p'. pipeline_run u app (tr @ drain (pl_observer p) xs) p' \<and> pl_bridge p' = pl_bridge p
    \<and> waiting (pl_observer p') = []
    \<and> pl_ingested p' = pl_ingested p @ filter json_marshals (waiting (pl_observer p))"
proof -
  have "\<exists>p'. pipeline_exec u (drain (pl_observer p) xs) p = Some p' \<and> pl_bridge p' = pl_bridge p
    \<and> waiting (pl_observer p') = []
    \<and> pl_ingested p' = pl_ingested p @ filter json_marshals (waiting (pl_observer p))"
  proof (cases "o_current (pl_observer p)")
    case None
    then have w: "waiting (pl_observer p) = o_queue (pl_observer p)" by (simp add: waiting_def)
    with posts_drain [OF None, of xs] assms waiting_has_no_id [OF assms(1)] None show ?thesis
      by (auto simp: drain_def)
  next
    case (Some env)
    then have w: "waiting (pl_observer p) = env # o_queue (pl_observer p)" by (simp add: waiting_def)
    with assms(2) obtain now hex ys where xs: "xs = (now, hex) # ys" by (cases xs) auto
    with assms(3) waiting_has_no_id [OF assms(1)] w have "in_event_id env = []" "fresh_ids (hex # map snd ys) (pl_app p)"
      by auto
    from post_waiting_step [OF Some this, of u now] obtain p1 where p1: "pipeline_step u p (deliver env (now, hex)) = Some p1"
        "pl_bridge p1 = pl_bridge p" "o_current (pl_observer p1) = None" "o_queue (pl_observer p1) = o_queue (pl_observer p)"
        "pl_ingested p1 = pl_ingested p @ filter json_marshals [env]" "fresh_ids (map snd ys) (pl_app p1)" .
    with posts_drain [OF p1(3), of ys u] assms(2) waiting_has_no_id [OF assms(1)] w xs show ?thesis
      by (auto simp: drain_def Some simp del: deliver.simps pipeline_step.simps)
  qed
  with pipeline_exec_run [OF assms(1)] show ?thesis by blast
qed

lemma waiting_frames_get_stored_witness:
  "\<exists>p. pipeline_run (sample_setup (JObj [])) sample_app (butlast (butlast sample_trace) @ [Picked, Posted 7 (jstr ''0a'')]) p
     \<and> pl_ingested p = [envelope (sample_setup (JObj [])) sample_line []]"
proof -
  have m: "json_marshals (envelope (sample_setup (JObj [])) sample_line [])"
    by (simp add: json_marshals_def envelope_def sample_line_def frame_json_def sample_setup_def)
  have "\<exists>p. pipeline_exec (sample_setup (JObj [])) (butlast (butlast sample_trace)) (pipeline_start sample_app) = Some p
      \<and> pl_ingested p = [] \<and> pl_app p = sample_app \<and> o_current (pl_observer p) = None
      \<and> o_queue (pl_observer p) = [envelope (sample_setup (JObj [])) sample_line []]"
    by (simp add: sample_trace_def sample_line_def pipeline_start_def bridge_eval NewObserver_def new_frames_def
        offered_def shipQueueSize_def)
  then obtain p where p: "pipeline_run (sample_setup (JObj [])) sample_app (butlast (butlast sample_trace)) p" "pl_ingested p = []"
      "pl_app p = sample_app" "o_current (pl_observer p) = None"
      "o_queue (pl_observer p) = [envelope (sample_setup (JObj [])) sample_line []]"
    using pipeline_exec_run [OF pipeline_run.started] by fastforce
  then have w: "waiting (pl_observer p) = [envelope (sample_setup (JObj [])) sample_line []]" by (simp add: waiting_def)
  have "drain (pl_observer p) [(7, jstr ''0a'')] = [Picked, Posted 7 (jstr ''0a'')]"
    using m by (simp add: drain_def w p(4))
  moreover have "fresh_ids (map snd [(7 :: 64 word, jstr ''0a'')]) (pl_app p)"
    by (simp add: fresh_ids_def p(3) sample_app_def empty_db_def)
  ultimately show ?thesis
    using waiting_frames_get_stored [OF p(1), of "[(7, jstr ''0a'')]"] m by (auto simp: w p(2))
qed

end
