(* ===== verification/Proxy_Start.thy ===== *)
theory Proxy_Start
  imports Hub_Admin Proxy_Envelope
begin

section \<open>How a proxy introduces itself\<close>

text \<open>
  \<open>LookupParent\<close> of \<^verbatim>\<open>internal/process/metadata.go\<close> and the part of \<open>runProxyCmd\<close> of
  \<^verbatim>\<open>internal/cli/proxy_cmd.go\<close> between the handshake and the bridge: the key of the source, the
  registration, and \<open>heartbeatLoop\<close>. What the operating system says of the parent process is given, each
  answer \<open>None\<close> when the call fails; so are the random digits of the proxy and the digest. Errors of
  these requests are ignored by the code. The hub decodes a registration to what was sent, since both
  sides declare the same struct.
\<close>

record parent_info =
  pi_self :: bool
  pi_ppid :: "int option"
  pi_parent :: bool
  pi_exe :: "jsstring option"
  pi_cmdline :: "jsstring list option"
  pi_cwd :: "jsstring option"

record upstream_meta =
  um_pid :: int
  um_executable :: jsstring
  um_command :: jsstring
  um_cwd :: jsstring

definition no_meta :: upstream_meta where
  "no_meta = \<lparr>um_pid = 0, um_executable = [], um_command = [], um_cwd = []\<rparr>"

definition LookupParent :: "parent_info \<Rightarrow> upstream_meta" where
  "LookupParent os =
     (if \<not> pi_self os then no_meta
      else (case pi_ppid os of
         None \<Rightarrow> no_meta
       | Some ppid \<Rightarrow>
           if ppid = 0 then no_meta
           else let meta = no_meta\<lparr>um_pid := ppid\<rparr> in
             if \<not> pi_parent os then meta
             else meta\<lparr>um_executable := opt_default (pi_exe os) [],
               um_command := (case pi_cmdline os of None \<Rightarrow> [] | Some words \<Rightarrow> join [0x20] words),
               um_cwd := opt_default (pi_cwd os) []\<rparr>))"

text \<open>\<open>filepath.Base\<close> with \<open>/\<close> as the separator.\<close>

definition Base :: "jsstring \<Rightarrow> jsstring" where
  "Base path =
     (if path = [] then jstr ''.''
      else let p = rev (dropWhile (\<lambda>c. c = 0x2F) (rev path)); s = rev (takeWhile (\<lambda>c. c \<noteq> 0x2F) (rev p)) in
        if s = [] then jstr ''/'' else s)"

definition displayClientName :: "jsstring \<Rightarrow> jsstring" where
  "displayClientName execPath = (if execPath = [] then jstr ''unknown-client'' else Base execPath)"

definition no_fingerprint :: fingerprint where
  "no_fingerprint = \<lparr>fp_ProtocolVersion = [], fp_ClientName = [], fp_ClientVersion = [], fp_CapabilitiesJSON = []\<rparr>"

definition proxy_source_key :: "(jsstring \<Rightarrow> 8 word list) \<Rightarrow> upstream_meta \<Rightarrow> jsstring" where
  "proxy_source_key sha256 meta = DeriveClientSourceKey sha256 (um_pid meta) no_fingerprint"

definition proxy_id :: "jsstring \<Rightarrow> jsstring" where
  "proxy_id hex = jstr ''proxy-'' @ hex"

definition proxy_registration :: "(jsstring \<Rightarrow> 8 word list) \<Rightarrow> upstream_meta \<Rightarrow> registration" where
  "proxy_registration sha256 meta =
     \<lparr>rg_key = proxy_source_key sha256 meta, rg_pid = um_pid meta, rg_protocol = [],
      rg_name = displayClientName (um_executable meta), rg_version = [], rg_capabilities = [],
      rg_executable = um_executable meta, rg_command = um_command meta, rg_cwd = um_cwd meta\<rparr>"

text \<open>The requests of \<open>Register\<close> and \<open>Heartbeat\<close> as the hub sees them.\<close>

definition proxy_request_to :: "string \<Rightarrow> 64 word \<Rightarrow> hub_request" where
  "proxy_request_to path now =
     \<lparr>rq_method = ''POST'', rq_path = jstr path, rq_remote = Some (IP4 127 0 0 1), rq_register = None,
      rq_heartbeat = None, rq_event = None, rq_now = now, rq_random = []\<rparr>"

definition Register_request :: "(jsstring \<Rightarrow> 8 word list) \<Rightarrow> upstream_meta \<Rightarrow> jsstring \<Rightarrow> int \<Rightarrow> 64 word \<Rightarrow> hub_request" where
  "Register_request sha256 meta inst self_pid now = (proxy_request_to ''/api/v1/ingest/register'' now)
     \<lparr>rq_register := Some (inst, proxy_source_key sha256 meta, self_pid, proxy_registration sha256 meta)\<rparr>"

definition Heartbeat_request :: "jsstring \<Rightarrow> 64 word \<Rightarrow> hub_request" where
  "Heartbeat_request inst now = (proxy_request_to ''/api/v1/ingest/heartbeat'' now)\<lparr>rq_heartbeat := Some inst\<rparr>"

text \<open>The loop gets a tick, with the hub's time of the request it makes, or the end of the context (\<open>None\<close>).\<close>

fun heartbeatLoop :: "jsstring \<Rightarrow> 64 word option list \<Rightarrow> hub_request list" where
  "heartbeatLoop inst [] = []"
| "heartbeatLoop inst (None # ticks) = []"
| "heartbeatLoop inst (Some now # ticks) = Heartbeat_request inst now # heartbeatLoop inst ticks"

definition introductions :: "(jsstring \<Rightarrow> 8 word list) \<Rightarrow> upstream_meta \<Rightarrow> jsstring \<Rightarrow> int \<Rightarrow> 64 word
    \<Rightarrow> 64 word option list \<Rightarrow> hub_request list" where
  "introductions sha256 meta hex self_pid now ticks =
     Register_request sha256 meta (proxy_id hex) self_pid now # heartbeatLoop (proxy_id hex) ticks"

subsection \<open>What the hub knows then\<close>

lemma proxy_id_not_Nil [simp]: "proxy_id hex \<noteq> []"
  by (simp add: proxy_id_def jstr_def)

lemma proxy_source_key_eq:
  "proxy_source_key sha256 meta = jstr ''unknown-client|pid-'' @ show_int (um_pid meta)
     @ jstr ''|'' @ take 8 (hex_encode (sha256 (jstr ''|||'')))"
  by (simp add: proxy_source_key_def DeriveClientSourceKey_def no_fingerprint_def Let_def jstr_def unit_of_char_def
      trim_def)

text \<open>The key of a source is that of the parent process and nothing else: clients that are given the same
  process identifier, one after the other or because the parent is not known, are one source.\<close>

lemma source_is_parent_pid:
  assumes "um_pid meta \<in> {- (2 ^ 63) ..< 2 ^ 63}" and "um_pid meta' \<in> {- (2 ^ 63) ..< 2 ^ 63}"
  shows "proxy_source_key sha256 meta = proxy_source_key sha256 meta' \<longleftrightarrow> um_pid meta = um_pid meta'"
proof
  assume "proxy_source_key sha256 meta = proxy_source_key sha256 meta'"
  then have "show_int (um_pid meta) = show_int (um_pid meta')" by (simp add: proxy_source_key_eq)
  then have "ParseInt (show_int (um_pid meta)) = ParseInt (show_int (um_pid meta'))" by simp
  with assms show "um_pid meta = um_pid meta'" by (simp add: ParseInt_show_int)
qed (simp add: proxy_source_key_def)

lemma introduction_routes:
  "clean_path (jstr ''/api/v1/ingest/register'')" "clean_path (jstr ''/api/v1/ingest/heartbeat'')"
  "find_route ''POST'' (jstr ''/api/v1/ingest/register'') = Some RtRegister"
  "find_route ''POST'' (jstr ''/api/v1/ingest/heartbeat'') = Some RtHeartbeat"
  by code_simp+

lemma answered_Register:
  assumes "ha_db app = Some db"
  shows "ha_db (answered parse fmt app (Register_request sha256 meta (proxy_id hex) self_pid now)) =
    Some (db\<lparr>db_sources := UpsertClientSource now (proxy_registration sha256 meta) (db_sources db),
      db_proxies := RegisterProxy now (proxy_id hex) (proxy_source_key sha256 meta) self_pid (db_proxies db)\<rparr>)"
proof -
  have "proxy_source_key sha256 meta \<noteq> []" by (simp add: proxy_source_key_eq jstr_def)
  with assms show ?thesis
    by (simp add: answered_def serve_def Register_request_def proxy_request_to_def Let_def introduction_routes
        loopback_def posted_register_def registerHandler_def touchMiddleware_def)
qed

lemma answered_Heartbeat:
  assumes "ha_db app = Some db" and "inst \<noteq> []"
  shows "ha_db (answered parse fmt app (Heartbeat_request inst now)) =
    Some (db\<lparr>db_proxies := HeartbeatProxy now inst (db_proxies db)\<rparr>)"
  using assms
  by (simp add: answered_def serve_def Heartbeat_request_def proxy_request_to_def Let_def introduction_routes
      loopback_def posted_heartbeat_def heartbeatHandler_def touchMiddleware_def)

text \<open>The time of the last heartbeat before the context ended.\<close>

fun last_tick :: "64 word \<Rightarrow> 64 word option list \<Rightarrow> 64 word" where
  "last_tick now [] = now"
| "last_tick now (None # ticks) = now"
| "last_tick now (Some t # ticks) = last_tick t ticks"

lemma heartbeats:
  assumes "ha_db app = Some db" and "inst \<noteq> []" and "map_get (db_proxies db) inst = Some r"
  shows "\<exists>m. ha_db (foldl (answered parse fmt) app (heartbeatLoop inst ticks)) = Some (db\<lparr>db_proxies := m\<rparr>)
    \<and> map_get m inst = Some (r\<lparr>pr_heartbeat := last_tick (pr_heartbeat r) ticks\<rparr>)"
  using assms
proof (induction inst ticks arbitrary: app db r rule: heartbeatLoop.induct)
  case (3 inst now ticks)
  let ?app = "answered parse fmt app (Heartbeat_request inst now)"
  let ?db = "db\<lparr>db_proxies := HeartbeatProxy now inst (db_proxies db)\<rparr>"
  from 3(1) [of ?app ?db "r\<lparr>pr_heartbeat := now\<rparr>"] answered_Heartbeat [OF 3(2,3)] 3(3,4) show ?case
    by (simp add: HeartbeatProxy_def)
qed (auto intro!: exI [of _ "db_proxies _"])

text \<open>After its registration and any number of heartbeats the hub lists the source with what is known of the
  client's process, and the proxy as active, with its process, its source and its last heartbeat; the
  events are as they were.\<close>

theorem introduced_proxy_is_known:
  assumes "ha_db app = Some db"
  shows "\<exists>db' src r. ha_db (foldl (answered parse fmt) app (introductions sha256 meta hex self_pid now ticks)) = Some db'
    \<and> db_events db' = db_events db
    \<and> map_get (db_sources db') (proxy_source_key sha256 meta) = Some src \<and> so_reg src = proxy_registration sha256 meta
    \<and> map_get (db_proxies db') (proxy_id hex) = Some r \<and> pr_pid r = self_pid \<and> pr_exited r = None
    \<and> pr_source r = Some (proxy_source_key sha256 meta) \<and> pr_heartbeat r = last_tick now ticks"
proof -
  let ?m = "RegisterProxy now (proxy_id hex) (proxy_source_key sha256 meta) self_pid (db_proxies db)"
  let ?src = "the (map_get (UpsertClientSource now (proxy_registration sha256 meta) (db_sources db))
    (proxy_source_key sha256 meta))"
  have "proxy_source_key sha256 meta \<noteq> []" by (simp add: proxy_source_key_eq jstr_def)
  then obtain r where r: "map_get ?m (proxy_id hex) = Some r" "pr_pid r = self_pid" "pr_exited r = None"
      "pr_source r = Some (proxy_source_key sha256 meta)" "pr_heartbeat r = now"
    by (auto simp: RegisterProxy_def nullString_def split: option.splits)
  have src: "map_get (UpsertClientSource now (proxy_registration sha256 meta) (db_sources db))
      (proxy_source_key sha256 meta) = Some ?src" "so_reg ?src = proxy_registration sha256 meta"
    by (auto simp: UpsertClientSource_def proxy_registration_def split: option.split)
  from heartbeats [OF answered_Register [OF assms, of parse fmt sha256 meta hex self_pid now] proxy_id_not_Nil, of hex r parse fmt ticks] r src show ?thesis
    by (fastforce simp: introductions_def)
qed

end
