(* ===== verification/Projection_Reference.thy ===== *)
theory Projection_Reference
  imports Bucket_Spec
begin

section \<open>A reference definition of the projection\<close>

text \<open>
  \<open>projectReadonlyAssistantThread\<close> reads the events once and changes five local stores. The
  reference below has no state: each bucket and each stream is read off the event list, in the
  order of the first event of its key. \<open>all_items_reference\<close> shows that both give the same
  items, so the content of a thread follows from the events alone: what the part of a message, a
  command and a stream of deltas says.
\<close>

subsection \<open>Keys in the order of their first occurrence\<close>

lemma map_by_keys: "distinct (map_keys m) \<Longrightarrow> map (\<lambda>k. (k, the (map_get m k))) (map_keys m) = m"
  by (auto simp: map_keys_def map_get_def comp_def intro!: map_idI)

lemma bucket_items_keys:
  assumes "distinct (map_keys m)"
  shows "bucket_items f m = List.map_filter (\<lambda>k. Option.bind (map_get m k) (f k)) (map_keys m)"
proof -
  have "map_get m k = Some (the (map_get m k))" if "k \<in> set (map_keys m)" for k
    using that by (simp add: jm.keys_iff)
  then have "List.map_filter (\<lambda>k. Option.bind (map_get m k) (f k)) ks =
      bucket_items f (map (\<lambda>k. (k, the (map_get m k))) ks)" if "set ks \<subseteq> set (map_keys m)" for ks
    using that
  proof (induction ks)
    case (Cons k ks)
    then have "map_get m k = Some (the (map_get m k))" by simp
    then have "Option.bind (map_get m k) (f k) = f k (the (map_get m k))"
      by (metis bind.bind_lunit)
    moreover have "List.map_filter (\<lambda>k. Option.bind (map_get m k) (f k)) ks =
        bucket_items f (map (\<lambda>k. (k, the (map_get m k))) ks)"
      using Cons.IH Cons.prems by (meson set_subset_Cons subset_trans)
    ultimately show ?case
      by (simp add: map_filter_Cons) (simp add: bucket_items_def map_filter_Cons split: option.split)
  qed (simp add: bucket_items_def)
  from this [of "map_keys m"] show ?thesis by (simp add: map_by_keys [OF assms])
qed

subsection \<open>The keys of the buckets\<close>

fun is_exec_case :: "switch_case \<Rightarrow> bool" where
  "is_exec_case CExecBegin = True"
| "is_exec_case CExecOutput = True"
| "is_exec_case CExecInteraction = True"
| "is_exec_case CExecEnd = True"
| "is_exec_case _ = False"

definition is_pair_case :: "pair_store \<Rightarrow> switch_case \<Rightarrow> bool" where
  "is_pair_case s c \<longleftrightarrow> c = CPairBegin s \<or> c = CPairEnd s"

definition in_case :: "(switch_case \<Rightarrow> bool) \<Rightarrow> event_record \<Rightarrow> bool" where
  "in_case P e = (case case_of e of None \<Rightarrow> False | Some c \<Rightarrow> P c)"

definition bucket_keys :: "(switch_case \<Rightarrow> bool) \<Rightarrow> event_record list \<Rightarrow> jsstring list" where
  "bucket_keys P es = firsts (map bucketId (filter (in_case P) es))"

lemma bucket_keys_snoc:
  "bucket_keys P (es @ [e]) =
     (if in_case P e \<and> bucketId e \<notin> set (bucket_keys P es) then bucket_keys P es @ [bucketId e]
      else bucket_keys P es)"
  by (auto simp: bucket_keys_def)

lemma map_keys_mutate:
  "map_keys (mutateBucket m k create f) =
     (if k \<in> set (map_keys m) then map_keys m else map_keys m @ [k])"
  by (simp add: mutateBucket_def jm.keys_put jm.keys_iff)

lemma exec_keys_step:
  "map_keys (execBuckets (project_event st (n, e))) =
     (if in_case is_exec_case e \<and> bucketId e \<notin> set (map_keys (execBuckets st))
      then map_keys (execBuckets st) @ [bucketId e] else map_keys (execBuckets st))"
proof (cases "case_of e")
  case None
  then show ?thesis by (simp add: project_event_case in_case_def push_def split: option.split)
next
  case (Some c)
  then show ?thesis
    by (cases c) (simp_all add: project_event_case in_case_def onExec_def onPair_def push_def
        map_keys_mutate)
qed

lemma pair_keys_step:
  "map_keys (pairBuckets (project_event st (n, e)) s) =
     (if in_case (is_pair_case s) e \<and> bucketId e \<notin> set (map_keys (pairBuckets st s))
      then map_keys (pairBuckets st s) @ [bucketId e] else map_keys (pairBuckets st s))"
proof (cases "case_of e")
  case None
  then show ?thesis by (simp add: project_event_case in_case_def push_def split: option.split)
next
  case (Some c)
  then show ?thesis
    by (cases c) (auto simp: project_event_case in_case_def is_pair_case_def onExec_def onPair_def
        push_def map_keys_mutate)
qed

lemma exec_keys: "map_keys (execBuckets (run_events es)) = bucket_keys is_exec_case es"
  by (induction es rule: rev_induct)
    (simp_all add: run_events_snoc exec_keys_step bucket_keys_snoc, simp add: run_events_Nil
      initial_projection_def bucket_keys_def map_keys_def)

lemma pair_keys: "map_keys (pairBuckets (run_events es) s) = bucket_keys (is_pair_case s) es"
  by (induction es rule: rev_induct)
    (simp_all add: run_events_snoc pair_keys_step bucket_keys_snoc, simp add: run_events_Nil
      initial_projection_def bucket_keys_def map_keys_def)

lemma distinct_bucket_keys [simp]: "distinct (bucket_keys P es)"
  by (simp add: bucket_keys_def)

subsection \<open>Streams\<close>

text \<open>The operations that the events perform on the two stores of streams.\<close>

definition store_op ::
    "(switch_case \<Rightarrow> stream_variant option) \<Rightarrow> (switch_case \<Rightarrow> bool) \<Rightarrow> nat \<times> event_record \<Rightarrow> stream_op option" where
  "store_op var fin x = (case case_of (snd x) of
     None \<Rightarrow> None
   | Some c \<Rightarrow> (case var c of
         Some v \<Rightarrow> Some (Append (snd x) (int (fst x)) v)
       | None \<Rightarrow> if fin c then Some (Terminate (snd x)) else None))"

text \<open>Which cases are deltas and which are final events, for each of the two stores.\<close>

fun message_variant :: "switch_case \<Rightarrow> stream_variant option" where
  "message_variant CMessageDelta = Some VText"
| "message_variant _ = None"

fun reasoning_variant_of :: "switch_case \<Rightarrow> stream_variant option" where
  "reasoning_variant_of (CReasoningDelta v) = Some (VReasoning v)"
| "reasoning_variant_of _ = None"

fun final_message :: "switch_case \<Rightarrow> bool" where
  "final_message CAgentMessage = True"
| "final_message _ = False"

fun final_reasoning :: "switch_case \<Rightarrow> bool" where
  "final_reasoning (CReasoning v) = True"
| "final_reasoning _ = False"

abbreviation "message_op \<equiv> store_op message_variant final_message"
abbreviation "reasoning_op \<equiv> store_op reasoning_variant_of final_reasoning"

definition stream_ops :: "(nat \<times> event_record \<Rightarrow> stream_op option) \<Rightarrow> event_record list \<Rightarrow> stream_op list" where
  "stream_ops f es = List.map_filter f (enumerate 0 es)"

lemma stream_ops_snoc:
  "stream_ops f (es @ [e]) = stream_ops f es @ (case f (length es, e) of None \<Rightarrow> [] | Some s \<Rightarrow> [s])"
  by (simp add: stream_ops_def enumerate_append_eq List.map_filter_def split: option.split)

lemma message_store: "messageStreams (run_events es) = foldl stream_step [] (stream_ops message_op es)"
proof (induction es rule: rev_induct)
  case (snoc e es)
  show ?case
  proof (cases "case_of e")
    case None
    with snoc show ?thesis
      by (simp add: run_events_snoc stream_ops_snoc store_op_def project_event_case push_def
          split: option.split)
  next
    case (Some c)
    with snoc show ?thesis
      by (cases c) (simp_all add: run_events_snoc stream_ops_snoc store_op_def project_event_case
          push_def onExec_def onPair_def)
  qed
qed (simp add: run_events_Nil initial_projection_def stream_ops_def)

lemma reasoning_store:
  "reasoningStreams (run_events es) = foldl stream_step [] (stream_ops reasoning_op es)"
proof (induction es rule: rev_induct)
  case (snoc e es)
  show ?case
  proof (cases "case_of e")
    case None
    with snoc show ?thesis
      by (simp add: run_events_snoc stream_ops_snoc store_op_def project_event_case push_def
          split: option.split)
  next
    case (Some c)
    with snoc show ?thesis
      by (cases c) (simp_all add: run_events_snoc stream_ops_snoc store_op_def project_event_case
          push_def onExec_def onPair_def)
  qed
qed (simp add: run_events_Nil initial_projection_def stream_ops_def)

fun is_append :: "stream_op \<Rightarrow> bool" where
  "is_append (Append e n v) = True"
| "is_append (Terminate e) = False"

fun appended :: "stream_op list \<Rightarrow> event_record list" where
  "appended [] = []"
| "appended (Append e n v # ops) = e # appended ops"
| "appended (Terminate e # ops) = appended ops"

lemma appended_append [simp]: "appended (xs @ ys) = appended xs @ appended ys"
  by (induction xs rule: appended.induct) simp_all

text \<open>
  The stream of a key: it starts with the first delta of the key (what ends before it has no
  effect), holds every delta and is terminated by any final event after the start.
\<close>

definition own_ops :: "jsstring \<Rightarrow> stream_op list \<Rightarrow> stream_op list" where
  "own_ops k ops = dropWhile (\<lambda>s. \<not> is_append s) (filter (\<lambda>s. op_key s = k) ops)"

definition stream_spec :: "stream_op list \<Rightarrow> jsstring \<Rightarrow> stream_bucket option" where
  "stream_spec ops k =
     (case own_ops k ops of
        Append e n v # rest \<Rightarrow> Some \<lparr>sb_timestamp = timestamp e, sb_order = n,
          sb_eventIds = map event_id (appended (own_ops k ops)),
          chunks = concat (map chunk_list (appended (own_ops k ops))), sb_variant = v,
          terminated = \<not> list_all is_append (own_ops k ops)\<rparr>
      | _ \<Rightarrow> None)"

definition stream_keys :: "stream_op list \<Rightarrow> jsstring list" where
  "stream_keys ops = firsts (map op_key (filter is_append ops))"

lemma dropWhile_snoc:
  "dropWhile P (xs @ [x]) = (if dropWhile P xs = [] \<and> P x then [] else dropWhile P xs @ [x])"
  by (induction xs) auto

lemma own_ops_snoc:
  "own_ops k (ops @ [s]) =
     (if op_key s \<noteq> k \<or> own_ops k ops = [] \<and> \<not> is_append s then own_ops k ops
      else own_ops k ops @ [s])"
  by (auto simp: own_ops_def dropWhile_snoc dropWhile_eq_Nil_conv eq_commute [of "[]"])

lemma own_ops_head: "own_ops k ops = s # rest \<Longrightarrow> is_append s"
  unfolding own_ops_def by (metis dropWhile_eq_Cons_conv)

lemma own_ops_Nil: "own_ops k ops = [] \<longleftrightarrow> k \<notin> set (stream_keys ops)"
  by (auto simp: own_ops_def stream_keys_def dropWhile_eq_Nil_conv)

lemma stream_spec_None: "stream_spec ops k = None \<longleftrightarrow> own_ops k ops = []"
  using own_ops_head [of k ops]
  by (auto simp: stream_spec_def split: list.splits stream_op.splits)

lemma stream_refine: "map_get (foldl stream_step [] ops) k = stream_spec ops k"
proof (induction ops rule: rev_induct)
  case Nil
  show ?case by (simp add: stream_spec_def own_ops_def)
next
  case (snoc s ops)
  show ?case
  proof (cases "op_key s = k")
    case False
    then have own: "own_ops k (ops @ [s]) = own_ops k ops" by (simp add: own_ops_snoc)
    from False snoc show ?thesis by (simp add: stream_step_other) (simp only: stream_spec_def own)
  next
    case key: True
    show ?thesis
    proof (cases "own_ops k ops")
      case Nil
      with key snoc show ?thesis
        by (cases s) (simp_all add: stream_spec_def own_ops_snoc appendStreamChunk_def
            terminateStream_def Let_def chunk_list_def)
    next
      case (Cons a rest)
      with own_ops_head [OF Cons] obtain e n v where "a = Append e n v" by (cases a) simp_all
      with key snoc Cons show ?thesis
        by (cases s) (simp_all add: stream_spec_def own_ops_snoc appendStreamChunk_def
            terminateStream_def Let_def chunk_list_def)
    qed
  qed
qed

lemma stream_keys_refine: "map_keys (foldl stream_step [] ops) = stream_keys ops"
proof (induction ops rule: rev_induct)
  case Nil
  show ?case by (simp add: stream_keys_def map_keys_def)
next
  case (snoc s ops)
  have k: "k \<in> set (map op_key (filter is_append ops)) \<longleftrightarrow> map_get (foldl stream_step [] ops) k \<noteq> None" for k
    using own_ops_Nil [of k ops] by (simp add: stream_refine stream_spec_None stream_keys_def)
  show ?case
    using snoc k [of "op_key s"]
    by (cases s) (auto simp: stream_keys_def appendStreamChunk_def terminateStream_def Let_def
        jm.keys_put split: option.splits)
qed

lemma distinct_stream_keys [simp]: "distinct (stream_keys ops)"
  by (simp add: stream_keys_def)

subsection \<open>The reference and the equivalence\<close>

definition stream_items :: "stream_op list \<Rightarrow> item list" where
  "stream_items ops =
     List.map_filter (\<lambda>k. Option.bind (stream_spec ops k) (projectStreamBucket k)) (stream_keys ops)"

definition exec_items :: "event_record list \<Rightarrow> item list" where
  "exec_items es = List.map_filter (\<lambda>k. Option.bind (exec_spec es k) (projectExecBucket k))
     (bucket_keys is_exec_case es)"

definition pair_items :: "event_record list \<Rightarrow> pair_store \<Rightarrow> item list" where
  "pair_items es s = List.map_filter (\<lambda>k. Option.bind (pair_spec es s k) (projectPair s k))
     (bucket_keys (is_pair_case s) es)"

definition reference_items :: "event_record list \<Rightarrow> item list" where
  "reference_items es = List.map_filter direct_item (enumerate 0 es) @ exec_items es
     @ concat (map (pair_items es) pair_stores)
     @ stream_items (stream_ops message_op es) @ stream_items (stream_ops reasoning_op es)"

definition reference_thread ::
    "(jsstring \<Rightarrow> jsstring \<Rightarrow> int) \<Rightarrow> session_detail \<Rightarrow> event_record list \<Rightarrow> thread" where
  "reference_thread lc d es =
     \<lparr>thread_header = projectHeader d es,
      messages = map message_of_run (split_items (js_sort (compareItems lc) (reference_items es)))\<rparr>"

lemma stream_items_refine:
  "bucket_items projectStreamBucket (foldl stream_step [] ops) = stream_items ops"
  by (simp add: bucket_items_keys stream_keys_refine stream_refine stream_items_def)

lemma all_items_reference: "all_items (run_events es) = reference_items es"
  by (simp add: all_items_def reference_items_def p_items_run bucket_items_keys exec_keys exec_refine
      pair_keys pair_refine message_store reasoning_store stream_items_refine exec_items_def
      pair_items_def [abs_def] cong: map_cong)

text \<open>C4. The projection is equivalent to a reference definition without state: the items are the
  direct items of the single events, one item per command, call and stream, read off the events of
  its key, in the order of the keys' first events; the messages are the runs of the sorted items.
  The five mutable stores and the open message of the code compute nothing else.\<close>

theorem projection_equals_reference:
  "projectReadonlyAssistantThread lc d es = reference_thread lc d es"
  by (simp add: projectReadonlyAssistantThread_def reference_thread_def sorted_items_def
      all_items_reference foldItems_runs)

subsection \<open>The part that lists an event\<close>

definition thread_parts :: "thread \<Rightarrow> part list" where
  "thread_parts th = concat (map parts (messages th))"

text \<open>The parts of a thread that list an event.\<close>

definition parts_listing :: "jsstring \<Rightarrow> thread \<Rightarrow> part list" where
  "parts_listing i th = filter (\<lambda>p. i \<in> set (eventIds p)) (thread_parts th)"

lemma thread_parts_items:
  "thread_parts (projectReadonlyAssistantThread lc d es) = concat (map item_parts (sorted_items lc es))"
  by (simp add: thread_parts_def projectReadonlyAssistantThread_def parts_foldItems)

lemma filter_sole:
  assumes "distinct (concat (map g xs))" and "i \<in> set xs" and "x \<in> set (g i)"
  shows "filter (\<lambda>j. x \<in> set (g j)) xs = [i]"
  using assms
proof (induction xs)
  case (Cons y ys)
  show ?case
  proof (cases "x \<in> set (g y)")
    case True
    with Cons.prems(1) have no: "x \<notin> set (g j)" if "j \<in> set ys" for j using that by auto
    with Cons.prems(2,3) have "i = y" by auto
    moreover have "filter (\<lambda>j. x \<in> set (g j)) ys = []" using no by (simp add: filter_empty_conv)
    ultimately show ?thesis using True by simp
  next
    case False
    with Cons show ?thesis by auto
  qed
qed simp

lemma item_parts_sources: "p \<in> set (item_parts i) \<Longrightarrow> set (eventIds p) \<subseteq> set (item_sources i)"
  by (cases i) (auto simp: message_ids_def)

lemma filter_concat: "filter P (concat xss) = concat (map (filter P) xss)"
  by (induction xss) simp_all

lemma concat_map_sole:
  "(\<And>j. j \<in> set xs \<Longrightarrow> \<not> P j \<Longrightarrow> f j = []) \<Longrightarrow> concat (map f xs) = concat (map f (filter P xs))"
  by (induction xs) auto

lemma sources_distinct:
  assumes "distinct (map event_id es)"
  shows "distinct (concat (map item_sources (sorted_items lc es)))"
proof -
  have "distinct (map event_id (shown_events es))"
    unfolding shown_events_def using assms by (rule distinct_map_filter)
  with sorted_items_held show ?thesis by (rule distinct_of_mset_le)
qed

lemma parts_listing_item:
  assumes "distinct (map event_id es)" and "i \<in> set (reference_items es)" and "x \<in> set (item_sources i)"
  shows "parts_listing x (projectReadonlyAssistantThread lc d es) =
     filter (\<lambda>p. x \<in> set (eventIds p)) (item_parts i)"
proof -
  let ?xs = "sorted_items lc es"
  let ?P = "\<lambda>j. x \<in> set (item_sources j)"
  have "i \<in> set ?xs" using assms(2) by (simp add: sorted_items_def all_items_reference)
  then have one: "filter ?P ?xs = [i]"
    using filter_sole [OF sources_distinct [OF assms(1)]] assms(3) by blast
  have "parts_listing x (projectReadonlyAssistantThread lc d es) =
      concat (map (\<lambda>j. filter (\<lambda>p. x \<in> set (eventIds p)) (item_parts j)) ?xs)"
    by (simp add: parts_listing_def thread_parts_items filter_concat comp_def)
  also have "\<dots> = concat (map (\<lambda>j. filter (\<lambda>p. x \<in> set (eventIds p)) (item_parts j)) (filter ?P ?xs))"
    by (rule concat_map_sole) (use item_parts_sources in \<open>auto simp: filter_empty_conv\<close>)
  finally show ?thesis by (simp add: one)
qed

lemma parts_listing_none:
  assumes "x \<notin> item_source_set (reference_items es)"
  shows "parts_listing x (projectReadonlyAssistantThread lc d es) = []"
proof -
  have "x \<notin> set (eventIds p)" if "i \<in> set (reference_items es)" "p \<in> set (item_parts i)" for i p
    using that item_parts_sources [of p i] assms by (auto simp: item_source_set_def)
  then show ?thesis
    by (auto simp: parts_listing_def thread_parts_items sorted_items_def all_items_reference
        filter_empty_conv)
qed

lemma direct_in_reference:
  "e \<in> set es \<Longrightarrow> \<exists>n. (\<forall>i. direct_item (n, e) = Some i \<longrightarrow> i \<in> set (reference_items es))"
proof -
  assume "e \<in> set es"
  then obtain n where "n < length es" "es ! n = e" by (auto simp: in_set_conv_nth)
  then have "(n, e) \<in> set (enumerate 0 es)" by (auto simp: in_set_enumerate_eq)
  then have "direct_item (n, e) = Some i \<Longrightarrow> i \<in> set (reference_items es)" for i
    by (auto simp: reference_items_def map_filter_in)
  then show ?thesis by blast
qed

end
