(* ===== verification/Thread_Content.thy ===== *)
theory Thread_Content
  imports Projection_Reference Thread_Types "HOL-Library.Sublist"
begin

section \<open>What the parts of a thread say\<close>

text \<open>
  The content of a projected thread, event by event, from the reference definition: messages and
  reasoning are shown verbatim, the deltas of a turn are one text until the final event of the turn
  replaces it, and a command is one part with its whole output. In each case the theorem gives the
  list of all parts of the thread that list the event.
\<close>

subsection \<open>Direct items\<close>

lemma direct_item_case:
  "case_of e = Some c \<Longrightarrow> direct_item (n, e) =
     (case p_items (run_case c e (int n) initial_projection) of [] \<Rightarrow> None | i # _ \<Rightarrow> Some i)"
  by (auto simp: direct_item_def case_of_def)

lemma parts_listing_direct:
  assumes "distinct (map event_id es)" and "e \<in> set es" and "\<And>n. direct_item (n, e) = Some (f n)"
    and "\<And>n. item_parts (f n) = ps" and "\<forall>p\<in>set ps. eventIds p = [event_id e]"
  shows "parts_listing (event_id e) (projectReadonlyAssistantThread lc d es) = ps"
proof -
  obtain n where "f n \<in> set (reference_items es)" using direct_in_reference [OF assms(2)] assms(3) by blast
  moreover have "event_id e \<in> set (item_sources (f n))" using direct_item_sources [OF assms(3)] by simp
  ultimately have "parts_listing (event_id e) (projectReadonlyAssistantThread lc d es) =
      filter (\<lambda>p. event_id e \<in> set (eventIds p)) (item_parts (f n))"
    by (rule parts_listing_item [OF assms(1)])
  also have "\<dots> = ps" using assms(4,5) by (simp add: filter_id_conv)
  finally show ?thesis .
qed

definition message_text :: "event_record \<Rightarrow> jsstring" where
  "message_text e = opt_default (str (msgOf e) ''message'') []"

text \<open>What a message, reasoning or user input event puts into the thread.\<close>

fun verbatim_parts :: "switch_case \<Rightarrow> event_record \<Rightarrow> part list" where
  "verbatim_parts CAgentMessage e =
     [TextPart (message_text e) (str (msgOf e) ''phase'') (field (msgOf e) ''memory_citation'') [event_id e]]"
| "verbatim_parts (CReasoning v) e =
     [ReasoningPart (opt_default (str (msgOf e) ''text'') []) v [event_id e]]"
| "verbatim_parts CUserMessage e = [TextPart (message_text e) None JUndef [event_id e]]"
| "verbatim_parts _ e = []"

fun is_text :: "part \<Rightarrow> bool" where
  "is_text (TextPart t p c ids) = True"
| "is_text (ReasoningPart t v ids) = True"
| "is_text _ = False"

lemma user_parts_shape:
  assumes "\<forall>p\<in>set att. Q p"
  shows "\<exists>rest. (if length ((if length s > 0 then [t] else []) @ att) = 0 then [t]
       else (if length s > 0 then [t] else []) @ att) = (if s \<noteq> [] \<or> rest = [] then [t] else []) @ rest
     \<and> (\<forall>p\<in>set rest. Q p)"
  using assms by (intro exI [of _ att]) simp

lemma user_parts:
  "\<exists>rest. parts (item_message (projectUserMessage e n)) =
     (if trim (message_text e) \<noteq> [] \<or> rest = [] then verbatim_parts CUserMessage e else []) @ rest
   \<and> (\<forall>p\<in>set rest. \<not> is_text p \<and> eventIds p = [event_id e])"
  unfolding projectUserMessage_def Let_def item.sel message.simps message_text_def verbatim_parts.simps
  by (rule user_parts_shape) simp

text \<open>The message of an item: it has the item's role and parts, and ends with an item that closes it.\<close>

lemma message_of_item:
  assumes "i \<in> set (reference_items es)"
  shows "\<exists>m\<in>set (messages (projectReadonlyAssistantThread lc d es)).
     msg_role m = (if is_user i then User else Assistant) \<and> set (item_parts i) \<subseteq> set (parts m)
   \<and> (closes i \<longrightarrow> suffix (item_parts i) (parts m))"
proof -
  let ?xs = "sorted_items lc es"
  have i: "i \<in> set ?xs" using assms by (simp add: sorted_items_def all_items_reference)
  then obtain r where r: "r \<in> set (split_items ?xs)" "i \<in> set r" by (metis UN_E concat_split_items set_concat)
  have ok: "run_ok r" using r(1) by (rule run_ok_split)
  let ?m = "message_of_run r"
  have parts: "parts ?m = concat (map item_parts r)" by (rule parts_of_run [OF ok])
  have "msg_role ?m = (if is_user i then User else Assistant)"
  proof (cases "is_user i")
    case True
    with ok r(2) have ri: "r = [i]" by (simp add: run_ok_def)
    with True sorted_items_ok [OF i] show ?thesis by (cases i) simp_all
  next
    case False
    from ok obtain x q where rq: "r = x # q" by (auto simp: run_ok_def neq_Nil_conv)
    have "\<not> is_user x"
    proof
      assume "is_user x"
      with ok rq have "r = [x]" by (simp add: run_ok_def)
      with r(2) False \<open>is_user x\<close> show False by simp
    qed
    with False rq show ?thesis by (cases x) (simp_all add: open_message_def)
  qed
  moreover have "suffix (item_parts i) (parts ?m)" if "closes i"
  proof -
    obtain b l where rb: "r = b @ [l]" using ok by (metis run_ok_def rev_exhaust)
    with ok that r(2) have "l = i" by (auto simp: run_ok_def)
    then show ?thesis unfolding parts by (simp add: rb suffix_def)
  qed
  moreover have "set (item_parts i) \<subseteq> set (parts ?m)" using r(2) by (auto simp: parts)
  moreover have "?m \<in> set (messages (projectReadonlyAssistantThread lc d es))"
    using r(1) by (simp add: projectReadonlyAssistantThread_def foldItems_runs)
  ultimately show ?thesis by blast
qed

lemma direct_item_verbatim:
  assumes "case_of e = Some c" and "verbatim_parts c e \<noteq> []"
    and "c = CUserMessage \<longrightarrow> trim (message_text e) \<noteq> []"
  shows "\<exists>f. (\<forall>n. direct_item (n, e) = Some (f n)) \<and> (\<forall>n. is_user (f n) \<longleftrightarrow> c = CUserMessage)
     \<and> (\<forall>n. closes (f n) \<longleftrightarrow> c = CUserMessage \<or> c = CAgentMessage)
     \<and> (\<exists>ps. (\<forall>n. item_parts (f n) = ps) \<and> (\<forall>p\<in>set ps. eventIds p = [event_id e])
           \<and> filter is_text ps = verbatim_parts c e)"
proof (cases c)
  case CUserMessage
  let ?ps = "parts (item_message (projectUserMessage e 0))"
  have n: "item_parts (projectUserMessage e n) = ?ps" for n
    by (simp add: projectUserMessage_def Let_def)
  obtain rest where rest: "?ps = verbatim_parts CUserMessage e @ rest"
      "\<forall>p\<in>set rest. \<not> is_text p \<and> eventIds p = [event_id e]"
    using user_parts [of e 0] assms(3) CUserMessage by auto
  have "filter is_text ?ps = verbatim_parts c e"
    using rest by (simp add: CUserMessage filter_empty_conv)
  moreover have "\<forall>p\<in>set ?ps. eventIds p = [event_id e]" using rest by auto
  moreover have "direct_item (n, e) = Some (projectUserMessage e (int n))" for n
    using assms(1) CUserMessage by (simp add: direct_item_case push_def initial_projection_def)
  moreover have "is_user (projectUserMessage e n) \<and> closes (projectUserMessage e n)" for n
    by (simp add: projectUserMessage_def Let_def)
  ultimately show ?thesis
    using n CUserMessage by (intro exI [of _ "\<lambda>n. projectUserMessage e (int n)"]) auto
next
  case CAgentMessage
  then show ?thesis using assms(1)
    by (intro exI [of _ "\<lambda>n. projectAssistantPart e (int n) (hd (verbatim_parts c e)) True"])
      (simp add: direct_item_case push_def initial_projection_def projectAssistantPart_def
        message_text_def)
next
  case (CReasoning v)
  then show ?thesis using assms(1)
    by (intro exI [of _ "\<lambda>n. projectAssistantPart e (int n) (hd (verbatim_parts c e)) False"])
      (simp add: direct_item_case push_def initial_projection_def projectAssistantPart_def)
qed (use assms(2) in simp_all)

lemma verbatim_text:
  assumes "distinct (map event_id es)" and "e \<in> set es" and "case_of e = Some c"
    and "verbatim_parts c e \<noteq> []" and "c = CUserMessage \<longrightarrow> trim (message_text e) \<noteq> []"
  shows "filter is_text (parts_listing (event_id e) (projectReadonlyAssistantThread lc d es))
      = verbatim_parts c e
    \<and> (\<exists>m\<in>set (messages (projectReadonlyAssistantThread lc d es)).
        msg_role m = (if c = CUserMessage then User else Assistant)
        \<and> set (verbatim_parts c e) \<subseteq> set (parts m)
        \<and> (c = CAgentMessage \<longrightarrow> suffix (verbatim_parts c e) (parts m)))"
proof -
  from direct_item_verbatim [OF assms(3-5)] obtain f ps where
    f: "\<And>n. direct_item (n, e) = Some (f n)" "\<And>n. is_user (f n) \<longleftrightarrow> c = CUserMessage"
      "\<And>n. closes (f n) \<longleftrightarrow> c = CUserMessage \<or> c = CAgentMessage"
    and ps: "\<And>n. item_parts (f n) = ps" "\<forall>p\<in>set ps. eventIds p = [event_id e]"
      "filter is_text ps = verbatim_parts c e" by blast
  obtain n where n: "f n \<in> set (reference_items es)" using direct_in_reference [OF assms(2)] f(1) by blast
  have sub: "set (verbatim_parts c e) \<subseteq> set ps" using ps(3) by (metis filter_is_subset)
  have agent: "verbatim_parts c e = ps" if "c = CAgentMessage"
  proof -
    show ?thesis using that assms(3) ps(1) [of n] f(1) [of n]
      by (cases "f n") (simp_all add: direct_item_case push_def initial_projection_def
          projectAssistantPart_def message_text_def)
  qed
  from message_of_item [OF n, of lc d] obtain m where
    m: "m \<in> set (messages (projectReadonlyAssistantThread lc d es))"
      "msg_role m = (if c = CUserMessage then User else Assistant)" "set ps \<subseteq> set (parts m)"
      "c = CAgentMessage \<longrightarrow> suffix ps (parts m)"
    unfolding ps(1) f(2,3) by blast
  with sub agent have "\<exists>m\<in>set (messages (projectReadonlyAssistantThread lc d es)).
        msg_role m = (if c = CUserMessage then User else Assistant)
        \<and> set (verbatim_parts c e) \<subseteq> set (parts m)
        \<and> (c = CAgentMessage \<longrightarrow> suffix (verbatim_parts c e) (parts m))"
    by (intro bexI [of _ m] conjI impI) (simp_all add: subset_trans)
  then show ?thesis
    using parts_listing_direct [OF assms(1,2) f(1) ps(1,2), of lc d] ps(3) by simp
qed

text \<open>C5. The conversation is shown verbatim: the text of a user message, an agent message or a
  reasoning event is in exactly one text part of the thread, as the event has it, in a message of
  the right role, and the message of an agent's text ends with it. (A user message of white space
  only, with attachments, shows the attachments alone.)\<close>

theorem conversation_shown_verbatim:
  assumes "distinct (map event_id es)" and "e \<in> set es" and "case_of e = Some c"
    and "verbatim_parts c e \<noteq> []" and "c = CUserMessage \<longrightarrow> trim (message_text e) \<noteq> []"
  shows "filter is_text (parts_listing (event_id e) (projectReadonlyAssistantThread lc d es))
      = verbatim_parts c e
    \<and> (\<exists>m\<in>set (messages (projectReadonlyAssistantThread lc d es)).
        msg_role m = (if c = CUserMessage then User else Assistant)
        \<and> set (verbatim_parts c e) \<subseteq> set (parts m)
        \<and> (c = CAgentMessage \<longrightarrow> suffix (verbatim_parts c e) (parts m)))"
  by (rule verbatim_text [OF assms])

lemma map_of_jstr: "map_of (map (\<lambda>(k, c). (jstr k, c)) xs) (jstr ty) = map_of xs ty"
  by (induction xs) auto

lemma case_of_sample [simp]: "case_of (sample_event i t ty m) = map_of switch_table ty"
  by (simp add: case_of_def switch_on_def sample_event_def ignored_def map_of_jstr)

lemma streamBucketId_sample [simp]: "streamBucketId (sample_event i t ty m) = jstr ''turn-1''"
  by (simp add: streamBucketId_def sample_event_def)

lemma sample_distinct: "distinct (map event_id sample_events)"
  by (simp add: sample_events_def)

lemma conversation_shown_verbatim_witness:
  "filter is_text (parts_listing (jstr ''e1'') (projectReadonlyAssistantThread compare_units
      sample_detail sample_events)) = [TextPart (jstr ''hi'') None JUndef [jstr ''e1'']]"
proof -
  let ?e = "sample_event ''e1'' ''t1'' ''user_message'' [(''message'', JStr (jstr ''hi''))]"
  have "case_of ?e = Some CUserMessage" by (simp add: switch_table_def)
  moreover have "message_text ?e = jstr ''hi''" and "trim (message_text ?e) \<noteq> []" by code_simp+
  moreover have "?e \<in> set sample_events" by (simp add: sample_events_def)
  ultimately show ?thesis
    using conversation_shown_verbatim [OF sample_distinct, of ?e CUserMessage compare_units sample_detail]
    by simp
qed

subsection \<open>Streams of deltas\<close>

text \<open>
  The deltas of a turn (the events of one stream key) in one of the two stores, and whether a final
  event of the turn came after the first of them.
\<close>

definition turn_deltas ::
    "(switch_case \<Rightarrow> stream_variant option) \<Rightarrow> jsstring \<Rightarrow> event_record list \<Rightarrow> event_record list" where
  "turn_deltas var k es = filter (\<lambda>e. in_case (\<lambda>c. var c \<noteq> None) e \<and> streamBucketId e = k) es"

definition turn_finished ::
    "(switch_case \<Rightarrow> stream_variant option) \<Rightarrow> (switch_case \<Rightarrow> bool) \<Rightarrow> jsstring \<Rightarrow> event_record list \<Rightarrow> bool" where
  "turn_finished var fin k es =
     list_ex (\<lambda>e. in_case fin e \<and> streamBucketId e = k)
       (dropWhile (\<lambda>e. \<not> (in_case (\<lambda>c. var c \<noteq> None) e \<and> streamBucketId e = k)) es)"

definition turn_text :: "event_record list \<Rightarrow> jsstring" where
  "turn_text ds = concat (map stream_chunk ds)"

lemma list_ex_dropWhile_snoc:
  "list_ex Q (dropWhile (\<lambda>x. \<not> P x) (xs @ [x])) \<longleftrightarrow>
     list_ex Q (dropWhile (\<lambda>x. \<not> P x) xs) \<or> Q x \<and> (filter P xs \<noteq> [] \<or> P x)"
  by (induction xs) auto

lemma turn_finished_snoc:
  "turn_finished var fin k (es @ [e]) \<longleftrightarrow> turn_finished var fin k es
     \<or> in_case fin e \<and> streamBucketId e = k
       \<and> (turn_deltas var k es \<noteq> [] \<or> in_case (\<lambda>c. var c \<noteq> None) e)"
  unfolding turn_finished_def turn_deltas_def list_ex_dropWhile_snoc by auto

text \<open>The stream of a turn, from the deltas of the turn.\<close>

lemma turn_deltas_snoc:
  "turn_deltas var k (es @ [e]) = turn_deltas var k es
     @ (if in_case (\<lambda>c. var c \<noteq> None) e \<and> streamBucketId e = k then [e] else [])"
  by (simp add: turn_deltas_def)

lemma store_op_pair:
  "store_op var fin (n, e) = (case case_of e of None \<Rightarrow> None
     | Some c \<Rightarrow> (case var c of Some v \<Rightarrow> Some (Append e (int n) v)
         | None \<Rightarrow> if fin c then Some (Terminate e) else None))"
  by (simp only: store_op_def fst_conv snd_conv)

lemma own_ops_turn:
  assumes "\<forall>c. var c \<noteq> None \<longrightarrow> \<not> fin c"
  shows "appended (own_ops k (stream_ops (store_op var fin) es)) = turn_deltas var k es
    \<and> (\<not> list_all is_append (own_ops k (stream_ops (store_op var fin) es))) = turn_finished var fin k es
    \<and> (own_ops k (stream_ops (store_op var fin) es) = [] \<longleftrightarrow> turn_deltas var k es = [])"
proof (induction es rule: rev_induct)
  case Nil
  show ?case by (simp add: stream_ops_def own_ops_def turn_deltas_def turn_finished_def)
next
  case (snoc e es)
  consider (none) "case_of e = None"
    | (delta) c v where "case_of e = Some c" "var c = Some v" "\<not> fin c"
    | (final) c where "case_of e = Some c" "var c = None" "fin c"
    | (other) c where "case_of e = Some c" "var c = None" "\<not> fin c"
  proof (cases "case_of e")
    case (Some c)
    then show ?thesis using that assms by (cases "var c"; cases "fin c") auto
  qed (rule that(1))
  then show ?case
    using snoc
    by cases (auto simp: stream_ops_snoc store_op_pair own_ops_snoc turn_deltas_snoc turn_finished_snoc
        in_case_def)
qed

lemma append_in_ops:
  "Append e n v \<in> set (stream_ops (store_op var fin) es) \<Longrightarrow>
     e \<in> set es \<and> in_case (\<lambda>c. var c = Some v) e"
proof -
  assume "Append e n v \<in> set (stream_ops (store_op var fin) es)"
  then obtain m d where d: "(m, d) \<in> set (enumerate 0 es)" "store_op var fin (m, d) = Some (Append e n v)"
    by (auto simp: stream_ops_def map_filter_in)
  then have "d \<in> set es" by (auto simp: in_set_enumerate_eq)
  with d(2) show ?thesis
    by (auto simp: store_op_def in_case_def split: option.splits if_splits)
qed

lemma stream_spec_turn:
  assumes "\<forall>c. var c \<noteq> None \<longrightarrow> \<not> fin c" and "turn_deltas var k es \<noteq> []"
  shows "\<exists>b. stream_spec (stream_ops (store_op var fin) es) k = Some b
    \<and> sb_eventIds b = map event_id (turn_deltas var k es)
    \<and> join [] (chunks b) = turn_text (turn_deltas var k es)
    \<and> terminated b = turn_finished var fin k es
    \<and> in_case (\<lambda>c. var c = Some (sb_variant b)) (hd (turn_deltas var k es))"
proof -
  let ?ops = "stream_ops (store_op var fin) es"
  note own = own_ops_turn [OF assms(1), of k es]
  then obtain s rest where s: "own_ops k ?ops = s # rest" using assms(2) by (cases "own_ops k ?ops") auto
  with own_ops_head [OF this] obtain e n v where a: "s = Append e n v" by (cases s) simp_all
  have "s \<in> set (own_ops k ?ops)" using s by simp
  then have "s \<in> set ?ops" unfolding own_ops_def by (metis filter_is_subset set_dropWhileD subsetD)
  with append_in_ops a have v: "in_case (\<lambda>c. var c = Some v) e" by blast
  have h: "hd (turn_deltas var k es) = e" using own s a by (metis appended.simps(2) list.sel(1))
  have "stream_spec ?ops k = Some \<lparr>sb_timestamp = timestamp e, sb_order = n,
      sb_eventIds = map event_id (turn_deltas var k es),
      chunks = concat (map chunk_list (turn_deltas var k es)), sb_variant = v,
      terminated = turn_finished var fin k es\<rparr>"
    using own s a by (simp add: stream_spec_def)
  with v h show ?thesis by (simp add: join_Nil_sep concat_chunk_list turn_text_def)
qed

lemma stream_spec_deltas:
  assumes "\<forall>c. var c \<noteq> None \<longrightarrow> \<not> fin c"
    and "stream_spec (stream_ops (store_op var fin) es) k = Some b"
  shows "turn_deltas var k es \<noteq> [] \<and> sb_eventIds b = map event_id (turn_deltas var k es)"
proof -
  have "own_ops k (stream_ops (store_op var fin) es) \<noteq> []"
    using assms(2) stream_spec_None [of "stream_ops (store_op var fin) es" k] by auto
  then have "turn_deltas var k es \<noteq> []" using own_ops_turn [OF assms(1)] by blast
  with stream_spec_turn [OF assms(1) this] assms(2) show ?thesis by auto
qed

lemma message_disjoint: "\<forall>c. message_variant c \<noteq> None \<longrightarrow> \<not> final_message c"
  by (rule allI, rename_tac c, case_tac c) simp_all

lemma reasoning_disjoint: "\<forall>c. reasoning_variant_of c \<noteq> None \<longrightarrow> \<not> final_reasoning c"
  by (rule allI, rename_tac c, case_tac c) simp_all

subsection \<open>Where an identifier comes from\<close>

lemma in_enumerate: "(n, e) \<in> set (enumerate 0 es) \<Longrightarrow> e \<in> set es"
  by (auto simp: in_set_enumerate_eq)

lemma last_of_in: "last_of xs = Some x \<Longrightarrow> x \<in> set xs"
  by (auto simp: last_of_def split: if_splits)

lemma in_exec_events: "e \<in> set (exec_events c k es) \<Longrightarrow> P c \<Longrightarrow> e \<in> set es \<and> in_case P e"
  by (auto simp: exec_events_def in_case_def)

lemma exec_ids_origin:
  assumes "exec_spec es k = Some b" and "x \<in> set (exec_ids b)"
  shows "\<exists>e\<in>set es. event_id e = x \<and> in_case is_exec_case e"
proof -
  have b: "b = opt_default (exec_spec es k) new_exec_bucket" using assms(1) by simp
  have "x \<in> event_id ` (set (exec_events CExecBegin k es) \<union> set (exec_events CExecOutput k es)
      \<union> set (exec_events CExecInteraction k es) \<union> set (exec_events CExecEnd k es))"
    using assms(2) unfolding b exec_spec_default
    by (auto simp: exec_ids_def dest!: last_of_in [OF sym] split: option.splits)
  then show ?thesis by (auto dest!: in_exec_events [where P = is_exec_case])
qed

lemma pair_ids_origin:
  assumes "pair_spec es s k = Some b" and "x \<in> set (pair_ids b)"
  shows "\<exists>e\<in>set es. event_id e = x \<and> in_case (is_pair_case s) e"
proof -
  have b: "b = opt_default (pair_spec es s k) new_pair_bucket" using assms(1) by simp
  have "x \<in> event_id ` (set (exec_events (CPairBegin s) k es) \<union> set (exec_events (CPairEnd s) k es))"
    using assms(2) unfolding b pair_spec_default
    by (auto simp: pair_ids_def dest!: last_of_in [OF sym] split: option.splits)
  then show ?thesis by (auto simp: is_pair_case_def dest!: in_exec_events [where P = "is_pair_case s"])
qed

lemma direct_no_delta:
  "in_case (\<lambda>c. message_variant c \<noteq> None \<or> reasoning_variant_of c \<noteq> None) e \<Longrightarrow> direct_item (n, e) = None"
  by (cases "case_of e", simp add: in_case_def)
    (rename_tac c, case_tac c, simp_all add: in_case_def direct_item_case initial_projection_def)

lemma item_origin:
  assumes "x \<in> item_source_set (reference_items es)"
  obtains (event) e where "e \<in> set es" "event_id e = x"
      "\<not> in_case (\<lambda>c. message_variant c \<noteq> None \<or> reasoning_variant_of c \<noteq> None) e"
    | (message) k b i where "stream_spec (stream_ops message_op es) k = Some b"
        "projectStreamBucket k b = Some i" "x \<in> set (sb_eventIds b)"
    | (reasoning) k b i where "stream_spec (stream_ops reasoning_op es) k = Some b"
        "projectStreamBucket k b = Some i" "x \<in> set (sb_eventIds b)"
proof -
  have tool: "thesis" if "e \<in> set es" "event_id e = x" "in_case P e"
      "\<And>c. P c \<Longrightarrow> message_variant c = None \<and> reasoning_variant_of c = None" for P e
    using that by (intro event [of e]) (auto simp: in_case_def split: option.splits)
  have ex: "is_exec_case c \<Longrightarrow> message_variant c = None \<and> reasoning_variant_of c = None" for c
    by (cases c) simp_all
  have pr: "is_pair_case s c \<Longrightarrow> message_variant c = None \<and> reasoning_variant_of c = None" for s c
    by (auto simp: is_pair_case_def)
  from assms obtain i where i: "i \<in> set (reference_items es)" "x \<in> set (item_sources i)"
    by (auto simp: item_source_set_def)
  then consider (a) n e where "e \<in> set es" "direct_item (n, e) = Some i"
    | (b) k b where "exec_spec es k = Some b" "projectExecBucket k b = Some i"
    | (c) s k b where "pair_spec es s k = Some b" "projectPair s k b = Some i"
    | (d) k b where "stream_spec (stream_ops message_op es) k = Some b" "projectStreamBucket k b = Some i"
    | (e) k b where "stream_spec (stream_ops reasoning_op es) k = Some b" "projectStreamBucket k b = Some i"
    unfolding reference_items_def exec_items_def pair_items_def stream_items_def
    by (auto simp: map_filter_in bind_eq_Some_conv dest: in_enumerate)
  then show thesis
  proof cases
    case a
    then show ?thesis using i(2) direct_item_sources [OF a(2)] direct_no_delta [of e n]
      by (intro event [of e]) auto
  next
    case b
    then show ?thesis using i(2) projectExec_sources [OF b(2)] exec_ids_origin [OF b(1), of x] tool ex
      by metis
  next
    case c
    then show ?thesis using i(2) projectPair_sources [OF c(2)] pair_ids_origin [OF c(1), of x] tool pr
      by metis
  next
    case d
    with i(2) projectStream_sources [OF d(2)] show ?thesis by (intro message) auto
  next
    case e
    with i(2) projectStream_sources [OF e(2)] show ?thesis by (intro reasoning) auto
  qed
qed

subsection \<open>The text of a turn\<close>

lemma distinct_event: "distinct (map event_id es) \<Longrightarrow> e \<in> set es \<Longrightarrow> d \<in> set es \<Longrightarrow> event_id d = event_id e \<Longrightarrow> d = e"
  by (auto simp: distinct_map inj_on_def)

definition stream_part :: "stream_variant \<Rightarrow> event_record list \<Rightarrow> part" where
  "stream_part v ds = (case v of VText \<Rightarrow> TextPart (turn_text ds) None JUndef (map event_id ds)
     | VReasoning r \<Rightarrow> ReasoningPart (turn_text ds) r (map event_id ds))"

lemma turn_shown:
  assumes "stream_spec ops k = Some b" and "sb_eventIds b = map event_id ds"
    and "join [] (chunks b) = turn_text ds"
  shows "projectStreamBucket k b = (if terminated b \<or> turn_text ds = [] then None
     else Some (AssistantItem (sb_timestamp b) (sb_order b) (stream_part (sb_variant b) ds) False))"
  using assms by (simp add: projectStreamBucket_def stream_part_def Let_def split: stream_variant.split)

text \<open>The proof for both stores: the store's own stream of the turn is the only source of the delta.\<close>

lemma delta_listed:
  assumes "distinct (map event_id es)" and "e \<in> set es" and "in_case (\<lambda>c. var c \<noteq> None) e"
    and "\<forall>c. var c \<noteq> None \<longrightarrow> \<not> fin c"
    and "ds = turn_deltas var (streamBucketId e) es"
    and "in_case (\<lambda>c. var c = Some v) (hd ds)"
    and "\<And>i. i \<in> set (stream_items (stream_ops (store_op var fin) es)) \<Longrightarrow> i \<in> set (reference_items es)"
    and "event_id e \<in> item_source_set (reference_items es) \<Longrightarrow>
      \<exists>k b i. stream_spec (stream_ops (store_op var fin) es) k = Some b \<and> projectStreamBucket k b = Some i
        \<and> event_id e \<in> set (sb_eventIds b)"
  shows "parts_listing (event_id e) (projectReadonlyAssistantThread lc d es) =
     (if turn_finished var fin (streamBucketId e) es \<or> turn_text ds = [] then [] else [stream_part v ds])"
proof -
  let ?k = "streamBucketId e" and ?ops = "stream_ops (store_op var fin) es"
  have e: "e \<in> set ds" using assms(2,3,5) by (simp add: turn_deltas_def)
  then have ne: "turn_deltas var ?k es \<noteq> []" using assms(5) by auto
  from stream_spec_turn [OF assms(4) ne] obtain b where
    b: "stream_spec ?ops ?k = Some b" "sb_eventIds b = map event_id ds" "join [] (chunks b) = turn_text ds"
      "terminated b = turn_finished var fin ?k es" "in_case (\<lambda>c. var c = Some (sb_variant b)) (hd ds)"
    unfolding assms(5) by blast
  have v: "sb_variant b = v" using b(5) assms(6) by (auto simp: in_case_def split: option.splits)
  note shown = turn_shown [OF b(1-3), unfolded v b(4)]
  show ?thesis
  proof (cases "turn_finished var fin ?k es \<or> turn_text ds = []")
    case True
    have "event_id e \<notin> item_source_set (reference_items es)"
    proof
      assume "event_id e \<in> item_source_set (reference_items es)"
      then obtain k' b' i where k': "stream_spec ?ops k' = Some b'" "projectStreamBucket k' b' = Some i"
          "event_id e \<in> set (sb_eventIds b')" using assms(8) by blast
      with stream_spec_deltas [OF assms(4) k'(1)] obtain d' where
        d': "d' \<in> set (turn_deltas var k' es)" "event_id d' = event_id e" by auto
      then have "d' = e" using distinct_event [OF assms(1,2), of d'] by (simp add: turn_deltas_def)
      with d'(1) have "k' = ?k" by (simp add: turn_deltas_def)
      with k' b(1) shown True show False by auto
    qed
    with True show ?thesis by (simp add: parts_listing_none)
  next
    case False
    let ?i = "AssistantItem (sb_timestamp b) (sb_order b) (stream_part v ds) False"
    have "?k \<in> set (stream_keys ?ops)"
      using b(1) stream_spec_None [of ?ops ?k] own_ops_Nil [of ?k ?ops] by auto
    then have "?i \<in> set (stream_items ?ops)"
      using b(1) shown False by (auto simp: stream_items_def map_filter_in intro!: bexI [of _ ?k])
    then have i: "?i \<in> set (reference_items es)" by (rule assms(7))
    have ids: "eventIds (stream_part v ds) = map event_id ds"
      by (simp add: stream_part_def split: stream_variant.split)
    have x: "event_id e \<in> set (item_sources ?i)" using e ids by simp
    from parts_listing_item [OF assms(1) i x] False e ids show ?thesis by simp
  qed
qed

text \<open>C6. The text of a turn while it streams: until the final event of the turn, every text delta is
  listed by one part, whose text is the concatenation of all deltas of the turn in order, however
  they are interleaved with other events; once a final event came after the first delta, no part
  lists a delta (the final event shows the text), and a turn of empty deltas shows nothing.\<close>

theorem turn_text_until_final:
  assumes "distinct (map event_id es)" and "e \<in> set es" and "case_of e = Some CMessageDelta"
    and "ds = turn_deltas message_variant (streamBucketId e) es"
  shows "parts_listing (event_id e) (projectReadonlyAssistantThread lc d es) =
     (if turn_finished message_variant final_message (streamBucketId e) es \<or> turn_text ds = [] then []
      else [TextPart (turn_text ds) None JUndef (map event_id ds)])"
proof -
  have e: "in_case (\<lambda>c. message_variant c \<noteq> None) e" using assms(3) by (simp add: in_case_def)
  with assms(2,4) have "ds \<noteq> []" by (auto simp: turn_deltas_def filter_empty_conv)
  then have "in_case (\<lambda>c. message_variant c \<noteq> None) (hd ds)"
    using assms(4) hd_in_set [of ds] by (auto simp: turn_deltas_def)
  then have h: "in_case (\<lambda>c. message_variant c = Some VText) (hd ds)"
    by (auto simp: in_case_def split: option.splits) (rename_tac c y, case_tac c, auto)
  have o: "\<exists>k b i. stream_spec (stream_ops message_op es) k = Some b \<and> projectStreamBucket k b = Some i
      \<and> event_id e \<in> set (sb_eventIds b)" if "event_id e \<in> item_source_set (reference_items es)"
    using that
  proof (cases rule: item_origin)
    case (event e')
    with distinct_event [OF assms(1,2), of e'] assms(3) show ?thesis by (simp add: in_case_def)
  next
    case (reasoning k b i)
    with stream_spec_deltas [OF reasoning_disjoint reasoning(1)] obtain d' where
      "d' \<in> set es" "event_id d' = event_id e" "in_case (\<lambda>c. reasoning_variant_of c \<noteq> None) d'"
      by (auto simp: turn_deltas_def)
    with distinct_event [OF assms(1,2), of d'] assms(3) show ?thesis by (simp add: in_case_def)
  qed blast
  from delta_listed [OF assms(1,2) e message_disjoint assms(4) h _ o, of lc d]
  show ?thesis by (simp add: reference_items_def stream_part_def)
qed

lemma turn_text_until_final_witness:
  "parts_listing (jstr ''e3'') (projectReadonlyAssistantThread compare_units sample_detail sample_events)
     = [TextPart (jstr ''He'') None JUndef [jstr ''e3'']]"
proof -
  let ?e = "sample_event ''e3'' ''t3'' ''agent_message_delta'' [(''delta'', JStr (jstr ''He''))]"
  let ?ds = "turn_deltas message_variant (streamBucketId ?e) sample_events"
  have "case_of ?e = Some CMessageDelta" by (simp add: switch_table_def)
  moreover have "?ds = [?e]"
    by (simp add: turn_deltas_def sample_events_def in_case_def switch_table_def)
  moreover have "\<not> turn_finished message_variant final_message (streamBucketId ?e) sample_events"
    by (simp add: turn_finished_def sample_events_def in_case_def switch_table_def)
  moreover have "turn_text [?e] = jstr ''He''" by code_simp
  moreover have "?e \<in> set sample_events" by (simp add: sample_events_def)
  ultimately show ?thesis
    using turn_text_until_final [OF sample_distinct, of ?e ?ds compare_units sample_detail] by simp
qed

text \<open>The same for reasoning; the part has the variant of the first delta, whatever the others are.\<close>

lemma reasoning_text_until_final:
  assumes "distinct (map event_id es)" and "e \<in> set es" and "case_of e = Some (CReasoningDelta r)"
    and "ds = turn_deltas reasoning_variant_of (streamBucketId e) es"
    and "case_of (hd ds) = Some (CReasoningDelta v)"
  shows "parts_listing (event_id e) (projectReadonlyAssistantThread lc d es) =
     (if turn_finished reasoning_variant_of final_reasoning (streamBucketId e) es \<or> turn_text ds = []
      then [] else [ReasoningPart (turn_text ds) v (map event_id ds)])"
proof -
  have e: "in_case (\<lambda>c. reasoning_variant_of c \<noteq> None) e" using assms(3) by (simp add: in_case_def)
  have h: "in_case (\<lambda>c. reasoning_variant_of c = Some (VReasoning v)) (hd ds)"
    using assms(5) by (simp add: in_case_def)
  have o: "\<exists>k b i. stream_spec (stream_ops reasoning_op es) k = Some b \<and> projectStreamBucket k b = Some i
      \<and> event_id e \<in> set (sb_eventIds b)" if "event_id e \<in> item_source_set (reference_items es)"
    using that
  proof (cases rule: item_origin)
    case (event e')
    with distinct_event [OF assms(1,2), of e'] assms(3) show ?thesis by (simp add: in_case_def)
  next
    case (message k b i)
    with stream_spec_deltas [OF message_disjoint message(1)] obtain d' where
      "d' \<in> set es" "event_id d' = event_id e" "in_case (\<lambda>c. message_variant c \<noteq> None) d'"
      by (auto simp: turn_deltas_def)
    with distinct_event [OF assms(1,2), of d'] assms(3) show ?thesis by (simp add: in_case_def)
  qed blast
  from delta_listed [OF assms(1,2) e reasoning_disjoint assms(4) h _ o, of lc d]
  show ?thesis by (simp add: reference_items_def stream_part_def)
qed

text \<open>Raw and summarised reasoning of one turn end up in one part, labelled as the first of them.\<close>

definition mixed_reasoning :: "event_record list" where
  "mixed_reasoning =
     [sample_event ''e1'' ''t1'' ''agent_reasoning_delta'' [(''delta'', JStr (jstr ''sum''))],
      sample_event ''e2'' ''t2'' ''agent_reasoning_raw_content_delta'' [(''delta'', JStr (jstr ''raw''))]]"

lemma raw_reasoning_mislabelled:
  "parts_listing (jstr ''e2'') (projectReadonlyAssistantThread compare_units sample_detail mixed_reasoning)
     = [ReasoningPart (jstr ''sumraw'') Reasoning [jstr ''e1'', jstr ''e2'']]"
proof -
  let ?e = "sample_event ''e2'' ''t2'' ''agent_reasoning_raw_content_delta'' [(''delta'', JStr (jstr ''raw''))]"
  let ?ds = "turn_deltas reasoning_variant_of (streamBucketId ?e) mixed_reasoning"
  have "case_of ?e = Some (CReasoningDelta RawContent)" by (simp add: switch_table_def)
  moreover have ds: "?ds = mixed_reasoning" and "case_of (hd mixed_reasoning) = Some (CReasoningDelta Reasoning)"
      and "\<not> turn_finished reasoning_variant_of final_reasoning (streamBucketId ?e) mixed_reasoning"
    by (simp_all add: turn_deltas_def turn_finished_def mixed_reasoning_def in_case_def switch_table_def)
  moreover have "turn_text mixed_reasoning = jstr ''sumraw''" by code_simp
  moreover have "?e \<in> set mixed_reasoning" by (simp add: mixed_reasoning_def)
  moreover have "distinct (map event_id mixed_reasoning)"
      "map event_id mixed_reasoning = [jstr ''e1'', jstr ''e2'']" by (simp_all add: mixed_reasoning_def)
  ultimately show ?thesis
    using reasoning_text_until_final [of mixed_reasoning ?e RawContent ?ds Reasoning compare_units sample_detail]
    by simp
qed

subsection \<open>Commands\<close>

definition exec_bucket_of :: "event_record list \<Rightarrow> jsstring \<Rightarrow> exec_bucket" where
  "exec_bucket_of es k = opt_default (exec_spec es k) new_exec_bucket"

lemma exec_bucket_of_fields:
  "exec_begin (exec_bucket_of es k) = last_of (exec_events CExecBegin k es)"
  "exec_outputs (exec_bucket_of es k) = exec_events CExecOutput k es"
  "exec_interactions (exec_bucket_of es k) = exec_events CExecInteraction k es"
  "exec_end (exec_bucket_of es k) = last_of (exec_events CExecEnd k es)"
  by (simp_all add: exec_bucket_of_def exec_spec_default)

lemma command_part:
  assumes "distinct (map event_id es)" and "x \<in> set (exec_ids (exec_bucket_of es k))"
  shows "\<exists>t. parts_listing x (projectReadonlyAssistantThread lc d es) = [ToolPart t (exec_ids (exec_bucket_of es k))]
    \<and> toolKind t = ExecCommand
    \<and> (status t = Running \<longleftrightarrow> exec_events CExecEnd k es = [])
    \<and> tool_output t = (if exec_output (exec_bucket_of es k) = [] then None
        else Some (exec_output (exec_bucket_of es k)))"
proof -
  let ?b = "exec_bucket_of es k"
  have ne: "exec_ids ?b \<noteq> []" using assms(2) by auto
  then have "?b \<noteq> new_exec_bucket" by (auto simp: exec_ids_def new_exec_bucket_def)
  then have spec: "exec_spec es k = Some ?b" by (cases "exec_spec es k") (simp_all add: exec_bucket_of_def)
  obtain i where i: "projectExecBucket k ?b = Some i" using project_exec_some [OF ne] by blast
  obtain e c where e: "e \<in> set es" "bucketId e = k" "in_case is_exec_case e"
  proof -
    from assms(2) have "x \<in> event_id ` (set (exec_events CExecBegin k es) \<union> set (exec_events CExecOutput k es)
      \<union> set (exec_events CExecInteraction k es) \<union> set (exec_events CExecEnd k es))"
      by (auto simp: exec_ids_def exec_bucket_of_fields dest!: last_of_in [OF sym] split: option.splits)
    then show thesis using that by (auto simp: exec_events_def in_case_def)
  qed
  then have "k \<in> set (bucket_keys is_exec_case es)" by (auto simp: bucket_keys_def)
  with i spec have mem: "i \<in> set (reference_items es)"
    by (auto simp: reference_items_def exec_items_def map_filter_in intro!: bexI [of _ k])
  obtain t n ti where t: "i = AssistantItem ti n (ToolPart t (exec_ids ?b)) False" "toolKind t = ExecCommand"
      "status t = Running \<longleftrightarrow> exec_end ?b = None"
      "tool_output t = (if exec_output ?b = [] then None else Some (exec_output ?b))"
    using i mapExecCompletionStatus_done
    by (auto simp: projectExecBucket_def Let_def tool0_def split: option.splits)
  have "x \<in> set (item_sources i)" using assms(2) by (simp add: t(1))
  from parts_listing_item [OF assms(1) mem this, of lc d] assms(2) t show ?thesis
    by (auto simp: exec_bucket_of_fields last_of_def)
qed

text \<open>What codex puts into an output event: the base64 of bytes of the output.\<close>

definition output_chunk :: "event_record \<Rightarrow> jsstring" where
  "output_chunk e = opt_default (str (msgOf e) ''chunk'') []"

lemma exec_output_streamed:
  "exec_output (exec_bucket_of es k) =
     (let s = concat (map (base64DecodeUtf8 \<circ> output_chunk) (exec_events CExecOutput k es)) in
      if s \<noteq> [] then s else exec_output (exec_bucket_of es k))"
  by (simp add: exec_output_def Let_def exec_bucket_of_fields output_chunk_def comp_def)

text \<open>C7. A command is one part with its whole output: when the output events of a call carry base64 of
  UTF-8 texts cut between characters (no NUL, no leading byte order mark), each of them is listed by
  exactly one part of the thread, the same for all of them; it is the command's tool part, its output
  is the texts in order, whatever other calls wrote in between, and it runs until the call's end.\<close>

theorem command_output_is_text:
  assumes "distinct (map event_id es)" and "e \<in> set (exec_events CExecOutput k es)"
    and "map output_chunk (exec_events CExecOutput k es) = map (btoa \<circ> encode_utf8) texts"
    and "\<forall>ps\<in>set texts. (\<forall>p\<in>set ps. scalar p) \<and> 0 \<notin> set ps \<and> take 1 ps \<noteq> [0xFEFF]"
    and "concat (map js_of_points texts) \<noteq> []"
  shows "\<exists>t. parts_listing (event_id e) (projectReadonlyAssistantThread lc d es)
        = [ToolPart t (exec_ids (exec_bucket_of es k))]
    \<and> toolKind t = ExecCommand \<and> tool_output t = Some (concat (map js_of_points texts))
    \<and> (status t = Running \<longleftrightarrow> exec_events CExecEnd k es = [])"
proof -
  have "map (base64DecodeUtf8 \<circ> output_chunk) (exec_events CExecOutput k es) =
      map (base64DecodeUtf8 \<circ> (btoa \<circ> encode_utf8)) texts"
    using arg_cong [OF assms(3), of "map base64DecodeUtf8"] by simp
  also have "\<dots> = map js_of_points texts"
    using assms(4) by (simp add: base64_utf8_text)
  finally have "exec_output (exec_bucket_of es k) = concat (map js_of_points texts)"
    using assms(5) exec_output_streamed [of es k] by (simp only: Let_def if_True not_False_eq_True)
  moreover have "event_id e \<in> set (exec_ids (exec_bucket_of es k))"
    using assms(2) by (simp add: exec_ids_def exec_bucket_of_fields)
  ultimately show ?thesis using command_part [OF assms(1), of "event_id e" k lc d] assms(5) by auto
qed

text \<open>A command that prints an e with an acute accent and the euro sign, in two chunks.\<close>

definition output_event :: "string \<Rightarrow> byte list \<Rightarrow> event_record" where
  "output_event i bs = sample_event i (''t'' @ i) ''exec_command_output_delta''
     [(''call_id'', JStr (jstr ''c1'')), (''chunk'', JStr (btoa bs))]"

lemma output_event_simps [simp]:
  "event_id (output_event i bs) = jstr i" "case_of (output_event i bs) = Some CExecOutput"
  "bucketId (output_event i bs) = jstr ''c1''" "output_chunk (output_event i bs) = btoa bs"
  by (simp_all add: output_event_def switch_table_def) (simp_all add: output_event_def bucketId_def
      output_chunk_def sample_event_def msgOf_def asRecord_def field_def str_def Let_def)

lemma command_output_is_text_witness:
  "\<exists>t ids. parts_listing (jstr ''e2'') (projectReadonlyAssistantThread compare_units sample_detail
       [output_event ''e1'' (encode_utf8 [0xE9]), output_event ''e2'' (encode_utf8 [0x20AC])])
     = [ToolPart t ids] \<and> tool_output t = Some [0xE9, 0x20AC]"
proof -
  let ?es = "[output_event ''e1'' (encode_utf8 [0xE9]), output_event ''e2'' (encode_utf8 [0x20AC])]"
  have ex: "exec_events CExecOutput (jstr ''c1'') ?es = ?es" by (simp add: exec_events_def)
  have conc: "js_of_points [0xE9] = [0xE9]" "js_of_points [0x20AC] = [0x20AC]"
    by (simp_all add: js_of_points_def utf16_units.simps)
  show ?thesis
    using command_output_is_text [of ?es "?es ! 1" "jstr ''c1''" "[[0xE9], [0x20AC]]" compare_units sample_detail]
      ex conc by (auto simp: scalar_def)
qed

text \<open>
  A character whose bytes are in two chunks: each chunk is decoded on its own, both attempts fail,
  and the two base64 texts are shown instead of the character.
\<close>

lemma split_character_shows_base64:
  "exec_output (exec_bucket_of [output_event ''e1'' [0xC3], output_event ''e2'' [0xA9]] (jstr ''c1''))
     = jstr ''ww==qQ==''
   \<and> base64DecodeUtf8 (btoa [0xC3, 0xA9]) = [0xE9]"
proof
  let ?es = "[output_event ''e1'' [0xC3], output_event ''e2'' [0xA9]]"
  have ex: "exec_events CExecOutput (jstr ''c1'') ?es = ?es" by (simp add: exec_events_def)
  have "decode_utf8 [0xC3] = None" "decode_utf8 [0xA9] = None" by code_simp+
  moreover have "btoa [0xC3] = jstr ''ww==''" "btoa [0xA9] = jstr ''qQ==''" by code_simp+
  ultimately have "base64DecodeUtf8 (btoa [0xC3]) = jstr ''ww==''" "base64DecodeUtf8 (btoa [0xA9]) = jstr ''qQ==''"
    using base64DecodeUtf8_btoa [of "[0xC3]"] base64DecodeUtf8_btoa [of "[0xA9]"] by simp_all
  then show "exec_output (exec_bucket_of ?es (jstr ''c1'')) = jstr ''ww==qQ==''"
    using exec_output_streamed [of ?es "jstr ''c1''"] by (simp add: ex Let_def jstr_append [symmetric])
  have "encode_utf8 [0xE9] = [0xC3, 0xA9]" "js_of_points [0xE9] = [0xE9]"
    by (simp_all add: encode_utf8_def utf8_bytes.simps js_of_points_def utf16_units.simps)
  then show "base64DecodeUtf8 (btoa [0xC3, 0xA9]) = [0xE9]"
    using base64_utf8_text [of "[0xE9]"] by (simp add: scalar_def)
qed

end
