(* ===== verification/Live_Handoff.thy ===== *)
theory Live_Handoff
  imports Hub_Live History_Hook
begin

section \<open>The handoff from the history to the stream\<close>

text \<open>
  When a thread is selected, the effect of \<open>useSessionHistory\<close> opens the stream and starts the
  paging loop at once (\<^verbatim>\<open>web/src/lib/session-history.ts\<close>); on the hub the two requests race with
  the ingestion handlers, which store an event and then publish it (\<^verbatim>\<open>internal/hub/http/ingest.go\<close>).
  A trace lists what the hub does in the order of its effects. The first theorem says that nothing
  is lost when the subscription comes before the first page, the second that a trace in the other
  order loses an event.
\<close>

datatype handoff_action =
    Store "jsstring \<times> 64 word \<times> stored_event"
  | Broker hub_action
  | PageRequest

fun stores :: "handoff_action list \<Rightarrow> (jsstring \<times> 64 word \<times> stored_event) list" where
  "stores [] = []"
| "stores (Store s # tr) = s # stores tr"
| "stores (Broker a # tr) = stores tr"
| "stores (PageRequest # tr) = stores tr"

fun broker_actions :: "handoff_action list \<Rightarrow> hub_action list" where
  "broker_actions [] = []"
| "broker_actions (Store s # tr) = broker_actions tr"
| "broker_actions (Broker a # tr) = a # broker_actions tr"
| "broker_actions (PageRequest # tr) = broker_actions tr"

text \<open>The insertions before the first page request, between the first and the second, and so on.\<close>

fun batches_of :: "handoff_action list \<Rightarrow> (jsstring \<times> 64 word \<times> stored_event) list list" where
  "batches_of [] = [[]]"
| "batches_of (Store s # tr) = (s # hd (batches_of tr)) # tl (batches_of tr)"
| "batches_of (Broker a # tr) = batches_of tr"
| "batches_of (PageRequest # tr) = [] # batches_of tr"

text \<open>A handler publishes an event only after it has stored it.\<close>

fun stored_before_published ::
    "(jsstring \<times> 64 word \<times> stored_event) list \<Rightarrow> handoff_action list \<Rightarrow> bool" where
  "stored_before_published ins [] = True"
| "stored_before_published ins (Store s # tr) = stored_before_published (ins @ [s]) tr"
| "stored_before_published ins (Broker (Publish ev order) # tr) =
     (be_event_id ev \<in> r_event_id ` set (insert_all [] ins) \<and> stored_before_published ins tr)"
| "stored_before_published ins (Broker a # tr) = stored_before_published ins tr"
| "stored_before_published ins (PageRequest # tr) = stored_before_published ins tr"

lemma stores_append [simp]: "stores (xs @ ys) = stores xs @ stores ys"
  by (induction xs rule: stores.induct) simp_all

lemma broker_actions_append [simp]: "broker_actions (xs @ ys) = broker_actions xs @ broker_actions ys"
  by (induction xs rule: broker_actions.induct) simp_all

lemma batches_of_ne [simp]: "batches_of tr \<noteq> []"
  by (induction tr rule: batches_of.induct) simp_all

lemma concat_batches: "concat (batches_of tr) = stores tr"
proof (induction tr rule: batches_of.induct)
  case (2 s tr)
  then show ?case using batches_of_ne [of tr] by (cases "batches_of tr") simp_all
qed simp_all

lemma first_batch:
  "PageRequest \<notin> set xs \<Longrightarrow> hd (batches_of (xs @ ys)) = stores xs @ hd (batches_of ys)"
  by (induction xs rule: stores.induct) simp_all

lemma insert_all_subset: "set rows \<subseteq> set (insert_all rows xs)"
  by (metis Un_upper1 insert_all_rows set_append)

lemma published_ids_stored:
  "stored_before_published ins tr \<Longrightarrow> b \<in> set (published (broker_actions tr)) \<Longrightarrow>
     be_event_id b \<in> r_event_id ` set (insert_all [] (ins @ stores tr))"
proof (induction ins tr rule: stored_before_published.induct)
  case (3 ins ev order tr)
  have "set (insert_all [] ins) \<subseteq> set (insert_all [] (ins @ stores tr))"
    unfolding insert_all_append by (rule insert_all_subset)
  with 3 show ?case by auto
qed auto

lemma stored_before_append:
  "stored_before_published ins (xs @ ys) \<Longrightarrow> stored_before_published ins xs"
  by (induction ins xs rule: stored_before_published.induct) auto

text \<open>The event was stored before the first page, or is published after the subscription.\<close>

lemma stored_or_streamed:
  assumes "tr = tr1 @ Broker (Subscribe c after) # tr2" and "PageRequest \<notin> set tr1"
    and "stored_before_published [] tr"
    and "r \<in> set (session_rows (table_at (batches_of tr) (length (batches_of tr))) t)"
    and "b \<in> set (published (broker_actions tr))" and "be_event_id b = r_event_id r"
  shows "r \<in> set (session_rows (table_at (batches_of tr) 0) t) \<or> b \<in> set (published (broker_actions tr2))"
proof (cases "b \<in> set (published (broker_actions tr1))")
  case True
  let ?T = "table_at (batches_of tr)"
  have "hd (batches_of tr) = stores tr1 @ hd (batches_of tr2)"
    using first_batch [OF assms(2)] by (simp add: assms(1))
  then have t0: "?T 0 = insert_all (insert_all [] (stores tr1)) (hd (batches_of tr2))"
    using batches_of_ne [of tr] by (cases "batches_of tr") (simp_all add: table_at_def insert_all_append)
  have "be_event_id b \<in> r_event_id ` set (insert_all [] (stores tr1))"
    using published_ids_stored [OF stored_before_append True] assms(1,3) by (metis append_Nil)
  then obtain q where q: "q \<in> set (?T 0)" "r_event_id q = r_event_id r"
    unfolding t0 using insert_all_subset [of "insert_all [] (stores tr1)" "hd (batches_of tr2)"] assms(6)
    by fastforce
  have fin: "q \<in> set (?T (length (batches_of tr)))" "r \<in> set (?T (length (batches_of tr)))"
    using q(1) assms(4) inserted.tables_final by (auto simp: session_rows_def)
  then have "q = r" using q(2) by (intro rows_same_id [OF rows_ok_table_at])
  with q(1) assms(4) show ?thesis by (auto simp: session_rows_def)
next
  case False
  with assms(1,5) show ?thesis by auto
qed

subsection \<open>Subscribing first loses nothing\<close>

text \<open>C2. No gap between history and stream, under five conditions. The subscription reaches the hub
  before the first page request (the code does not ensure it, see the next subsection);
  publications do not overlap, before and after the subscription; no channel overflows or is closed
  under a publisher after the subscription; the connection is being served and has nothing left to
  write; and React renders after each change of the hook (\<open>prompt_run\<close>; without it the hook itself
  loses an event, \<open>batched_events_lose_one\<close> in \<open>History_Hook\<close>). Then every event of the thread that
  is stored and published at any time of the trace, before, between or after the page requests, is
  shown once the hook has received the load's result and what the connection wrote. As in the ingestion
  handler, an event is stored before it is published.\<close>

theorem handoff_loses_nothing:
  assumes "strict_collation bin"
    and "tr = tr1 @ Broker (Subscribe c []) # tr2" and "PageRequest \<notin> set tr1"
    and "stored_before_published [] tr"
    and "runs serial (new_hub cap) (broker_actions tr1) h1" and "hub_step h1 (Subscribe c []) h2"
    and "runs (\<lambda>h a. lossless c h a \<and> serial h a) h2 (broker_actions tr2) h3"
    and "conns h3 c = Some k" and "conn_phase k = Serving"
    and "replay_left k @ chan_queue k @ in_flight c h3 = []"
    and "r \<in> set (session_rows (table_at (batches_of tr) (length (batches_of tr))) t)"
    and "b \<in> set (published (broker_actions tr))" and "be_event_id b = r_event_id r"
  shows "\<exists>es. loadSessionHistory lc (hub_events_page bin fmt (table_at (batches_of tr))) t buffered = Some (Inr es)
    \<and> (\<forall>h seen ef. prompt_run lc cache h seen \<longrightarrow> effect_of h = Some ef \<longrightarrow> handoffComplete ef \<longrightarrow>
         event_id ` set es \<subseteq> seen \<longrightarrow> be_event_id ` set (written k) \<subseteq> seen \<longrightarrow>
         r_event_id r \<in> event_id ` set (st_events (visibleState h (Some (ef_thread ef)))))"
proof -
  have ok: "hub_ok h1" by (rule run_hub_ok [OF assms(5)])
  note sub = subscribe_step [OF assms(6) ok]
  have "sending_count h1 \<le> 1"
    by (rule run_sending_count [OF assms(5)]) (simp_all add: new_hub_def sending_count_def)
  then have "sending_count h2 \<le> 1"
    by (rule sending_count_step [OF assms(6), rotated]) (simp add: serial_def)
  from run_delivers_in_order [OF assms(7) hub_ok_step [OF assms(6) ok] sub(1) this assms(8,9)]
  have w: "written k = published (broker_actions tr2)"
    using assms(10) by (simp add: stream_def sub(2) subscribe_replay_def)
  have "hub_tables (table_at (batches_of tr)) (length (batches_of tr)) bin"
    by (rule hub_tables.intro) (rule inserted.growing_tables_axioms assms(1))+
  from hub_tables.history_loaded [OF this, of lc fmt t buffered] obtain es where es:
    "loadSessionHistory lc (hub_events_page bin fmt (table_at (batches_of tr))) t buffered
       = Some (Inr (mergeSessionEvents lc [es, buffered]))"
    "r_event_id ` set (session_rows (table_at (batches_of tr) 0) t) \<subseteq> event_id ` set es" by blast
  have "r_event_id r \<in> event_id ` set (mergeSessionEvents lc [es, buffered]) \<union> be_event_id ` set (written k)"
    using stored_or_streamed [OF assms(2-4,11-13)]
  proof
    assume "r \<in> set (session_rows (table_at (batches_of tr) 0) t)"
    with es(2) merge_ids [of lc "[es, buffered]"] show ?thesis by auto
  next
    assume "b \<in> set (published (broker_actions tr2))"
    then have "be_event_id b \<in> be_event_id ` set (written k)" unfolding w by (rule imageI)
    with assms(13) show ?thesis by simp
  qed
  then show ?thesis
    using es(1) delivered_held_shown [OF prompt_run_held] by (intro exI conjI allI impI) (simp, blast)
qed

text \<open>A trace with the subscription first: one event before everything, one after the page request.\<close>

definition store_of :: "string \<Rightarrow> handoff_action" where
  "store_of i = Store (jstr ''0a'', 7, sample_stored i 5)"

definition publication_of :: "string \<Rightarrow> nat list \<Rightarrow> handoff_action" where
  "publication_of i order = Broker (Publish (sample_broker_event i ''th'') order)"

lemmas handoff_eval = store_of_def publication_of_def sample_stored_def insert_all_def
  AppendEventReturningID_def nullString_def Let_def

definition sample_handoff :: "handoff_action list" where
  "sample_handoff = [store_of ''e1'', publication_of ''e1'' [], Broker (Finish 0), Broker (Subscribe 7 []),
     PageRequest, store_of ''e2'', publication_of ''e2'' [7], Broker (Send 1), Broker (Finish 1),
     Broker (WriteLive 7)]"

lemma sample_handoff_rows:
  "{jstr ''e1'', jstr ''e2''} \<subseteq> r_event_id ` set (session_rows
     (table_at (batches_of sample_handoff) (length (batches_of sample_handoff))) (jstr ''th''))"
  by (simp add: sample_handoff_def table_at_def handoff_eval session_rows_def)

lemma handoff_loses_nothing_witness:
  "\<exists>es. loadSessionHistory compare_units (hub_events_page compare_units (\<lambda>w. show_int (sint w))
       (table_at (batches_of sample_handoff))) (jstr ''th'') [] = Some (Inr es)
    \<and> (\<forall>h seen ef. prompt_run compare_units [] h seen \<longrightarrow> effect_of h = Some ef \<longrightarrow> handoffComplete ef \<longrightarrow>
         event_id ` set es \<subseteq> seen \<longrightarrow> jstr ''e2'' \<in> seen \<longrightarrow>
         jstr ''e2'' \<in> event_id ` set (st_events (visibleState h (Some (ef_thread ef)))))"
proof -
  let ?tr1 = "take 3 sample_handoff" and ?tr2 = "drop 4 sample_handoff"
  let ?h1 = "the (hub_run serial (new_hub 4) (broker_actions ?tr1))"
  let ?h2 = "the (hub_exec (Subscribe 7 []) ?h1)"
  let ?P = "\<lambda>h a. lossless 7 h a \<and> serial h a"
  let ?h3 = "the (hub_run ?P ?h2 (broker_actions ?tr2))"
  have tr: "sample_handoff = ?tr1 @ Broker (Subscribe 7 []) # ?tr2" "PageRequest \<notin> set ?tr1"
    by (simp_all add: sample_handoff_def store_of_def publication_of_def)
  have ok: "stored_before_published [] sample_handoff"
    by (simp add: sample_handoff_def handoff_eval)
  have pub: "sample_broker_event ''e2'' ''th'' \<in> set (published (broker_actions sample_handoff))"
    by (simp add: sample_handoff_def store_of_def publication_of_def)
  have runs: "hub_run serial (new_hub 4) (broker_actions ?tr1) = Some ?h1"
      "hub_exec (Subscribe 7 []) ?h1 = Some ?h2" "hub_run ?P ?h2 (broker_actions ?tr2) = Some ?h3"
    and k: "conns ?h3 7 = Some \<lparr>chan_queue = [], replay_left = [],
      written = [sample_broker_event ''e2'' ''th''], conn_phase = Serving\<rparr>" and fl: "in_flight 7 ?h3 = []"
    by (simp_all add: sample_handoff_def store_of_def publication_of_def hub_eval in_flight_def)
  obtain r where r: "r \<in> set (session_rows
     (table_at (batches_of sample_handoff) (length (batches_of sample_handoff))) (jstr ''th''))"
     "r_event_id r = jstr ''e2''" using sample_handoff_rows by auto
  let ?k = "\<lparr>chan_queue = [], replay_left = [], written = [sample_broker_event ''e2'' ''th''],
    conn_phase = Serving\<rparr>"
  have "\<exists>es. loadSessionHistory compare_units (hub_events_page compare_units (\<lambda>w. show_int (sint w))
       (table_at (batches_of sample_handoff))) (jstr ''th'') [] = Some (Inr es)
    \<and> (\<forall>h seen ef. prompt_run compare_units [] h seen \<longrightarrow> effect_of h = Some ef \<longrightarrow> handoffComplete ef \<longrightarrow>
         event_id ` set es \<subseteq> seen \<longrightarrow> be_event_id ` set (written ?k) \<subseteq> seen \<longrightarrow>
         r_event_id r \<in> event_id ` set (st_events (visibleState h (Some (ef_thread ef)))))"
    by (rule handoff_loses_nothing [OF units.strict_collation_axioms tr ok hub_run_sound [OF runs(1)]
      hub_step_iff_exec [THEN iffD2, OF runs(2)] hub_run_sound [OF runs(3)] k _ _ r(1) pub])
      (simp_all add: fl r(2) del: hub_exec.simps hub_run.simps)
  then show ?thesis by (simp add: r(2))
qed

subsection \<open>The other order loses an event\<close>

text \<open>C29. The code does not wait for the subscription before it reads the first page, and on the first
  load it has no event to resume after: there is a trace, without overlapping publications, overflow
  or closed channels, in which an event that is stored and published between the page request and
  the subscription is in the hub's table, but neither in the loaded history nor ever sent to the
  stream, which is open and idle.\<close>

theorem unordered_handoff_loses_event:
  "\<exists>tr h k. stored_before_published [] tr
    \<and> runs (\<lambda>h a. lossless 7 h a \<and> serial h a) (new_hub 4) (broker_actions tr) h
    \<and> published (broker_actions tr) = [sample_broker_event ''e1'' ''th'']
    \<and> conns h 7 = Some k \<and> conn_phase k = Serving \<and> stream k @ in_flight 7 h = []
    \<and> jstr ''e1'' \<in> r_event_id ` set (session_rows (table_at (batches_of tr) (length (batches_of tr))) (jstr ''th''))
    \<and> loadSessionHistory compare_units (hub_events_page compare_units fmt (table_at (batches_of tr)))
        (jstr ''th'') [] = Some (Inr [])"
proof -
  let ?tr = "[PageRequest, store_of ''e1'', publication_of ''e1'' [], Broker (Finish 0), Broker (Subscribe 7 [])]"
  let ?P = "\<lambda>h a. lossless 7 h a \<and> serial h a"
  let ?h = "the (hub_run ?P (new_hub 4) (broker_actions ?tr))"
  let ?T = "table_at (batches_of ?tr)"
  have run: "hub_run ?P (new_hub 4) (broker_actions ?tr) = Some ?h"
    and k: "conns ?h 7 = Some \<lparr>chan_queue = [], replay_left = [], written = [], conn_phase = Serving\<rparr>"
    and fl: "in_flight 7 ?h = []"
    by (simp_all add: store_of_def publication_of_def hub_eval in_flight_def)
  have "page_rows compare_units (?T 0) (jstr ''th'') None = []"
    by (simp add: page_rows_def session_rows_def table_at_def store_of_def publication_of_def insert_all_def)
  then have page: "hub_events_page compare_units fmt ?T 0 (jstr ''th'') (page_request_for None) =
      Inr \<lparr>items = [], next_cursor = None\<rparr>"
    using hub_page [OF units.collation_axioms _ refl, of None fmt ?T 0 "jstr ''th''"]
    by (simp add: cursor_ok_def)
  have merge: "mergeSessionEvents compare_units [[], []] = []" by code_simp
  have load: "loadSessionHistory compare_units (hub_events_page compare_units fmt ?T) (jstr ''th'') [] = Some (Inr [])"
    using load_pages_last [where eventsPage = "hub_events_page compare_units fmt ?T", OF page, of "[]"]
    by (simp add: loadSessionHistory_def nonempty_def merge)
  have "stored_before_published [] ?tr" "jstr ''e1'' \<in> r_event_id ` set (session_rows (?T (length (batches_of ?tr))) (jstr ''th''))"
    by (simp_all add: handoff_eval table_at_def session_rows_def)
  with hub_run_sound [OF run] k fl load show ?thesis
    by (intro exI [of _ ?tr] exI [of _ ?h])
      (simp add: stream_def store_of_def publication_of_def del: hub_run.simps)
qed

end
