(* ===== verification/Spec2Isabelle.thy ===== *)
theory Spec2Isabelle
  imports Thread_Types Hub_Paging History_Hook Thread_Selection Hash_Thread Readonly_Runtime
    Workbench_View Hub_Live Workbench Proxy_Envelope App_Shell Fixtures Time_Text
    Proxy_Pipeline Proxy_Start Hub_Sessions Thread_Content Live_Handoff
begin

text \<open>
  \<^bold>\<open>codex-mcp-ui: verification library of the dashboard and of what it relies on.\<close>

  \<^bold>\<open>The program.\<close> A proxy sits between an MCP client and the Codex process. It observes every
  JSON-RPC frame, normalises it and posts it to a hub (Go, \<^verbatim>\<open>src/internal\<close>). The hub stores the event
  in SQLite, derives the rows of sessions and calls, and publishes it to its streams. The dashboard
  (TypeScript, \<^verbatim>\<open>src/web/src\<close>) lists sources and sessions, keeps the selected thread in the location
  hash, loads the thread's history page by page while it is subscribed to the stream, merges both,
  projects the events into a conversation and renders it read-only beside a table of the raw events.
  The library models the dashboard and the parts of the hub and the proxy that its correctness
  depends on; this theory holds the properties that span them.

  \<^bold>\<open>Which theory models what.\<close>

  \<^item> \<open>Prelude\<close>, \<open>Js_Value\<close>, \<open>Js_Sort\<close>: strings as UTF-16 code units, JavaScript maps with insertion
    order, JSON values with truthiness and property access, the stable sort; the locales of
    collations and comparators, interpreted on \<open>compare_units\<close> and on the comparators of the code.
  \<^item> \<open>Events\<close>, \<open>Parts\<close>, \<open>Buckets\<close>, \<open>Streams\<close>, \<open>Text_Decode\<close>, \<open>Messages\<close>, \<open>Header\<close>, \<open>Projection\<close>:
    \<^verbatim>\<open>lib/types.ts\<close> and \<^verbatim>\<open>lib/assistant-projection.ts\<close>, function by function. The state of the loop is
    \<open>projection_state\<close>; \<open>switch_table\<close> and \<open>run_case\<close> are its switch; \<open>projectReadonlyAssistantThread\<close>
    composes loop, buckets, sort and fold. \<open>Bucket_Spec\<close>, \<open>Projection_Account\<close>, \<open>Thread_Properties\<close>
    and \<open>Thread_Types\<close> hold its properties: the bucket maps as functions of the event list, which
    event is shown where, the order, the identifiers and the types of what is shown.
    \<open>Projection_Reference\<close> states the projection without state (\<open>reference_thread\<close>) and proves the
    code equal to it; \<open>Thread_Content\<close> derives what a reader sees from it: the text of messages, of a
    turn that streams, and the output of commands.
  \<^item> \<open>History_Merge\<close>, \<open>History_Load\<close>, \<open>History_Hook\<close>: \<^verbatim>\<open>lib/session-history.ts\<close>. The hook is a state
    machine (\<open>hook_step\<close>) with one action per effect run, event, parse error, settled load and
    updater that React runs; \<open>run_hook\<close> runs a schedule. \<open>Live_Handoff\<close> joins it with the store and the
    broker: traces of insertions, page requests and broker steps in any order.
  \<^item> \<open>Sse\<close>: \<^verbatim>\<open>lib/sse.ts\<close> and the connection states. \<open>Thread_Selection\<close>, \<open>Hash_Thread\<close>:
    \<^verbatim>\<open>lib/thread-selection.ts\<close>, \<^verbatim>\<open>lib/use-hash-thread-id.ts\<close> and the selection functions of
    \<^verbatim>\<open>session-workbench.tsx\<close>. \<open>Readonly_Runtime\<close>: \<^verbatim>\<open>lib/readonly-assistant-runtime.ts\<close> as member tables
    of the facade.
  \<^item> \<open>Workbench_View\<close>, \<open>View_Tree\<close>, \<open>Sidebar_View\<close>, \<open>Table_View\<close>, \<open>Conversation_View\<close>, \<open>Workbench\<close>,
    \<open>Ui_Primitives\<close>, \<open>App_Shell\<close>: \<^verbatim>\<open>lib/utils.ts\<close>, \<^verbatim>\<open>lib/api.ts\<close>, \<^verbatim>\<open>components\<close> and the application
    shell. A component is a function from its properties and local state to a tree of elements
    (\<open>node\<close>) with keys and handlers (\<open>ui_action\<close>); the page is \<open>SessionWorkbench\<close>, a function of the
    query results, the hash, the history and the local state. \<open>Fixtures\<close>: \<^verbatim>\<open>lib/fixtures.ts\<close>.
  \<^item> \<open>Hub_Store\<close>, \<open>Hub_Paging\<close>, \<open>Hub_Sessions\<close>, \<open>Hub_Detail\<close>, \<open>Time_Text\<close>: \<^verbatim>\<open>internal/store/sqlite/store.go\<close> with its
    SQL, \<^verbatim>\<open>internal/hub/http/query.go\<close> and \<^verbatim>\<open>ingest.go\<close>: tables as lists and ordered maps of rows,
    ingestion with everything it derives, registration, the endpoints the dashboard reads, and the
    repair of old databases. \<open>Hub_Admin\<close>: the router with its loopback guard (\<open>serve\<close>, one request),
    the handshake, and the idle watcher as a step relation (\<open>watcher_step\<close>): \<^verbatim>\<open>internal/hub/app.go\<close>,
    \<^verbatim>\<open>router.go\<close>, \<^verbatim>\<open>admin.go\<close>, \<^verbatim>\<open>handshake.go\<close>.
  \<^item> \<open>Hub_Broker\<close>, \<open>Hub_Live\<close>: \<^verbatim>\<open>internal/hub/broker.go\<close>, \<^verbatim>\<open>internal/hub/http/sse.go\<close> and the publication
    in \<^verbatim>\<open>ingest.go\<close>, as a step relation (\<open>hub_step\<close>) over the goroutines of publishers and streams.
  \<^item> \<open>Wire_Format\<close>: the JSON tags of the Go structs that cross the wire against the fields their readers
    declare, \<^verbatim>\<open>internal/hub/api/types.go\<close> against \<^verbatim>\<open>lib/types.ts\<close>.
  \<^item> \<open>Proxy_Envelope\<close>, \<open>Observer_Queue\<close>: \<^verbatim>\<open>internal/proxy/envelope.go\<close>, \<^verbatim>\<open>client_source.go\<close> and
    \<^verbatim>\<open>observer.go\<close>. \<open>Proxy_Bridge\<close>: \<^verbatim>\<open>bridge.go\<close> as a step (\<open>bridge_step\<close>) of two pumps and their
    environment, with the scanner that cuts the bytes into lines, and the arguments of the command line.
    \<open>Proxy_Start\<close>: how a proxy introduces itself (\<^verbatim>\<open>internal/process/metadata.go\<close>, the registration and
    heartbeats of \<^verbatim>\<open>internal/cli/proxy_cmd.go\<close>). \<open>Proxy_Pipeline\<close> composes bridge, observer and hub with
    the posts of \<^verbatim>\<open>hub_client.go\<close>: its state (\<open>pipeline\<close>) is that of the three and the posts in flight, a
    step (\<open>pipeline_step\<close>) is one of any part.

  \<^bold>\<open>What is shown.\<close> End to end: a frame that the bridge forwards and the hub
  accepts is on the screen after the next load, with its words (\<open>forwarded_frame_on_screen\<close>), or through
  a resumed stream (\<open>live_stream_to_screen\<close>, from the frames \<open>writeSSE\<close> writes; publications must not
  overlap, no channel overflow, and React must render after each event), has its row in the raw table
  once the reader opens that tab, and the session of a client whose proxy has introduced itself a button in the
  sidebar that selects it (\<open>proxied_session_in_sidebar\<close>). Between the parts: the hub stores what the bridge
  has forwarded, each frame at most once and all in order while nothing was logged; whatever
  the bridge can do alone it can do while observer and hub stand still, with the queue full; what waits can always be delivered to a hub that answers;
  the page loop against the hub returns and misses nothing under concurrent insertions, the stream
  and the history agree on the record of an event, the JSON means the same on both sides, the merge depends only on the set of records, and
  no schedule of the hook shows an event twice or out of order; when the subscription comes before the
  first page request, publications do not overlap, no channel overflows and React renders after each
  change, history and stream together miss nothing. Within the projection: it equals a
  reference without state, nothing is lost or invented, parts are typed and in order, and texts,
  streams and outputs are shown as they were sent. In the hub and the proxy: bounded memory, the
  sessions table as a function of what was ingested, details that agree with the lists, changes only
  from the machine itself, frames forwarded unchanged and observed first, no loss without a notice.
  Where the code fails its intention, a property or lemma exhibits the run: overlapping
  publications, a stream that closes under a publisher, a load that does not wait for its stream,
  batched updates, times compared as texts, a bridge that does not end with its client, clients that
  share a source because they share a process identifier.

  \<^bold>\<open>Bounds.\<close> No definition uses fuel: the page loop is a \<open>partial_function\<close> into option, and that it
  returns is proved. Constants are those of the code: page limit 500, title 80 bytes, preview 120
  units, ring 512 (256 when not positive), channel 32, ship queue 1024, lines below 4 MiB. Times are 64-bit words.

  \<^bold>\<open>Parameters and hypotheses.\<close> \<open>localeCompare\<close> is a parameter with the laws of a collation (a total
  preorder; strict where identifiers are compared by the store's byte order). \<open>JSON.parse\<close>,
  \<open>JSON.stringify\<close>, \<open>time.Parse\<close>, \<open>time.Format\<close>, \<open>toLocaleString\<close>, SHA-256, \<open>clsx\<close>, \<open>twMerge\<close> and \<open>cva\<close> are
  functions; react-query is given by the results of its queries, React by the schedule of renders and
  updaters, and the assistant-ui runtime by member functions of which the reading ones keep the view. What
  \<open>fetch-event-source\<close> reads from the text of a stream is a function with the behaviour of the event
  stream format on the frames that occur (\<open>reads_event_stream\<close>); which panel the tabs of Radix mount is
  one with their documented behaviour (\<open>radix_tabs\<close>).
  That a JSON text round-trips between the hub and the browser is a hypothesis where it is used.

  \<^bold>\<open>Not modelled.\<close> Class names that do not depend on the state in the trees of the views (the tables of
  \<open>Ui_Primitives\<close> and the Markdown components have theirs), \<^verbatim>\<open>index.css\<close>, the Markdown renderer and the
  Radix and assistant-ui primitives, which are elements. Of the hub: the embedded files, the
  listener, the data directory and failing statements of the SQL engine. Of the proxy: starting
  processes, the calls that inspect the parent (their answers are given), the flags of the command line,
  and time; that a post fails or is handled late is a choice of the pipeline's steps. These are input
  and output around what is modelled.
\<close>

section \<open>From the hub to the screen\<close>

text \<open>The state of the hook after a thread was selected, its history was loaded and React rendered.\<close>

definition after_load ::
    "(jsstring \<Rightarrow> jsstring \<Rightarrow> int) \<Rightarrow> jsstring \<Rightarrow> (jsstring + event_record list) \<Rightarrow> hook" where
  "after_load lc t r = run_hook lc [Switch (Some t), Settled 0 r, RunUpdater]"

lemma after_load_events:
  assumes "t \<noteq> []"
  shows "st_events (visibleState (after_load lc t (Inr es)) (Some t)) = mergeSessionEvents lc [[], es, []]"
  using assms by (simp add: after_load_def run_hook_def hook_init_def Let_def updateEvents_def
      visibleState_def nonempty_def)

lemma row_shown_from_tables:
  assumes "growing_tables tables final" and "strict_collation bin" and "t \<noteq> []"
    and "r \<in> set (session_rows (tables 0) t)"
  shows "\<exists>es. loadSessionHistory lc (hub_events_page bin fmt tables) t [] = Some (Inr es)
    \<and> row_dto fmt r \<in> set (st_events (visibleState (after_load lc t (Inr es)) (Some t)))"
proof -
  have "hub_tables tables final bin" by (rule hub_tables.intro) (rule assms)+
  from hub_tables.stored_in_history [OF this assms(4), of lc fmt] obtain es where es:
    "loadSessionHistory lc (hub_events_page bin fmt tables) t [] = Some (Inr es)"
    "List.find (\<lambda>e. event_id e = r_event_id r) es = Some (row_dto fmt r)" by blast
  then have "row_dto fmt r \<in> set (mergeSessionEvents lc [[], es, []])" by (simp add: set_merge)
  with es(1) show ?thesis by (simp add: after_load_events [OF assms(3)])
qed

lemma row_dto_shown:
  assumes "strict_collation bin" and "t \<noteq> []" and "r \<in> set (session_rows (table_at batches 0) t)"
  shows "\<exists>es. loadSessionHistory lc (hub_events_page bin fmt (table_at batches)) t [] = Some (Inr es)
    \<and> row_dto fmt r \<in> set (st_events (visibleState (after_load lc t (Inr es)) (Some t)))"
  by (rule row_shown_from_tables [OF inserted.growing_tables_axioms assms])

lemma stored_on_screen:
  assumes "strict_collation bin" and "t \<noteq> []" and "r \<in> set (session_rows (table_at batches 0) t)"
    and "\<not> ignored (row_dto fmt r)" and "r_event_type r \<noteq> []"
  shows "\<exists>es shown. loadSessionHistory lc (hub_events_page bin fmt (table_at batches)) t [] = Some (Inr es)
    \<and> shown = st_events (visibleState (after_load lc t (Inr es)) (Some t))
    \<and> (r_event_id r \<in> shown_ids (messages (projectReadonlyAssistantThread lc d shown))
       \<or> is_delta (row_dto fmt r) \<or> superseded shown (row_dto fmt r))"
proof -
  have "event_type (row_dto fmt r) = Some (r_event_type r)"
    using assms(5) by (simp add: row_dto_def toEventDTO_def eventRecordFromEventRow_def nullString_def)
  with row_dto_shown [OF assms(1-3), of lc fmt] event_on_screen [OF _ assms(4), of _ lc d] assms(5)
  show ?thesis by fastforce
qed

text \<open>From the hub to the screen: after the history of a thread was loaded, every event of the
  thread that was in the hub's table when the load began is shown by the projected thread, with its
  record as stored, unless its category is ignored, it has no type, it is a stream delta, or a later
  begin or end event of the same call took its place.\<close>

theorem hub_to_screen:
  assumes "strict_collation bin" and "t \<noteq> []" and "r \<in> set (session_rows (table_at batches 0) t)"
    and "\<not> ignored (row_dto fmt r)" and "r_event_type r \<noteq> []"
  shows "\<exists>es shown. loadSessionHistory lc (hub_events_page bin fmt (table_at batches)) t [] = Some (Inr es)
    \<and> shown = st_events (visibleState (after_load lc t (Inr es)) (Some t))
    \<and> (r_event_id r \<in> shown_ids (messages (projectReadonlyAssistantThread lc d shown))
       \<or> is_delta (row_dto fmt r) \<or> superseded shown (row_dto fmt r))"
  by (rule stored_on_screen [OF assms])

lemma hub_to_screen_witness:
  "\<exists>es shown. loadSessionHistory compare_units
       (hub_events_page compare_units (\<lambda>w. show_int (sint w)) (table_at sample_batches)) (jstr ''th'') []
       = Some (Inr es)
    \<and> shown = st_events (visibleState (after_load compare_units (jstr ''th'') (Inr es)) (Some (jstr ''th'')))
    \<and> (r_event_id (hd (table_at sample_batches 0)) \<in> shown_ids (messages
          (projectReadonlyAssistantThread compare_units sample_detail shown))
       \<or> is_delta (row_dto (\<lambda>w. show_int (sint w)) (hd (table_at sample_batches 0)))
       \<or> superseded shown (row_dto (\<lambda>w. show_int (sint w)) (hd (table_at sample_batches 0))))"
  by (rule hub_to_screen [OF units.strict_collation_axioms])
    (simp_all add: table_at_def sample_batches_def insert_all_def AppendEventReturningID_def
      sample_stored_def session_rows_def nullString_def newID_def Let_def ignored_def row_dto_def
      toEventDTO_def eventRecordFromEventRow_def categoryForEvent_def codex_event_types_def)

text \<open>The history that the load returns holds the event, with the record and message of the frame.\<close>

lemma frame_in_history:
  assumes "frame = JObj ps" and "field frame ''method'' = JStr (jstr ''codex/event'')"
    and "decode_codex (field frame ''params'') = Some p" and "cp_threadId p \<noteq> []"
    and "is_object (field (field frame ''params'') ''msg'')"
    and "eventsHandler parse fmt hex now (OnFrame raw_text time inst key dir (Some frame)) rows
      = (Inr b, table_at batches 0)"
    and "now \<noteq> 0" and "strict_collation bin"
  shows "\<exists>es shown. loadSessionHistory lc (hub_events_page bin fmt (table_at batches)) (cp_threadId p) []
      = Some (Inr es)
    \<and> shown = st_events (visibleState (after_load lc (cp_threadId p) (Inr es)) (Some (cp_threadId p)))
    \<and> wire_event b \<in> set shown \<and> distinct (map event_id shown) \<and> \<not> ignored (wire_event b)
    \<and> msgOf (wire_event b) = field (field frame ''params'') ''msg''
    \<and> event_type (wire_event b) = Some (if cp_type p = [] then jstr ''codex/event'' else cp_type p)"
proof -
  from codex_event_reaches_its_thread [OF assms(1-7)] obtain r where
    r: "r \<in> set (session_rows (table_at batches 0) (cp_threadId p))" "row_dto fmt r = wire_event b"
      "\<not> ignored (wire_event b)" "msgOf (wire_event b) = field (field frame ''params'') ''msg''"
    and ty: "event_type (wire_event b) = Some (if cp_type p = [] then jstr ''codex/event'' else cp_type p)"
    by fastforce
  from row_dto_shown [OF assms(8,4) r(1), of lc fmt] r(2-4) ty after_load_events [OF assms(4), of lc]
  show ?thesis by (fastforce simp: distinct_merge)
qed

text \<open>From the codex process to the screen: a \<open>codex/event\<close> notification that the proxy observes and the
  hub ingests before the history of its thread is loaded is in the thread with the record that the
  stream wrote, its message is the one in the frame, and the projected thread shows it, unless it is
  a stream delta or a later begin or end event of the same call took its place.\<close>

lemma frame_to_screen:
  assumes "frame = JObj ps" and "field frame ''method'' = JStr (jstr ''codex/event'')"
    and "decode_codex (field frame ''params'') = Some p" and "cp_threadId p \<noteq> []"
    and "is_object (field (field frame ''params'') ''msg'')"
    and "eventsHandler parse fmt hex now (OnFrame raw_text time inst key dir (Some frame)) rows
      = (Inr b, table_at batches 0)"
    and "now \<noteq> 0" and "strict_collation bin"
  shows "\<exists>es shown. loadSessionHistory lc (hub_events_page bin fmt (table_at batches)) (cp_threadId p) []
      = Some (Inr es)
    \<and> shown = st_events (visibleState (after_load lc (cp_threadId p) (Inr es)) (Some (cp_threadId p)))
    \<and> wire_event b \<in> set shown \<and> msgOf (wire_event b) = field (field frame ''params'') ''msg''
    \<and> (be_event_id b \<in> shown_ids (messages (projectReadonlyAssistantThread lc d shown))
       \<or> is_delta (wire_event b) \<or> superseded shown (wire_event b))"
proof -
  from frame_in_history [OF assms, of lc] obtain es shown where
    "loadSessionHistory lc (hub_events_page bin fmt (table_at batches)) (cp_threadId p) [] = Some (Inr es)"
    "shown = st_events (visibleState (after_load lc (cp_threadId p) (Inr es)) (Some (cp_threadId p)))"
    and e: "wire_event b \<in> set shown" "\<not> ignored (wire_event b)"
      "msgOf (wire_event b) = field (field frame ''params'') ''msg''"
      "event_type (wire_event b) = Some (if cp_type p = [] then jstr ''codex/event'' else cp_type p)"
    by blast
  with event_on_screen [OF e(1,2), of lc d] show ?thesis by (auto simp: event_id_wire)
qed

definition sample_frame :: js where
  "sample_frame = JObj [(jstr ''method'', JStr (jstr ''codex/event'')), (jstr ''params'', JObj
     [(jstr ''_meta'', JObj [(jstr ''threadId'', JStr (jstr ''th''))]),
      (jstr ''msg'', JObj [(jstr ''type'', JStr (jstr ''agent_message'')), (jstr ''message'', JStr (jstr ''Hi''))])])]"

text \<open>What the proxy sends to the hub for the frame, and the record the hub inserts for it.\<close>

definition sample_envelope :: ingest_event where
  "sample_envelope = OnFrame (\<lambda>_. []) [] (jstr ''proxy-1'') (jstr ''src'') ''downstream'' (Some sample_frame)"

definition sample_insertion :: "(jsstring \<times> 64 word \<times> stored_event) list list" where
  "sample_insertion = [[(jstr ''0a'', 7, ingest_record (\<lambda>_. None) 7 sample_envelope)]]"

lemma sample_ingested:
  obtains b where
    "eventsHandler (\<lambda>_. None) (\<lambda>w. show_int (sint w)) (jstr ''0a'') 7 sample_envelope [] = (Inr b, table_at sample_insertion 0)"
proof -
  have "in_payload sample_envelope \<noteq> JUndef" by (simp add: sample_envelope_def sample_frame_def)
  then show ?thesis
    using that by (simp add: eventsHandler_def AppendEventReturningID_def table_at_def insert_all_def
        sample_insertion_def ingest_record_def Let_def)
qed

lemma frame_to_screen_witness:
  "\<exists>es e. loadSessionHistory compare_units
       (hub_events_page compare_units (\<lambda>w. show_int (sint w)) (table_at sample_insertion)) (jstr ''th'') []
       = Some (Inr es)
    \<and> e \<in> set (st_events (visibleState (after_load compare_units (jstr ''th'') (Inr es)) (Some (jstr ''th''))))
    \<and> str (msgOf e) ''message'' = Some (jstr ''Hi'')"
proof -
  let ?fmt = "\<lambda>w. show_int (sint w)"
  obtain b where "eventsHandler (\<lambda>_. None) ?fmt (jstr ''0a'') 7 sample_envelope [] = (Inr b, table_at sample_insertion 0)"
    by (rule sample_ingested)
  note run = this [unfolded sample_envelope_def]
  obtain p where p: "decode_codex (field sample_frame ''params'') = Some p" "cp_threadId p = jstr ''th''"
    by (simp add: sample_frame_def decode_codex_def opt_bind2_def unmarshal_struct_def decode_struct_def
        decode_string_def field_def)
  have "\<exists>es shown. loadSessionHistory compare_units (hub_events_page compare_units ?fmt (table_at sample_insertion))
      (cp_threadId p) [] = Some (Inr es)
    \<and> shown = st_events (visibleState (after_load compare_units (cp_threadId p) (Inr es)) (Some (cp_threadId p)))
    \<and> wire_event b \<in> set shown \<and> msgOf (wire_event b) = field (field sample_frame ''params'') ''msg''
    \<and> (be_event_id b \<in> shown_ids (messages (projectReadonlyAssistantThread compare_units sample_detail shown))
       \<or> is_delta (wire_event b) \<or> superseded shown (wire_event b))"
    by (rule frame_to_screen [OF sample_frame_def _ p(1) _ _ run _ units.strict_collation_axioms])
      (simp_all add: p(2) sample_frame_def field_def)
  then obtain es where "loadSessionHistory compare_units
      (hub_events_page compare_units ?fmt (table_at sample_insertion)) (jstr ''th'') [] = Some (Inr es)"
    "wire_event b \<in> set (st_events (visibleState (after_load compare_units (jstr ''th'') (Inr es)) (Some (jstr ''th''))))"
    "msgOf (wire_event b) = field (field sample_frame ''params'') ''msg''"
    unfolding p(2) by blast
  moreover from this(3) have "str (msgOf (wire_event b)) ''message'' = Some (jstr ''Hi'')"
    by (simp add: sample_frame_def str_def field_def)
  ultimately show ?thesis by blast
qed

text \<open>The words of the conversation reach the screen: when the frame is a user message, an agent message
  or a reasoning event, the thread that is shown after the load has exactly one text part that lists
  the event, and its text, phase and citation are those of the message in the frame.\<close>

lemma frame_text_to_screen:
  assumes "frame = JObj ps" and "field frame ''method'' = JStr (jstr ''codex/event'')"
    and "decode_codex (field frame ''params'') = Some p" and "cp_threadId p \<noteq> []"
    and "is_object (field (field frame ''params'') ''msg'')"
    and "eventsHandler parse fmt hex now (OnFrame raw_text time inst key dir (Some frame)) rows
      = (Inr b, table_at batches 0)"
    and "now \<noteq> 0" and "strict_collation bin"
    and "switch_on (Some (cp_type p)) = Some c" and "verbatim_parts c (wire_event b) \<noteq> []"
    and "c = CUserMessage \<longrightarrow> trim (message_text (wire_event b)) \<noteq> []"
  shows "\<exists>es shown. loadSessionHistory lc (hub_events_page bin fmt (table_at batches)) (cp_threadId p) []
      = Some (Inr es)
    \<and> shown = st_events (visibleState (after_load lc (cp_threadId p) (Inr es)) (Some (cp_threadId p)))
    \<and> filter is_text (parts_listing (be_event_id b) (projectReadonlyAssistantThread lc d shown))
        = verbatim_parts c (wire_event b)
    \<and> msgOf (wire_event b) = field (field frame ''params'') ''msg''"
proof -
  from frame_in_history [OF assms(1-8), of lc] obtain es shown where
    h: "loadSessionHistory lc (hub_events_page bin fmt (table_at batches)) (cp_threadId p) [] = Some (Inr es)"
    "shown = st_events (visibleState (after_load lc (cp_threadId p) (Inr es)) (Some (cp_threadId p)))"
    and e: "wire_event b \<in> set shown" "distinct (map event_id shown)" "\<not> ignored (wire_event b)"
      "msgOf (wire_event b) = field (field frame ''params'') ''msg''"
      "event_type (wire_event b) = Some (if cp_type p = [] then jstr ''codex/event'' else cp_type p)"
    by blast
  have "cp_type p \<noteq> []"
  proof
    assume "cp_type p = []"
    moreover have "switch_on (Some []) = None" by code_simp
    ultimately show False using assms(9) by simp
  qed
  then have "case_of (wire_event b) = Some c" using e(3,5) assms(9) by (simp add: case_of_def)
  from verbatim_text [OF e(2,1) this assms(10,11), of lc d] h e(4) show ?thesis
    by (auto simp: event_id_wire)
qed

lemma frame_text_to_screen_witness:
  "\<exists>es (b :: broker_event). loadSessionHistory compare_units
       (hub_events_page compare_units (\<lambda>w. show_int (sint w)) (table_at sample_insertion)) (jstr ''th'') []
       = Some (Inr es)
    \<and> filter is_text (parts_listing (be_event_id b) (projectReadonlyAssistantThread compare_units sample_detail
         (st_events (visibleState (after_load compare_units (jstr ''th'') (Inr es)) (Some (jstr ''th''))))))
       = [TextPart (jstr ''Hi'') None JUndef [be_event_id b]]"
proof -
  let ?fmt = "\<lambda>w. show_int (sint w)"
  let ?m = "field (field sample_frame ''params'') ''msg''"
  obtain b where b: "eventsHandler (\<lambda>_. None) ?fmt (jstr ''0a'') 7 sample_envelope [] = (Inr b, table_at sample_insertion 0)"
    by (rule sample_ingested)
  note run = this [unfolded sample_envelope_def]
  obtain p where p: "decode_codex (field sample_frame ''params'') = Some p" "cp_threadId p = jstr ''th''"
      "cp_type p = jstr ''agent_message''"
    by (simp add: sample_frame_def decode_codex_def opt_bind2_def unmarshal_struct_def decode_struct_def
        decode_string_def field_def)
  have sw: "switch_on (Some (cp_type p)) = Some CAgentMessage"
    by (simp add: p(3) switch_on_def map_of_jstr switch_table_def)
  have "\<exists>es shown. loadSessionHistory compare_units (hub_events_page compare_units ?fmt (table_at sample_insertion))
      (cp_threadId p) [] = Some (Inr es)
    \<and> shown = st_events (visibleState (after_load compare_units (cp_threadId p) (Inr es)) (Some (cp_threadId p)))
    \<and> filter is_text (parts_listing (be_event_id b) (projectReadonlyAssistantThread compare_units sample_detail shown))
        = verbatim_parts CAgentMessage (wire_event b)
    \<and> msgOf (wire_event b) = ?m"
    by (rule frame_text_to_screen [OF sample_frame_def _ p(1) _ _ run _ units.strict_collation_axioms sw])
      (simp_all add: p(2), simp_all add: sample_frame_def field_def)
  then obtain es where
    es: "loadSessionHistory compare_units (hub_events_page compare_units ?fmt (table_at sample_insertion)) (jstr ''th'') []
      = Some (Inr es)"
    "filter is_text (parts_listing (be_event_id b) (projectReadonlyAssistantThread compare_units sample_detail
         (st_events (visibleState (after_load compare_units (jstr ''th'') (Inr es)) (Some (jstr ''th''))))))
       = verbatim_parts CAgentMessage (wire_event b)"
    "msgOf (wire_event b) = ?m"
    unfolding p(2) by blast
  have "message_text (wire_event b) = jstr ''Hi''" "str (msgOf (wire_event b)) ''phase'' = None"
      "field (msgOf (wire_event b)) ''memory_citation'' = JUndef"
    by (simp_all add: message_text_def es(3)) (simp_all add: sample_frame_def field_def str_def)
  then have "verbatim_parts CAgentMessage (wire_event b) = [TextPart (jstr ''Hi'') None JUndef [be_event_id b]]"
    by simp
  with es(2) have "filter is_text (parts_listing (be_event_id b) (projectReadonlyAssistantThread compare_units
      sample_detail (st_events (visibleState (after_load compare_units (jstr ''th'') (Inr es)) (Some (jstr ''th''))))))
       = [TextPart (jstr ''Hi'') None JUndef [be_event_id b]]" by (rule trans)
  with es(1) show ?thesis by (intro exI [of _ es] exI [of _ b] conjI)
qed

section \<open>From the bridge to the screen\<close>

text \<open>The tables that the hub of a pipeline holds when the page requests of a load are answered. The pipeline
  goes on between the requests, and the table is at rest from some request on.\<close>

definition tables_of :: "(nat \<Rightarrow> pipeline) \<Rightarrow> nat \<Rightarrow> event_row list" where
  "tables_of ps n = app_table (pl_app (ps n))"

definition keeps_running :: "proxy_setup \<Rightarrow> (nat \<Rightarrow> pipeline) \<Rightarrow> nat \<Rightarrow> bool" where
  "keeps_running u ps final \<longleftrightarrow> (\<forall>n. \<exists>as. pipeline_exec u as (ps n) = Some (ps (Suc n)))
     \<and> (\<forall>n. final \<le> n \<longrightarrow> tables_of ps n = tables_of ps final)"

lemma pipeline_tables_grow:
  assumes "keeps_running u ps final" and "ha_db (pl_app (ps 0)) \<noteq> None" and "rows_ok (tables_of ps 0)"
  shows "growing_tables (tables_of ps) final"
proof -
  have step: "\<exists>new. rows_added (pl_app (ps n)) (pl_app (ps (Suc n))) new" for n
    using assms(1) pipeline_exec_rows unfolding keeps_running_def by blast
  have ok: "ha_db (pl_app (ps n)) \<noteq> None \<and> rows_ok (tables_of ps n)" for n
  proof (induction n)
    case (Suc n)
    obtain new where new: "rows_added (pl_app (ps n)) (pl_app (ps (Suc n))) new" using step by blast
    with Suc rows_added_None [OF new] show ?case by (simp add: rows_added_def tables_of_def)
  qed (use assms(2,3) in simp)
  have grow: "set (tables_of ps n) \<subseteq> set (tables_of ps (Suc n))" for n
    using step [of n] app_table_added ok [of n] by (fastforce simp: tables_of_def)
  have "set (tables_of ps n) \<subseteq> set (tables_of ps final)" for n
  proof (cases "final \<le> n")
    case False
    then show ?thesis using lift_Suc_mono_le [of "\<lambda>n. set (tables_of ps n)" n final] grow by simp
  next
    case True
    then have "tables_of ps n = tables_of ps final" using assms(1) unfolding keeps_running_def by blast
    then show ?thesis by simp
  qed
  with ok grow show ?thesis by unfold_locales auto
qed

text \<open>C1. From the bridge to the screen: when Codex sends a \<open>codex/event\<close> notification, the bridge has
  forwarded it and the hub accepted its envelope, whatever happened before to bridge, observer and hub and
  whatever they do while the pages are read, then the load of the history of its thread returns, the
  thread holds an event whose message is the one in the frame, which the projected thread shows
  unless it is a stream delta or a later begin or end event of the same call took its place, and when
  it is a message of the user or the agent or reasoning, its words are shown as they are in the frame.\<close>

theorem forwarded_frame_on_screen:
  assumes "pipeline_run u app tr (ps 0)" and "ha_db app = Some db" and "rows_ok (db_events db)"
    and "keeps_running u ps final"
    and "envelope u (dir, bytes) stamp \<in> set (pl_ingested (ps 0))" and "bytes \<noteq> []"
    and "su_json u bytes = Some frame"
    and "frame = JObj fs" and "field frame ''method'' = JStr (jstr ''codex/event'')"
    and "decode_codex (field frame ''params'') = Some q" and "cp_threadId q \<noteq> []"
    and "is_object (field (field frame ''params'') ''msg'')" and "strict_collation bin"
  shows "\<exists>es shown e. loadSessionHistory lc (hub_events_page bin fmt (tables_of ps)) (cp_threadId q) [] = Some (Inr es)
    \<and> shown = st_events (visibleState (after_load lc (cp_threadId q) (Inr es)) (Some (cp_threadId q)))
    \<and> e \<in> set shown \<and> msgOf e = field (field frame ''params'') ''msg''
    \<and> (event_id e \<in> shown_ids (messages (projectReadonlyAssistantThread lc d shown))
       \<or> is_delta e \<or> superseded shown e)
    \<and> (\<forall>c. switch_on (Some (cp_type q)) = Some c \<and> verbatim_parts c e \<noteq> []
         \<and> (c = CUserMessage \<longrightarrow> trim (message_text e) \<noteq> [])
         \<longrightarrow> filter is_text (parts_listing (event_id e) (projectReadonlyAssistantThread lc d shown))
           = verbatim_parts c e)"
proof -
  obtain new rs where rows: "rows_added app (pl_app (ps 0)) new" "subseq rs new"
      "list_all2 stored_as (pl_ingested (ps 0)) rs"
    using pipeline_invariant [OF assms(1)] by (auto simp: stored_ok_def)
  from rows(3) assms(5) obtain r where r: "r \<in> set rs" "stored_as (envelope u (dir, bytes) stamp) r"
    by (metis in_set_conv_nth list_all2_conv_all_nth)
  have env: "envelope u (dir, bytes) stamp
      = OnFrame (su_raw u) stamp (su_instance u) (su_key u) (flow_name dir) (Some frame)"
    using assms(6,7) by (simp add: envelope_def frame_json_def)
  note row = codex_row [OF assms(8-12) r(2) [unfolded env]]
  have table: "tables_of ps 0 = db_events db @ new" "rows_ok (tables_of ps 0)" "ha_db (pl_app (ps 0)) \<noteq> None"
    using app_table_added [OF rows(1)] rows(1) rows_added_None [OF rows(1)] assms(2,3)
    by (simp_all add: tables_of_def rows_added_def app_table_def)
  have "r \<in> set (session_rows (tables_of ps 0) (cp_threadId q))"
    using r(1) rows(2) row(1) assms(11) list_emb_set [OF rows(2) r(1)] by (auto simp: session_rows_def table(1))
  from row_shown_from_tables [OF pipeline_tables_grow [OF assms(4) table(3,2)] assms(13,11) this]
  obtain es where es: "loadSessionHistory lc (hub_events_page bin fmt (tables_of ps)) (cp_threadId q) [] = Some (Inr es)"
      "row_dto fmt r \<in> set (st_events (visibleState (after_load lc (cp_threadId q) (Inr es)) (Some (cp_threadId q))))"
    by blast
  let ?shown = "st_events (visibleState (after_load lc (cp_threadId q) (Inr es)) (Some (cp_threadId q)))"
  have "distinct (map event_id ?shown)" by (simp add: after_load_events [OF assms(11)] distinct_merge)
  note words = verbatim_text [OF this es(2)]
  have "case_of (row_dto fmt r) = Some c" if "switch_on (Some (cp_type q)) = Some c" for c
  proof -
    have "switch_on (Some []) = None" by code_simp
    with that have "cp_type q \<noteq> []" by auto
    with that row(2,4) show ?thesis by (simp add: case_of_def)
  qed
  with words have "\<forall>c. switch_on (Some (cp_type q)) = Some c \<and> verbatim_parts c (row_dto fmt r) \<noteq> []
      \<and> (c = CUserMessage \<longrightarrow> trim (message_text (row_dto fmt r)) \<noteq> [])
      \<longrightarrow> filter is_text (parts_listing (event_id (row_dto fmt r)) (projectReadonlyAssistantThread lc d ?shown))
        = verbatim_parts c (row_dto fmt r)" by blast
  moreover have "opt_default (event_type (row_dto fmt r)) [] \<noteq> []" by (simp add: row(4))
  from event_on_screen [OF es(2) row(2) this, of lc d] row(3) es
  have "row_dto fmt r \<in> set ?shown \<and> msgOf (row_dto fmt r) = field (field frame ''params'') ''msg''
    \<and> (event_id (row_dto fmt r) \<in> shown_ids (messages (projectReadonlyAssistantThread lc d ?shown))
       \<or> is_delta (row_dto fmt r) \<or> superseded ?shown (row_dto fmt r))" by blast
  ultimately show ?thesis using es(1) by blast
qed

lemma forwarded_frame_on_screen_witness:
  "\<exists>p es (e :: event_record) shown. pipeline_run (sample_setup sample_frame) sample_app sample_trace p
    \<and> loadSessionHistory compare_units (hub_events_page compare_units (\<lambda>w. show_int (sint w)) (tables_of (\<lambda>_. p)))
        (jstr ''th'') [] = Some (Inr es)
    \<and> shown = st_events (visibleState (after_load compare_units (jstr ''th'') (Inr es)) (Some (jstr ''th'')))
    \<and> filter is_text (parts_listing (event_id e) (projectReadonlyAssistantThread compare_units sample_detail shown))
        = [TextPart (jstr ''Hi'') None JUndef [event_id e]]"
proof -
  let ?m = "field (field sample_frame ''params'') ''msg''"
  have "sample_frame \<noteq> JUndef" by (simp add: sample_frame_def)
  from sample_pipeline [OF this] obtain p where p: "pipeline_run (sample_setup sample_frame) sample_app sample_trace p"
      "pl_ingested p = [envelope (sample_setup sample_frame) sample_line []]" by blast
  have db: "ha_db sample_app = Some empty_db" "rows_ok (db_events empty_db)"
    by (simp_all add: sample_app_def empty_db_def rows_ok_def)
  have rest: "keeps_running (sample_setup sample_frame) (\<lambda>_. p) 0"
    by (auto simp: keeps_running_def tables_of_def intro!: exI [of _ "[]"])
  have line: "envelope (sample_setup sample_frame) (FromCodex, [0x7B, 0x7D]) [] \<in> set (pl_ingested p)"
    by (simp add: p(2) sample_line_def)
  have json: "su_json (sample_setup sample_frame) [0x7B, 0x7D] = Some sample_frame" by (simp add: sample_setup_def)
  obtain q where q: "decode_codex (field sample_frame ''params'') = Some q" "cp_threadId q = jstr ''th''"
      "cp_type q = jstr ''agent_message''"
    by (simp add: sample_frame_def decode_codex_def opt_bind2_def unmarshal_struct_def decode_struct_def
        decode_string_def field_def)
  have codex: "field sample_frame ''method'' = JStr (jstr ''codex/event'')" "cp_threadId q \<noteq> []" "is_object ?m"
    by (simp add: sample_frame_def field_def) (simp add: q(2), simp add: sample_frame_def field_def)
  have sw: "switch_on (Some (cp_type q)) = Some CAgentMessage"
    by (simp add: q(3) switch_on_def map_of_jstr switch_table_def)
  from forwarded_frame_on_screen [OF p(1) db rest line _ json sample_frame_def codex(1) q(1) codex(2,3)
      units.strict_collation_axioms, of compare_units "\<lambda>w. show_int (sint w)" sample_detail]
  obtain es shown e where load: "loadSessionHistory compare_units
        (hub_events_page compare_units (\<lambda>w. show_int (sint w)) (tables_of (\<lambda>_. p))) (jstr ''th'') [] = Some (Inr es)"
      "shown = st_events (visibleState (after_load compare_units (jstr ''th'') (Inr es)) (Some (jstr ''th'')))"
    and e: "msgOf e = ?m" "verbatim_parts CAgentMessage e \<noteq> [] \<Longrightarrow>
      filter is_text (parts_listing (event_id e) (projectReadonlyAssistantThread compare_units sample_detail shown))
        = verbatim_parts CAgentMessage e"
    using sw unfolding q(2) by blast
  have "message_text e = jstr ''Hi''" "str (msgOf e) ''phase'' = None" "field (msgOf e) ''memory_citation'' = JUndef"
    by (simp_all add: message_text_def e(1)) (simp_all add: sample_frame_def field_def str_def)
  then have "verbatim_parts CAgentMessage e = [TextPart (jstr ''Hi'') None JUndef [event_id e]]" by simp
  with e(2) have "filter is_text (parts_listing (event_id e) (projectReadonlyAssistantThread compare_units
      sample_detail shown)) = [TextPart (jstr ''Hi'') None JUndef [event_id e]]" by simp
  with p(1) load show ?thesis by (intro exI [of _ p] exI [of _ es] exI [of _ e] exI [of _ shown] conjI)
qed

text \<open>C12. Every stored event has its row. On the page of the selected thread, after its history was
  loaded, whatever the reader did before, there is the trigger \<open>Raw events\<close>; once it is clicked, the raw
  table holds a row for every event of the thread that was in the hub's table when the load began and
  that passes the filters, opened as the reader left it, whose button toggles that event. The table was
  not on the page before if another tab was open, and then it opens without filters. The behaviour of
  Radix's tabs is the hypothesis \<open>radix_tabs\<close>.\<close>

theorem stored_event_has_its_row:
  assumes "strict_collation bin" and "t \<noteq> []" and "r \<in> set (session_rows (table_at batches 0) t)"
    and "sel_threadId (wb_selection p) = Some t" and "radix_tabs (tabMounts R)"
    and "row_accepted (lowercase R) (ls_table (local_step (tabMounts R) ls (OpenTab (jstr ''raw''), v))) (row_dto fmt r)"
  shows "\<exists>es. loadSessionHistory lc (hub_events_page bin fmt (table_at batches)) t [] = Some (Inr es)
    \<and> (let page = SessionWorkbench lc R date p (visibleState (after_load lc t (Inr es)) (Some t));
           ls' = local_step (tabMounts R) ls (OpenTab (jstr ''raw''), v)
       in (OpenTab (jstr ''raw''), tabs_trigger ''raw'' ''Raw events'') \<in> set (handlers (page ls))
        \<and> (ToggleRow (r_event_id r), event_row_node (renderers.truncate R) (row_dto fmt r)
             (r_event_id r \<in> set (expanded (ls_table ls')))) \<in> set (handlers (page ls'))
        \<and> (if ls_tab ls = jstr ''raw'' then ls_table ls' = ls_table ls
            else ls_table ls' = table_init \<and> ToggleRow (r_event_id r) \<notin> fst ` set (handlers (page ls))))"
proof -
  let ?ls = "local_step (tabMounts R) ls (OpenTab (jstr ''raw''), v)"
  have sel: "truthy_id (sel_threadId (wb_selection p))" using assms(2,4) by (simp add: truthy_id_def)
  have radix: "tabMounts R tab (jstr ''raw'') False \<longleftrightarrow> tab = jstr ''raw''" for tab
    using assms(5) by (simp add: radix_tabs_def)
  obtain es where es: "loadSessionHistory lc (hub_events_page bin fmt (table_at batches)) t [] = Some (Inr es)"
    "row_dto fmt r \<in> set (st_events (visibleState (after_load lc t (Inr es)) (Some t)))"
    using row_dto_shown [OF assms(1-3), of lc fmt] by blast
  let ?page = "SessionWorkbench lc R date p (visibleState (after_load lc t (Inr es)) (Some t))"
  from es(2) assms(6) have "(row_dto fmt r, event_id (row_dto fmt r) \<in> set (expanded (ls_table ?ls)))
      \<in> set (table_rows (lowercase R) (ls_table ?ls) (st_events (visibleState (after_load lc t (Inr es)) (Some t))))"
    by (auto simp: table_rows_def filtered_rows_def)
  from row_on_page [OF sel _ this, of lc date] have "(ToggleRow (r_event_id r), event_row_node (renderers.truncate R)
      (row_dto fmt r) (r_event_id r \<in> set (expanded (ls_table ?ls)))) \<in> set (handlers (?page ?ls))"
    by (simp add: radix)
  moreover have "(OpenTab (jstr ''raw''), tabs_trigger ''raw'' ''Raw events'') \<in> set (handlers (?page ls))"
    by (rule trigger_on_page [OF sel]) simp
  moreover have "ls_tab ls \<noteq> jstr ''raw'' \<Longrightarrow> ToggleRow (r_event_id r) \<notin> fst ` set (handlers (?page ls))"
    by (rule no_row_on_page) (simp add: radix)
  ultimately show ?thesis using es(1) by (auto simp: Let_def radix)
qed

text \<open>A page that shows the conversation, whose reader opens the raw events.\<close>

lemma stored_event_has_its_row_witness:
  "\<exists>es. loadSessionHistory compare_units
       (hub_events_page compare_units (\<lambda>w. show_int (sint w)) (table_at sample_batches)) (jstr ''th'') []
       = Some (Inr es)
    \<and> (let page = SessionWorkbench compare_units sample_renderers id
          (live_props (ready_query [sample_source ''a'']) (ready_query [(jstr ''a'', [sample_session ''a'' ''th''])])
            \<lparr>q_data = None, q_pending = True, q_error = None\<rparr> \<lparr>location_hash = [], hash_value = None\<rparr>)
          (visibleState (after_load compare_units (jstr ''th'') (Inr es)) (Some (jstr ''th'')))
       in ToggleRow (jstr ''evt-1'') \<notin> fst ` set (handlers (page local_init))
        \<and> OpenTab (jstr ''raw'') \<in> fst ` set (handlers (page local_init))
        \<and> ToggleRow (jstr ''evt-1'') \<in> fst ` set (handlers (page
             (local_step (tabMounts sample_renderers) local_init (OpenTab (jstr ''raw''), [])))))"
proof -
  let ?r = "hd (table_at sample_batches 0)"
  have r: "?r \<in> set (session_rows (table_at sample_batches 0) (jstr ''th''))" "r_event_id ?r = jstr ''evt-1''"
    by (simp_all add: table_at_def sample_batches_def insert_all_def AppendEventReturningID_def
        sample_stored_def session_rows_def nullString_def newID_def Let_def)
  let ?p = "live_props (ready_query [sample_source ''a'']) (ready_query [(jstr ''a'', [sample_session ''a'' ''th''])])
     \<lparr>q_data = None, q_pending = True, q_error = None\<rparr> \<lparr>location_hash = [], hash_value = None\<rparr>"
  have p: "sel_threadId (wb_selection ?p) = Some (jstr ''th'')"
    by (simp add: wb_selection_def live_props_def ready_query_def query_sources_def query_sessions_def
        resolveThreadSelection_def truthy_id_def sample_source_def sample_session_def map_get_def sessions_of_def)
  have R: "radix_tabs (tabMounts sample_renderers)" by (simp add: radix_tabs_def sample_renderers_def)
  have tab: "ls_tab local_init \<noteq> jstr ''raw''" by (simp add: local_init_def jstr_def unit_of_char_def)
  have "row_accepted (lowercase sample_renderers)
      (ls_table (local_step (tabMounts sample_renderers) local_init (OpenTab (jstr ''raw''), []))) e" for e
    by (simp add: row_accepted_def filter_accepts_def local_init_def table_init_def sample_renderers_def
        trim_def toLowerCase_def)
  from stored_event_has_its_row [OF units.strict_collation_axioms _ r(1) p R this,
      of compare_units "\<lambda>w. show_int (sint w)" id] r(2) tab
  show ?thesis unfolding Let_def by (force simp: image_iff)
qed

text \<open>C34. Whatever the schedule of events, loads, failures, thread switches and renders, the messages
  handed to the assistant runtime have distinct identifiers.\<close>

theorem runtime_message_ids_distinct:
  assumes "collation lc"
  shows "distinct (map tm_id (rc_messages (buildReadonlyRuntimeConfig date
    (messages (projectReadonlyAssistantThread lc d (st_events (visibleState (run_hook lc actions) t)))))))"
proof -
  have "tidy lc (st_events (visibleState (run_hook lc actions) t))"
    by (rule tidy_visible) (rule collation.hook_ok_run [OF assms])
  then show ?thesis
    by (simp add: buildReadonlyRuntimeConfig_def ids_toThreadMessages distinct_thread_ids tidy_def)
qed

lemma runtime_message_ids_distinct_witness:
  "distinct (map tm_id (rc_messages (buildReadonlyRuntimeConfig id (messages
     (projectReadonlyAssistantThread compare_units sample_detail
        (st_events (visibleState (run_hook compare_units
           [Switch (Some (jstr ''th'')), OnEvent (sample_e ''e1''), Settled 0 (Inr [sample_e ''e1'']),
            RunUpdater]) (Some (jstr ''th'')))))))))"
  by (rule runtime_message_ids_distinct) (rule units.collation_axioms)

section \<open>From the hub to the sidebar\<close>

text \<open>Once the hub has ingested an event of a thread from a registered
  source, the page whose queries then succeed has a button for the thread, whatever the hub held
  before, whatever its sessions are called and whatever is selected.\<close>

lemma ingested_session_in_sidebar:
  assumes "ingest parse fmt hex now body db = (Inr b, db')"
    and "in_session_id body \<noteq> []" and "in_client_source_key body \<noteq> []"
    and "map_get (db_sources db) (in_client_source_key body) \<noteq> None"
    and "getJSON (clientSourcesHandler fmt db') = Inr sources"
    and "fetch_sessions (\<lambda>key. getJSON (sessionsForClientSourceHandler fmt db' key)) sources = Inr m"
  shows "SelectThread (in_session_id body) \<in> fst ` set (thread_buttons (SessionWorkbench lc R date
    (live_props (ready_query sources) (ready_query m) sessionQ h) history ls))"
proof -
  obtain r where r: "map_get (db_sessions db') (in_session_id body) = Some r"
      "sr_source r = in_client_source_key body" "db_sources db' = db_sources db"
    using ingested_session [OF assms(1) refl assms(2) refl assms(3)] by blast
  obtain c where c: "c \<in> set sources" "cs_source_key c = in_client_source_key body"
    using source_endpoint [of db' "in_client_source_key body" fmt] assms(4,5) r(3) by auto
  have "projr (getJSON (sessionsForClientSourceHandler fmt db' (cs_source_key c)))
      = sessions_of m (cs_source_key c)"
    by (simp add: fetched_sessions [OF assms(6) c(1)])
  then obtain x where "x \<in> set (sessions_of m (cs_source_key c))" "s_thread_id x = in_session_id body"
    using session_endpoint [OF r(1), of fmt] by (auto simp: r(2) c(2))
  then have "in_session_id body \<in> s_thread_id ` set (listed sources m)"
    using c(1) by (force simp: listed_def)
  moreover have "sources \<noteq> []" using c(1) by auto
  ultimately show ?thesis
    by (force simp: thread_buttons_workbench derivedSidebarState_def live_props_def ready_query_def
        sidebarState_def query_sources_def query_sessions_def)
qed

text \<open>C22. From a client to the sidebar: once a proxy has introduced itself to the hub, with any number of
  heartbeats after it, and the hub has accepted the post of a frame that names a thread, the page
  whose queries then succeed has a button for the thread, whatever the hub held before, whatever client
  runs the proxy, whatever its sessions are called and whatever is selected.\<close>

theorem proxied_session_in_sidebar:
  assumes "ha_db app = Some db"
    and "serve parse fmt (foldl (answered parse fmt) app (introductions sha256 meta hex self_pid now ticks))
      (IngestEvent env time hex') = (app', reply)" and "accepted reply"
    and "env = OnFrame raw_text stamp (proxy_id hex) (proxy_source_key sha256 meta) dir (Some frame)"
    and "frame \<noteq> JUndef" and "in_session_id env \<noteq> []"
    and "ha_db app' = Some db'"
    and "getJSON (clientSourcesHandler fmt db') = Inr sources"
    and "fetch_sessions (\<lambda>key. getJSON (sessionsForClientSourceHandler fmt db' key)) sources = Inr m"
  shows "SelectThread (in_session_id env) \<in> fst ` set (thread_buttons (SessionWorkbench lc R date
    (live_props (ready_query sources) (ready_query m) sessionQ h) history ls))"
proof -
  let ?app = "foldl (answered parse fmt) app (introductions sha256 meta hex self_pid now ticks)"
  obtain db1 src where known: "ha_db ?app = Some db1" "map_get (db_sources db1) (proxy_source_key sha256 meta) = Some src"
    using introduced_proxy_is_known [OF assms(1), of parse fmt sha256 meta hex self_pid now ticks] by auto
  have key: "in_client_source_key env = proxy_source_key sha256 meta" by (simp add: assms(4) OnFrame_def)
  have marshals: "json_marshals env" using assms(5) by (simp add: json_marshals_def assms(4))
  obtain b where "ingest parse fmt hex' time env db1 = (Inr b, db')"
    using accepted_IngestEvent [OF marshals assms(2,3) known(1) assms(7)] by blast
  from ingested_session_in_sidebar [OF this assms(6) _ _ assms(8,9)] known(2) show ?thesis
    by (simp add: key proxy_source_key_eq jstr_def)
qed

text \<open>A client of which nothing is known but its process identifier.\<close>

definition sample_meta :: upstream_meta where
  "sample_meta = no_meta\<lparr>um_pid := 9\<rparr>"

definition introduced_app :: hub_app where
  "introduced_app = foldl (answered (\<lambda>_. None) (\<lambda>w. show_int (sint w))) sample_app
     (introductions (\<lambda>_. [1, 2, 3, 4]) sample_meta (jstr ''01'') 10 5 [Some 6])"

definition sample_call :: js where
  "sample_call = JObj [(jstr ''method'', JStr (jstr ''tools/call'')), (jstr ''params'', JObj [(jstr ''session_id'', JStr (jstr ''th''))])]"

definition sample_post_envelope :: ingest_event where
  "sample_post_envelope = OnFrame (\<lambda>_. []) [] (proxy_id (jstr ''01'')) (proxy_source_key (\<lambda>_. [1, 2, 3, 4]) sample_meta)
     ''upstream'' (Some sample_call)"

lemma sample_post_envelope_session: "in_session_id sample_post_envelope = jstr ''th''"
  by (simp add: sample_post_envelope_def sample_call_def OnFrame_def Normalize_def Let_def opt_bind2_def decode_struct_def
      decode_string_def extractSessionID_def unmarshal_struct_def field_def has_field_def jstr_def unit_of_char_def)

lemma proxied_session_in_sidebar_witness:
  "\<exists>sources m. SelectThread (jstr ''th'') \<in> fst ` set (thread_buttons (SessionWorkbench compare_units
     sample_renderers id (live_props (ready_query sources) (ready_query m)
       \<lparr>q_data = None, q_pending = True, q_error = None\<rparr> \<lparr>location_hash = [], hash_value = None\<rparr>)
     INITIAL_STATE local_init))"
proof -
  let ?fmt = "\<lambda>w. show_int (sint w)"
  have some: "ha_db sample_app = Some empty_db" by (simp add: sample_app_def)
  obtain db1 where db1: "ha_db introduced_app = Some db1" "db_events db1 = []"
    using introduced_proxy_is_known [OF some, of "\<lambda>_. None" ?fmt "\<lambda>_. [1, 2, 3, 4]" sample_meta "jstr ''01''" 10 5 "[Some 6]"]
    by (auto simp: introduced_app_def empty_db_def)
  have call: "sample_call \<noteq> JUndef" by (simp add: sample_call_def)
  then have marshals: "json_marshals sample_post_envelope" by (simp add: json_marshals_def sample_post_envelope_def)
  have "fresh_ids [jstr ''0a''] introduced_app" by (simp add: fresh_ids_def db1)
  moreover have "in_event_id sample_post_envelope = []"
    by (simp add: sample_post_envelope_def envelope_has_no_id)
  ultimately obtain app' reply where post: "serve (\<lambda>_. None) ?fmt introduced_app
      (IngestEvent sample_post_envelope 7 (jstr ''0a'')) = (app', reply)" "accepted reply" "fresh_ids [] app'"
    using serve_fresh [OF marshals, of "jstr ''0a''" "[]" introduced_app "\<lambda>_. None" ?fmt 7]
    by (metis (no_types, lifting) case_prodE)
  then obtain db' where db': "ha_db app' = Some db'" by (auto simp: fresh_ids_def)
  let ?api = "\<lambda>key. getJSON (sessionsForClientSourceHandler ?fmt db' key)"
  obtain sources where sources: "getJSON (clientSourcesHandler ?fmt db') = Inr sources"
    by (simp add: getJSON_def clientSourcesHandler_def)
  have "\<exists>es. fetch_entries ?api xs = Inr es" for xs
    by (induction xs) (auto simp: getJSON_def sessionsForClientSourceHandler_def)
  then obtain es where "fetch_entries ?api sources = Inr es" by blast
  then obtain m where m: "fetch_sessions ?api sources = Inr m" by (simp add: fetch_sessions_def)
  from proxied_session_in_sidebar [OF some post(1) [unfolded introduced_app_def] post(2) sample_post_envelope_def call _ db'
      sources m] show ?thesis
    by (fastforce simp: sample_post_envelope_session)
qed

section \<open>From the live stream to the screen\<close>

text \<open>The text a connection writes is the frame of each of its events (\<open>writeSSE\<close>). What the library
  \<open>fetch-event-source\<close> reads from it is a parameter, \<open>frames\<close>: the data of each message. The named
  hypothesis is its documented behaviour, that of the event stream format, on frames as they occur
  here: three fields of one line each and an empty line are one message with that data. UTF-8 carries
  the text of a field as it is when its surrogates come in pairs and it does not begin with a byte order
  mark, which decoders drop.\<close>

definition stream_text :: "(broker_event \<Rightarrow> jsstring) \<Rightarrow> broker_event list \<Rightarrow> jsstring" where
  "stream_text marshal bs = concat (map (writeSSE marshal) bs)"

definition one_line :: "jsstring \<Rightarrow> bool" where
  "one_line s = (0x0A \<notin> set s \<and> 0x0D \<notin> set s \<and> take 1 s \<noteq> [0xFEFF] \<and> code_points (map unat s) \<noteq> None)"

definition frame_text :: "jsstring \<times> jsstring \<times> jsstring \<Rightarrow> jsstring" where
  "frame_text f = (case f of (i, ty, d) \<Rightarrow>
     jstr ''id: '' @ i @ [0x0A] @ jstr ''event: '' @ ty @ [0x0A] @ jstr ''data: '' @ d @ [0x0A, 0x0A])"

definition reads_event_stream :: "(jsstring \<Rightarrow> jsstring list) \<Rightarrow> bool" where
  "reads_event_stream frames =
     (\<forall>fs. list_all (\<lambda>(i, ty, d). one_line i \<and> one_line ty \<and> one_line d \<and> d \<noteq> []) fs \<longrightarrow>
        frames (concat (map frame_text fs)) = map (\<lambda>(i, ty, d). d) fs)"

text \<open>The fields of an event's frame are one line each, and its data is what \<open>JSON.parse\<close> reads the
  event from. \<open>json.Marshal\<close> escapes control characters, so its text always is one line; nothing in
  the hub keeps an event's identifier or type from holding a line end.\<close>

definition framed :: "(jsstring \<Rightarrow> event_record option) \<Rightarrow> (broker_event \<Rightarrow> jsstring) \<Rightarrow> broker_event \<Rightarrow> bool" where
  "framed parse marshal b = (one_line (be_event_id b) \<and> one_line (be_event_type b)
     \<and> one_line (marshal b) \<and> marshal b \<noteq> [] \<and> parse (marshal b) = Some (wire_event b))"

lemma frames_of_stream:
  assumes "reads_event_stream frames" and "list_all (framed parse marshal) bs"
  shows "frames (stream_text marshal bs) = map marshal bs"
proof -
  let ?f = "\<lambda>b. (be_event_id b, be_event_type b, marshal b)"
  have "frame_text (?f b) = writeSSE marshal b" for b by (simp add: frame_text_def writeSSE_def)
  then have wire: "stream_text marshal bs = concat (map frame_text (map ?f bs))"
    by (simp add: stream_text_def comp_def)
  have "list_all (\<lambda>(i, ty, d). one_line i \<and> one_line ty \<and> one_line d \<and> d \<noteq> []) (map ?f bs)"
    using assms(2) by (simp add: list_all_iff framed_def)
  with assms(1) have "frames (concat (map frame_text (map ?f bs))) = map (\<lambda>(i, ty, d). d) (map ?f bs)"
    unfolding reads_event_stream_def by blast
  then show ?thesis unfolding wire by (simp add: comp_def)
qed

text \<open>The calls of the client's callbacks, and the events handed to the hook one at a time, React
  rendering after each.\<close>

definition live_wire :: "(jsstring \<Rightarrow> jsstring list) \<Rightarrow> (broker_event \<Rightarrow> jsstring) \<Rightarrow> broker_event list \<Rightarrow> wire list" where
  "live_wire frames marshal bs = WOpen # map WMessage (frames (stream_text marshal bs))"

definition feed :: "(jsstring \<Rightarrow> jsstring \<Rightarrow> int) \<Rightarrow> hook \<Rightarrow> event_record list \<Rightarrow> hook" where
  "feed lc h es = foldl (\<lambda>h e. render (hook_step lc h (OnEvent e))) h es"

lemma feed_held:
  assumes "delivered_held h seen" and "effect_of h = Some ef" and "handoffComplete ef"
  shows "\<exists>ef'. effect_of (feed lc h es) = Some ef' \<and> handoffComplete ef' \<and> ef_thread ef' = ef_thread ef
    \<and> delivered_held (feed lc h es) (seen \<union> event_id ` set es)"
  using assms
proof (induction es arbitrary: h seen ef)
  case Nil
  then show ?case by (auto simp: feed_def)
next
  case (Cons e es)
  let ?h = "render (hook_step lc h (OnEvent e))" and ?ef = "ef\<lparr>bufferedEvents := bufferedEvents ef @ [e]\<rparr>"
  have "effect_of ?h = Some ?ef"
    using Cons.prems by (simp add: delivered_held_def render_update Let_def)
  from Cons.IH [OF delivered_held_event [OF Cons.prems(1,2)] this] Cons.prems(3)
  show ?case by (simp add: feed_def)
qed

text \<open>The frames of a stream and the events handed to the hook.\<close>

lemma delivered_live_wire:
  assumes "reads_event_stream frames" and "list_all (framed parse marshal) bs"
  shows "delivered (subscribeEvents parse raises (live_wire frames marshal bs)) = map wire_event bs"
proof -
  have "messages_of (live_wire frames marshal bs) = map marshal bs"
    using assms(2) unfolding live_wire_def frames_of_stream [OF assms]
    by (induction bs) (simp_all add: framed_def)
  moreover have "List.map_filter parse (map marshal bs) = map wire_event bs"
    using assms(2) by (induction bs) (simp_all add: framed_def map_filter_Cons List.map_filter_def)
  ultimately show ?thesis
    using delivered_wire [of parse raises "live_wire frames marshal bs"]
    by (simp only: subscribeEvents_def delivered.simps delivered_append append_Nil2)
qed

text \<open>C3. From the hub's stream to the screen: a browser whose history is loaded resumes its stream
  after an event that is still in the ring, whose identifiers are distinct. The conditions: publications do not overlap, before and
  after the subscription; no channel overflows or is closed under a publisher after it; the
  connection is being served and has written what it has; every event it wrote has an identifier and
  a type of one line (\<open>one_line\<close>), so that its frame is read as one message (\<open>frame_injection\<close> in \<open>Hub_Live\<close>
  shows what happens otherwise), and \<open>JSON.parse\<close> reads the data \<open>json.Marshal\<close> wrote; React renders after
  each event, in the run before (\<open>prompt_run\<close>) and while the stream is delivered (\<open>feed\<close>). Then the
  selected thread shows, besides the events it had, those of everything published after that event
  and nothing else. The events of other threads are among them: neither the hub nor the hook
  filters.\<close>

theorem live_stream_to_screen:
  assumes "runs serial (new_hub cap) as h1" and "published as = pre @ e # post"
    and "length post < ring_size cap" and "distinct (map be_event_id (published as))"
    and "be_event_id e \<noteq> []" and "hub_step h1 (Subscribe c (be_event_id e)) h2"
    and "runs (\<lambda>h a. lossless c h a \<and> serial h a) h2 bs h3"
    and "conns h3 c = Some k" and "conn_phase k = Serving"
    and "replay_left k @ chan_queue k @ in_flight c h3 = []"
    and "reads_event_stream frames" and "list_all (framed parse marshal) (written k)"
    and "prompt_run lc cache h seen" and "effect_of h = Some ef" and "handoffComplete ef"
  shows "event_id ` set (st_events (visibleState
       (feed lc h (delivered (subscribeEvents parse raises (live_wire frames marshal (written k)))))
       (Some (ef_thread ef))))
     = seen \<union> be_event_id ` set (post @ published bs)"
proof -
  have w: "written k = post @ published bs"
    using resumed_stream [OF assms(1-9)] assms(10) by simp
  from feed_held [OF prompt_run_held [OF assms(13)] assms(14,15), of lc "map wire_event (written k)"]
  obtain ef' where ef': "effect_of (feed lc h (map wire_event (written k))) = Some ef'"
      "handoffComplete ef'" "ef_thread ef' = ef_thread ef"
    and held: "delivered_held (feed lc h (map wire_event (written k)))
      (seen \<union> event_id ` set (map wire_event (written k)))" by blast
  from delivered_held_shown [OF held ef'(1,2)] ef'(3)
  have "event_id ` set (st_events (visibleState (feed lc h (map wire_event (written k)))
      (Some (ef_thread ef)))) = seen \<union> event_id ` set (map wire_event (written k))" by simp
  then show ?thesis unfolding delivered_live_wire [OF assms(11,12)] by (simp add: image_image image_Un w)
qed

text \<open>A reader of event streams that has the documented behaviour, for the witness: the last data field
  before an empty line is a message.\<close>

fun dispatch :: "jsstring \<Rightarrow> jsstring list \<Rightarrow> jsstring list" where
  "dispatch buf [] = []"
| "dispatch buf (l # ls) =
     (if l = [] then (if buf = [] then [] else [buf]) @ dispatch [] ls
      else if take 6 l = jstr ''data: '' then dispatch (drop 6 l) ls
      else dispatch buf ls)"

lemma dispatch_frame:
  assumes "one_line i" and "one_line ty" and "one_line d" and "d \<noteq> []"
  shows "dispatch [] (lines (frame_text (i, ty, d) @ rest)) = d # dispatch [] (lines rest)"
proof -
  have "0x0A \<notin> set (jstr ''id: '' @ i)" "0x0A \<notin> set (jstr ''event: '' @ ty)" "0x0A \<notin> set (jstr ''data: '' @ d)"
    using assms by (auto simp: one_line_def jstr_def unit_of_char_def)
  note l = this [THEN lines_append]
  have "lines (frame_text (i, ty, d) @ rest)
      = [jstr ''id: '' @ i, jstr ''event: '' @ ty, jstr ''data: '' @ d, []] @ lines rest"
    using l(1) [of "jstr ''event: '' @ ty @ 0x0A # jstr ''data: '' @ d @ 0x0A # 0x0A # rest"]
      l(2) [of "jstr ''data: '' @ d @ 0x0A # 0x0A # rest"] l(3) [of "0x0A # rest"]
    by (simp add: frame_text_def)
  then show ?thesis using assms(4) by (simp add: jstr_def unit_of_char_def)
qed

lemma dispatch_reads: "reads_event_stream (\<lambda>t. dispatch [] (lines t))"
proof -
  have "list_all (\<lambda>(i, ty, d). one_line i \<and> one_line ty \<and> one_line d \<and> d \<noteq> []) fs \<Longrightarrow>
      dispatch [] (lines (concat (map frame_text fs))) = map (\<lambda>(i, ty, d). d) fs" for fs
    by (induction fs) (auto simp: dispatch_frame)
  then show ?thesis by (simp add: reads_event_stream_def)
qed

lemma live_stream_to_screen_witness:
  "event_id ` set (st_events (visibleState
       (feed compare_units sample_hook (delivered (subscribeEvents
          (\<lambda>d. Some (wire_event (if d = jstr ''e2'' then sample_broker_event ''e2'' ''th''
                                 else sample_broker_event ''e3'' ''th'')))
          (\<lambda>_. False) (live_wire (\<lambda>t. dispatch [] (lines t)) be_event_id
             (written (the (conns (sample_hub 9) 7)))))))
       (Some (jstr ''th''))))
     = {jstr ''e1'', jstr ''e2'', jstr ''e3'', jstr ''e4''}
       \<union> be_event_id ` set ([sample_broker_event ''e2'' ''th''] @ published sample_after)"
proof -
  let ?ef = "\<lparr>ef_gen = 0, ef_thread = jstr ''th'', cachedEvents = [],
    bufferedEvents = [sample_e ''e3'', sample_e ''e4''], handoffComplete = True\<rparr>"
  have p: "prompt_run compare_units [] sample_hook {jstr ''e1'', jstr ''e2'', jstr ''e3'', jstr ''e4''}"
    "effect_of sample_hook = Some ?ef" using prompt_run_sample by auto
  have sub: "hub_step (sample_hub 4) (Subscribe 7 (be_event_id (sample_broker_event ''e1'' ''th'')))
      (sample_hub 5)"
    using hub_exec_sound [OF sample_hub_runs(2)] by simp
  note screen = live_stream_to_screen [OF hub_run_sound [OF sample_hub_runs(1)] _ _ _ _
    sub hub_run_sound [OF sample_hub_runs(3)] sample_hub_runs(4) _ _ dispatch_reads _ p,
    of "[]" "[sample_broker_event ''e2'' ''th'']" _ be_event_id "\<lambda>_. False"]
  show ?thesis
    unfolding sample_hub_runs(4) option.sel
    by (rule screen [simplified effect.simps])
      (simp_all add: ring_size_def sample_before_def in_flight_sample framed_def one_line_def code_points.simps jstr_def
        unit_of_char_def sample_broker_event_def)
qed

end
